(* ===== verification/LG_Prelude.thy ===== *)
theory LG_Prelude
  imports Main "HOL-Library.Word" "HOL-Library.Signed_Division"
begin

text \<open>
  Shared vocabulary of the LockGrid development: the machine types of the C code, the
  \<open>MIN\<close>/\<open>MAX\<close>/\<open>CLAMP\<close> macros, searching loops over fixed tables, byte buffers, and the
  lemmas about them that the component theories use through the collections declared here.
\<close>

unbundle bit_operations_syntax

section \<open>Types and collections\<close>

type_synonym u8 = "8 word"
type_synonym u16 = "16 word"
type_synonym u32 = "32 word"
type_synonym u64 = "64 word"

text \<open>The facts that move between words and natural numbers.\<close>

named_theorems word_nat "word comparisons and conversions as facts about natural numbers"

declare word_le_nat_alt [word_nat] word_less_nat_alt [word_nat]

text \<open>Conversions and sums that do not wrap.\<close>

lemma unat_ucast_small: "unat w < 2 ^ LENGTH('b) \<Longrightarrow> unat (ucast w :: 'b::len word) = unat w"
  for w :: "'a::len word"
  by (simp add: unsigned_ucast_eq take_bit_nat_eq_self)

lemma unat_ucast_up: "LENGTH('a) \<le> LENGTH('b) \<Longrightarrow> unat (ucast w :: 'b::len word) = unat w"
  for w :: "'a::len word"
proof (rule unat_ucast_small)
  assume "LENGTH('a) \<le> LENGTH('b)"
  then have "(2::nat) ^ LENGTH('a) \<le> 2 ^ LENGTH('b)" by simp
  moreover have "unat w < 2 ^ LENGTH('a)" by (rule unsigned_less)
  ultimately show "unat w < 2 ^ LENGTH('b)" by (rule order_less_le_trans [rotated])
qed

lemma unat_add_small: "unat a + unat b < 2 ^ LENGTH('a) \<Longrightarrow> unat (a + b) = unat a + unat b"
  for a b :: "'a::len word"
  by (simp add: unat_word_ariths)

lemma unat_mult_small: "unat a * unat b < 2 ^ LENGTH('a) \<Longrightarrow> unat (a * b) = unat a * unat b"
  for a b :: "'a::len word"
  by (simp add: unat_word_ariths)

lemma unat_of_nat_small: "n < 2 ^ LENGTH('a) \<Longrightarrow> unat (of_nat n :: 'a::len word) = n"
  by (simp add: unat_of_nat)

text \<open>Frame facts: what an operation leaves alone.\<close>

named_theorems frame_simps "fields an operation does not touch"

section \<open>Macros of the C code\<close>

definition CLAMP :: "'a::linorder \<Rightarrow> 'a \<Rightarrow> 'a \<Rightarrow> 'a" where
  "CLAMP v lo hi = (if v \<le> lo then lo else if v < hi then v else hi)"

lemma CLAMP_bounds: "lo \<le> hi \<Longrightarrow> lo \<le> CLAMP v lo hi \<and> CLAMP v lo hi \<le> hi"
  by (auto simp: CLAMP_def)

lemma CLAMP_id: "lo \<le> v \<Longrightarrow> v \<le> hi \<Longrightarrow> CLAMP v lo hi = v"
  by (auto simp: CLAMP_def)

text \<open>A cast to \<open>int8_t\<close>: the low eight bits, read as two's complement.\<close>

definition to_s8 :: "int \<Rightarrow> int" where
  "to_s8 x = signed_take_bit 7 x"

lemma to_s8_id: "-128 \<le> x \<Longrightarrow> x < 128 \<Longrightarrow> to_s8 x = x"
  by (simp add: to_s8_def signed_take_bit_int_eq_self)

definition INT8_MIN :: int where "INT8_MIN = -128"

definition UINT64_MAX :: u64 where "UINT64_MAX = -1"

definition USEC_PER_SEC :: u64 where "USEC_PER_SEC = 1000000"

text \<open>\<open>BIT(n)\<close>.\<close>

definition BIT :: "nat \<Rightarrow> 'a::len word" where
  "BIT n = push_bit n 1"

lemma bit_BIT [bit_simps]: "bit (BIT n :: 'a::len word) i \<longleftrightarrow> i = n \<and> n < LENGTH('a)"
  by (auto simp: BIT_def bit_simps)

lemma bit_clear: "bit (m AND NOT (BIT i)) j \<longleftrightarrow> bit m j \<and> j \<noteq> i"
  by (auto simp: bit_simps dest: bit_imp_le_length)

lemma bit_put: "i < LENGTH('a) \<Longrightarrow> bit (m OR BIT i) j \<longleftrightarrow> bit m j \<or> j = i" for m :: "'a::len word"
  by (auto simp: bit_simps)

lemma and_BIT_zero_iff:
  "i < LENGTH('a) \<Longrightarrow> m AND BIT i = 0 \<longleftrightarrow> \<not> bit m i" for m :: "'a::len word"
proof
  assume i: "i < LENGTH('a)" and "m AND BIT i = 0"
  then have "\<not> bit (m AND BIT i) i" by simp
  with i show "\<not> bit m i" by (simp add: bit_and_iff bit_BIT)
next
  assume "\<not> bit m i"
  then show "m AND BIT i = 0" by (intro bit_word_eqI) (auto simp: bit_and_iff bit_BIT)
qed

section \<open>Searching loops over a table\<close>

text \<open>\<open>for (i = 0; i < N; i++) if (P(t[i])) return i;\<close>\<close>

fun find_idx :: "('a \<Rightarrow> bool) \<Rightarrow> 'a list \<Rightarrow> nat option" where
  "find_idx P [] = None"
| "find_idx P (x # xs) = (if P x then Some 0 else map_option Suc (find_idx P xs))"

lemma find_idx_None_iff: "find_idx P xs = None \<longleftrightarrow> (\<forall>x\<in>set xs. \<not> P x)"
  by (induction xs) auto

lemma find_idx_SomeD:
  "find_idx P xs = Some i \<Longrightarrow> i < length xs \<and> P (xs ! i) \<and> (\<forall>j<i. \<not> P (xs ! j))"
proof (induction xs arbitrary: i)
  case Nil
  then show ?case by simp
next
  case (Cons x xs)
  show ?case
  proof (cases "P x")
    case True
    with Cons.prems show ?thesis by auto
  next
    case False
    with Cons.prems obtain k where k: "find_idx P xs = Some k" "i = Suc k" by auto
    from Cons.IH [OF k(1)] False k(2) show ?thesis
      by (auto simp: nth_Cons split: nat.splits)
  qed
qed

lemma find_idx_Some_bound: "find_idx P xs = Some i \<Longrightarrow> i < length xs"
  and find_idx_Some_holds: "find_idx P xs = Some i \<Longrightarrow> P (xs ! i)"
  by (auto dest: find_idx_SomeD)

lemma find_idx_eq_Some_iff:
  "find_idx P xs = Some i \<longleftrightarrow> i < length xs \<and> P (xs ! i) \<and> (\<forall>j<i. \<not> P (xs ! j))"
proof
  assume "find_idx P xs = Some i"
  then show "i < length xs \<and> P (xs ! i) \<and> (\<forall>j<i. \<not> P (xs ! j))" by (rule find_idx_SomeD)
next
  assume A: "i < length xs \<and> P (xs ! i) \<and> (\<forall>j<i. \<not> P (xs ! j))"
  then have "find_idx P xs \<noteq> None" by (auto simp: find_idx_None_iff)
  then obtain k where k: "find_idx P xs = Some k" by auto
  from find_idx_SomeD [OF k] A have "k = i" by (metis nat_neq_iff)
  with k show "find_idx P xs = Some i" by simp
qed

text \<open>
  \<open>for (i = 0; i < N; i++) if (P(t[i])) if (!best || better(t[i], *best)) best = &t[i];\<close>
\<close>

definition pick_step :: "('a \<Rightarrow> bool) \<Rightarrow> ('a \<Rightarrow> 'a \<Rightarrow> bool) \<Rightarrow> 'a list \<Rightarrow> nat option \<Rightarrow> nat \<Rightarrow> nat option" where
  "pick_step P better xs best i =
     (if P (xs ! i) \<and> (case best of None \<Rightarrow> True | Some b \<Rightarrow> better (xs ! i) (xs ! b))
      then Some i else best)"

definition pick_idx :: "('a \<Rightarrow> bool) \<Rightarrow> ('a \<Rightarrow> 'a \<Rightarrow> bool) \<Rightarrow> 'a list \<Rightarrow> nat option" where
  "pick_idx P better xs = foldl (pick_step P better xs) None [0..<length xs]"

lemma pick_fold_Some:
  "foldl (pick_step P better xs) None [0..<n] = Some i \<Longrightarrow> i < n \<and> P (xs ! i)"
  by (induction n arbitrary: i) (auto simp: pick_step_def less_Suc_eq split: if_splits)

lemma pick_fold_None:
  "foldl (pick_step P better xs) None [0..<n] = None \<longleftrightarrow> (\<forall>i<n. \<not> P (xs ! i))"
  by (induction n) (auto simp: pick_step_def less_Suc_eq split: option.splits)

lemma pick_idx_SomeD: "pick_idx P better xs = Some i \<Longrightarrow> i < length xs \<and> P (xs ! i)"
  unfolding pick_idx_def by (rule pick_fold_Some)

lemma pick_idx_None_iff: "pick_idx P better xs = None \<longleftrightarrow> (\<forall>x\<in>set xs. \<not> P x)"
  unfolding pick_idx_def pick_fold_None all_set_conv_all_nth by simp

text \<open>With a key, the pick is a first maximum (or minimum) of the eligible entries.\<close>

lemma pick_fold_min:
  fixes f :: "'a \<Rightarrow> 'b::linorder"
  shows "foldl (pick_step P (\<lambda>x y. f x < f y) xs) None [0..<n] = Some i \<Longrightarrow>
    j < n \<Longrightarrow> P (xs ! j) \<Longrightarrow> f (xs ! i) \<le> f (xs ! j)"
proof (induction n arbitrary: i j)
  case 0
  then show ?case by simp
next
  case (Suc n)
  let ?b = "foldl (pick_step P (\<lambda>x y. f x < f y) xs) None [0..<n]"
  show ?case
  proof (cases ?b)
    case None
    with pick_fold_None have "\<forall>i<n. \<not> P (xs ! i)" by blast
    with Suc.prems(2,3) have "j = n" by (auto simp: less_Suc_eq)
    have "pick_step P (\<lambda>x y. f x < f y) xs None n = Some i"
      using Suc.prems(1) None by simp
    with \<open>j = n\<close> Suc.prems(3) show ?thesis by (simp add: pick_step_def)
  next
    case (Some b)
    have "pick_step P (\<lambda>x y. f x < f y) xs (Some b) n = Some i"
      using Suc.prems(1) Some by simp
    then have i: "i = (if P (xs ! n) \<and> f (xs ! n) < f (xs ! b) then n else b)"
      by (auto simp: pick_step_def split: if_splits)
    show ?thesis
    proof (cases "j = n")
      case True
      with i Suc.prems(3) show ?thesis by auto
    next
      case False
      with Suc.prems(2) have "j < n" by simp
      from Suc.IH [OF Some this Suc.prems(3)] i show ?thesis by auto
    qed
  qed
qed

lemma pick_idx_min:
  fixes f :: "'a \<Rightarrow> 'b::linorder"
  assumes "pick_idx P (\<lambda>x y. f x < f y) xs = Some i" "x \<in> set xs" "P x"
  shows "f (xs ! i) \<le> f x"
  using assms pick_fold_min [of P f xs "length xs" i]
  by (auto simp: pick_idx_def in_set_conv_nth)

section \<open>Counting loops\<close>

lemma length_filter_update:
  "i < length xs \<Longrightarrow>
   length (filter P (xs[i := x])) + (if P (xs ! i) then 1 else 0) =
   length (filter P xs) + (if P x then 1 else 0)"
proof (induction xs arbitrary: i)
  case Nil
  then show ?case by simp
next
  case (Cons y xs)
  show ?case
  proof (cases i)
    case 0
    then show ?thesis by simp
  next
    case (Suc k)
    with Cons.prems have "k < length xs" by simp
    from Cons.IH [OF this] Suc show ?thesis by simp
  qed
qed

section \<open>Byte buffers\<close>

text \<open>
  A C buffer is a list of bytes of fixed length. \<open>blit\<close> is \<open>memcpy\<close> into it: the model
  writes nothing outside the buffer, and every use is shown to stay inside.
\<close>

definition blit :: "u8 list \<Rightarrow> nat \<Rightarrow> u8 list \<Rightarrow> u8 list" where
  "blit buf off src = take off buf @ src @ drop (off + length src) buf"

lemma length_blit [simp]: "off + length src \<le> length buf \<Longrightarrow> length (blit buf off src) = length buf"
  by (simp add: blit_def)

lemma nth_blit_before: "i < off \<Longrightarrow> off \<le> length buf \<Longrightarrow> blit buf off src ! i = buf ! i"
  by (simp add: blit_def nth_append)

lemma nth_blit_in: "i < length src \<Longrightarrow> off \<le> length buf \<Longrightarrow> blit buf off src ! (off + i) = src ! i"
  by (simp add: blit_def nth_append)

lemma take_blit [simp]: "off \<le> length buf \<Longrightarrow> n \<le> off \<Longrightarrow> take n (blit buf off src) = take n buf"
  by (simp add: blit_def)

lemma slice_blit: "off \<le> length buf \<Longrightarrow> take (length src) (drop off (blit buf off src)) = src"
  by (simp add: blit_def)

lemma take_end_blit: "off \<le> length buf \<Longrightarrow> take (off + length src) (blit buf off src) = take off buf @ src"
  by (simp add: blit_def)

lemma take_past_blit: "off \<le> length buf \<Longrightarrow> n = off + length src \<Longrightarrow> take n (blit buf off src) = take off buf @ src"
  by (simp only: take_end_blit)

section \<open>Tables searched by key\<close>

text \<open>No two live entries share a key.\<close>

definition unique_keys :: "('r \<Rightarrow> bool) \<Rightarrow> ('r \<Rightarrow> 'k) \<Rightarrow> 'r list \<Rightarrow> bool" where
  "unique_keys live key xs \<longleftrightarrow>
     (\<forall>i<length xs. \<forall>j<length xs. live (xs ! i) \<and> live (xs ! j) \<and> key (xs ! i) = key (xs ! j) \<longrightarrow> i = j)"

lemma unique_keys_update:
  assumes u: "unique_keys live key xs"
    and new: "\<And>j. j < length xs \<Longrightarrow> j \<noteq> i \<Longrightarrow> live (xs ! j) \<Longrightarrow> live r \<Longrightarrow> key (xs ! j) \<noteq> key r"
  shows "unique_keys live key (xs[i := r])"
  unfolding unique_keys_def length_list_update
proof (intro allI impI, elim conjE)
  fix a b
  assume ab: "a < length xs" "b < length xs" "live (xs[i := r] ! a)" "live (xs[i := r] ! b)"
    "key (xs[i := r] ! a) = key (xs[i := r] ! b)"
  show "a = b"
  proof (cases "a = i"; cases "b = i")
    assume "a = i" "b \<noteq> i" with ab new [of b] show ?thesis by simp
  next
    assume "a \<noteq> i" "b = i" with ab new [of a] show ?thesis by simp
  next
    assume "a \<noteq> i" "b \<noteq> i" with ab u show ?thesis by (simp add: unique_keys_def)
  qed simp
qed

text \<open>
  The contract between a table and its searching loop: what an update of one slot does to every
  later search.
\<close>

locale keyed_table =
  fixes table :: "'s \<Rightarrow> 'r list"
    and live :: "'r \<Rightarrow> bool"
    and key :: "'r \<Rightarrow> 'k"
    and lookup :: "'k \<Rightarrow> 's \<Rightarrow> nat option"
    and ok :: "'k \<Rightarrow> bool"
  assumes lookup_is: "ok k \<Longrightarrow> lookup k s = find_idx (\<lambda>r. live r \<and> key r = k) (table s)"
begin

lemma lookup_unique:
  assumes "unique_keys live key (table s)" "ok k" "i < length (table s)" "live (table s ! i)" "key (table s ! i) = k"
  shows "lookup k s = Some i"
proof -
  have "\<not> (live (table s ! j) \<and> key (table s ! j) = k)" if "j < i" for j
    using assms that unfolding unique_keys_def by (metis order_less_trans order_less_irrefl)
  with assms show ?thesis by (simp add: lookup_is find_idx_eq_Some_iff)
qed

lemma lookup_None_iff:
  "ok k \<Longrightarrow> lookup k s = None \<longleftrightarrow> (\<forall>r\<in>set (table s). live r \<longrightarrow> key r \<noteq> k)"
  by (auto simp: lookup_is find_idx_None_iff)

lemma lookup_SomeD:
  "ok k \<Longrightarrow> lookup k s = Some i \<Longrightarrow> i < length (table s) \<and> live (table s ! i) \<and> key (table s ! i) = k"
  by (auto simp: lookup_is dest: find_idx_SomeD)

lemma unique_insert:
  assumes "unique_keys live key (table s)" "ok k" "lookup k s = None \<or> lookup k s = Some i"
    and "table t = (table s)[i := r]" "key r = k"
  shows "unique_keys live key (table t)"
proof -
  have "live (table s ! j) \<and> key (table s ! j) = k \<and> j < length (table s) \<Longrightarrow> j = i" for j
    using assms(2,3) lookup_unique [OF assms(1,2), of j] by auto
  with assms(1,5) show ?thesis unfolding assms(4) by (intro unique_keys_update) auto
qed

lemma unique_remove:
  assumes "unique_keys live key (table s)" "table t = (table s)[i := r]" "\<not> live r"
  shows "unique_keys live key (table t)"
  using assms(1,3) unfolding assms(2) by (intro unique_keys_update) auto

lemma lookup_insert_same:
  assumes "unique_keys live key (table s)" "ok k" "lookup k s = None \<or> lookup k s = Some i"
    and "table t = (table s)[i := r]" "key r = k" "live r" "i < length (table s)"
  shows "lookup k t = Some i"
  using lookup_unique [OF unique_insert [OF assms(1-5)] assms(2), of i] assms(4-7) by simp

lemma lookup_insert_other:
  assumes "ok k'" "table t = (table s)[i := r]" "i < length (table s)"
    and "\<not> (live r \<and> key r = k')" "\<not> (live (table s ! i) \<and> key (table s ! i) = k')"
  shows "lookup k' t = lookup k' s"
proof -
  have "find_idx P (xs[i := y]) = find_idx P xs" if "i < length xs" "\<not> P y" "\<not> P (xs ! i)" for P y xs
    using that
  proof (induction xs arbitrary: i)
    case Nil
    then show ?case by simp
  next
    case (Cons x xs)
    then show ?case by (cases i) auto
  qed
  from this [of "table s" "\<lambda>r. live r \<and> key r = k'" r] assms show ?thesis by (simp add: lookup_is)
qed

end

end
