(* ===== verification/LG_Frame.thy ===== *)
theory LG_Frame
  imports LG_Prelude
begin

text \<open>
  The over-the-air formats (\<open>lg_frame.h\<close>, \<open>lg_frame.c\<close>, and the little-endian helpers of
  \<open>lg_internal.h\<close>): header and packed payload structures as bytes, and the round trips that
  make a built frame readable at the other end.
\<close>

section \<open>Little-endian accessors\<close>

definition le16_bytes :: "u16 \<Rightarrow> u8 list" where
  "le16_bytes v = [ucast v, ucast (drop_bit 8 v)]"

definition le32_bytes :: "u32 \<Rightarrow> u8 list" where
  "le32_bytes v = [ucast v, ucast (drop_bit 8 v), ucast (drop_bit 16 v), ucast (drop_bit 24 v)]"

definition lg_put_le16 :: "u8 list \<Rightarrow> nat \<Rightarrow> u16 \<Rightarrow> u8 list" where
  "lg_put_le16 p off v = blit p off (le16_bytes v)"

definition le16_of :: "u8 \<Rightarrow> u8 \<Rightarrow> u16" where
  "le16_of a b = ucast a OR push_bit 8 (ucast b)"

definition le32_of :: "u8 \<Rightarrow> u8 \<Rightarrow> u8 \<Rightarrow> u8 \<Rightarrow> u32" where
  "le32_of a b c d = ucast a OR push_bit 8 (ucast b) OR push_bit 16 (ucast c) OR push_bit 24 (ucast d)"

definition lg_get_le16 :: "u8 list \<Rightarrow> nat \<Rightarrow> u16" where
  "lg_get_le16 p off = le16_of (p ! off) (p ! (off + 1))"

definition lg_put_le32 :: "u8 list \<Rightarrow> nat \<Rightarrow> u32 \<Rightarrow> u8 list" where
  "lg_put_le32 p off v = blit p off (le32_bytes v)"

definition lg_get_le32 :: "u8 list \<Rightarrow> nat \<Rightarrow> u32" where
  "lg_get_le32 p off = le32_of (p ! off) (p ! (off + 1)) (p ! (off + 2)) (p ! (off + 3))"

lemma length_le_bytes [simp]: "length (le16_bytes v) = 2" "length (le32_bytes w) = 4"
  by (simp_all add: le16_bytes_def le32_bytes_def)

lemma le16_join [simp]: "le16_of (ucast v) (ucast (drop_bit 8 v)) = v"
  unfolding le16_of_def by (rule bit_word_eqI) (auto simp: bit_simps)

lemma le32_join [simp]:
  "le32_of (ucast v) (ucast (drop_bit 8 v)) (ucast (drop_bit 16 v)) (ucast (drop_bit 24 v)) = v"
proof (rule bit_word_eqI)
  fix n
  assume "n < LENGTH(32)"
  then consider "n < 8" | "8 \<le> n" "n < 16" | "16 \<le> n" "n < 24" | "24 \<le> n" "n < 32"
    by fastforce
  then show "bit (le32_of (ucast v) (ucast (drop_bit 8 v)) (ucast (drop_bit 16 v))
      (ucast (drop_bit 24 v))) n = bit v n"
    by cases (auto simp: le32_of_def bit_simps)
qed

lemma le16_inj: "le16_bytes a = le16_bytes b \<longleftrightarrow> a = b"
  by (metis le16_bytes_def le16_join list.inject)

lemma le32_inj: "le32_bytes a = le32_bytes b \<longleftrightarrow> a = b"
proof
  assume "le32_bytes a = le32_bytes b"
  then have "le32_of (le32_bytes a ! 0) (le32_bytes a ! 1) (le32_bytes a ! 2) (le32_bytes a ! 3) =
      le32_of (le32_bytes b ! 0) (le32_bytes b ! 1) (le32_bytes b ! 2) (le32_bytes b ! 3)" by simp
  moreover have "le32_of (le32_bytes v ! 0) (le32_bytes v ! 1) (le32_bytes v ! 2) (le32_bytes v ! 3) = v" for v
    unfolding le32_bytes_def by (simp only: nth_Cons_0 nth_Cons_numeral One_nat_def nth_Cons_Suc
        diff_numeral_simps numeral_One le32_join) simp
  ultimately show "a = b" by simp
qed simp

text \<open>Reading where a value stands in the middle of a byte list.\<close>

lemma nth_append_plus: "length xs = off \<Longrightarrow> (xs @ ys) ! (off + k) = ys ! k"
  by auto

lemma get_le16_append: "length xs = off \<Longrightarrow> lg_get_le16 (xs @ ys) (off + k) = lg_get_le16 ys k"
  using nth_append_plus [of xs off ys k] nth_append_plus [of xs off ys "k + 1"]
  by (simp add: lg_get_le16_def add.assoc)

lemma get_le32_append: "length xs = off \<Longrightarrow> lg_get_le32 (xs @ ys) (off + k) = lg_get_le32 ys k"
  using nth_append_plus [of xs off ys k] nth_append_plus [of xs off ys "k + 1"]
    nth_append_plus [of xs off ys "k + 2"] nth_append_plus [of xs off ys "k + 3"]
  by (simp only: lg_get_le32_def add.assoc)

lemma get_le16_head: "lg_get_le16 (le16_bytes v @ ys) 0 = v"
  by (simp add: lg_get_le16_def le16_bytes_def)

lemma get_le32_head: "lg_get_le32 (le32_bytes v @ ys) 0 = v"
  by (simp add: lg_get_le32_def le32_bytes_def)

lemma get_le16_at [simp]: "length xs = off \<Longrightarrow> lg_get_le16 (xs @ le16_bytes v @ ys) off = v"
  using get_le16_append [of xs off "le16_bytes v @ ys" 0] by (simp add: get_le16_head)

lemma get_le32_at [simp]: "length xs = off \<Longrightarrow> lg_get_le32 (xs @ le32_bytes v @ ys) off = v"
  using get_le32_append [of xs off "le32_bytes v @ ys" 0] by (simp add: get_le32_head)

lemma get_put_le16: "off + 2 \<le> length p \<Longrightarrow> lg_get_le16 (lg_put_le16 p off v) off = v"
  by (simp add: lg_put_le16_def blit_def)

lemma get_put_le32: "off + 4 \<le> length p \<Longrightarrow> lg_get_le32 (lg_put_le32 p off v) off = v"
  by (simp add: lg_put_le32_def blit_def)

lemma length_put_le [simp]:
  "off + 2 \<le> length p \<Longrightarrow> length (lg_put_le16 p off v) = length p"
  "off + 4 \<le> length p \<Longrightarrow> length (lg_put_le32 p off w) = length p"
  by (simp_all add: lg_put_le16_def lg_put_le32_def)

text \<open>Writes behind a field leave it readable.\<close>

lemma get_le32_blit: "off + 4 \<le> at \<Longrightarrow> at \<le> length p \<Longrightarrow> lg_get_le32 (blit p at src) off = lg_get_le32 p off"
  by (simp add: lg_get_le32_def nth_blit_before)

lemma get_le16_blit: "off + 2 \<le> at \<Longrightarrow> at \<le> length p \<Longrightarrow> lg_get_le16 (blit p at src) off = lg_get_le16 p off"
  by (simp add: lg_get_le16_def nth_blit_before)

section \<open>Addresses, ranks and the frame control field\<close>

definition LG_ADDR_INVALID :: u16 where "LG_ADDR_INVALID = 0"
definition LG_ADDR_BROADCAST :: u16 where "LG_ADDR_BROADCAST = 0xFFFF"
definition LG_ADDR_BACKHAUL :: u16 where "LG_ADDR_BACKHAUL = 0xFFFE"
definition LG_RANK_INFINITE :: u16 where "LG_RANK_INFINITE = 0xFFFF"

abbreviation (input) LG_PAYLOAD_MAX :: nat where "LG_PAYLOAD_MAX \<equiv> 64"
abbreviation (input) LG_HDR_LEN :: nat where "LG_HDR_LEN \<equiv> 8"
abbreviation (input) LG_FCTR_LEN :: nat where "LG_FCTR_LEN \<equiv> 4"
abbreviation (input) LG_HDR_LEN_SEC :: nat where "LG_HDR_LEN_SEC \<equiv> 12"
abbreviation (input) LG_PDU_MAX :: nat where "LG_PDU_MAX \<equiv> 125"
abbreviation (input) LG_OFF_NETID :: nat where "LG_OFF_NETID \<equiv> 0"
abbreviation (input) LG_OFF_FCF :: nat where "LG_OFF_FCF \<equiv> 2"
abbreviation (input) LG_OFF_SEQ :: nat where "LG_OFF_SEQ \<equiv> 3"
abbreviation (input) LG_OFF_DST :: nat where "LG_OFF_DST \<equiv> 4"
abbreviation (input) LG_OFF_SRC :: nat where "LG_OFF_SRC \<equiv> 6"
abbreviation (input) LG_OFF_FCTR :: nat where "LG_OFF_FCTR \<equiv> 8"
abbreviation (input) LG_HOPS_MAX :: u8 where "LG_HOPS_MAX \<equiv> 12"
abbreviation (input) LG_BEACON_MIC_LEN :: nat where "LG_BEACON_MIC_LEN \<equiv> 4"

definition LG_FCF_TYPE_MASK :: u8 where "LG_FCF_TYPE_MASK = 0x0F"
definition LG_FCF_SEC :: u8 where "LG_FCF_SEC = 0x10"
definition LG_FCF_MD :: u8 where "LG_FCF_MD = 0x20"
definition LG_FCF_AREQ :: u8 where "LG_FCF_AREQ = 0x40"
definition LG_FCF_ACK :: u8 where "LG_FCF_ACK = 0x80"

text \<open>\<open>enum lg_frame_type\<close> and \<open>enum lg_ctrl_op\<close>, by their wire values.\<close>

definition LG_FT_BEACON :: u8 where "LG_FT_BEACON = 0"
definition LG_FT_JOIN_REQ :: u8 where "LG_FT_JOIN_REQ = 1"
definition LG_FT_JOIN_RSP :: u8 where "LG_FT_JOIN_RSP = 2"
definition LG_FT_JOIN_CFM :: u8 where "LG_FT_JOIN_CFM = 3"
definition LG_FT_JOIN_ACK :: u8 where "LG_FT_JOIN_ACK = 4"
definition LG_FT_RESUME_REQ :: u8 where "LG_FT_RESUME_REQ = 5"
definition LG_FT_RESUME_RSP :: u8 where "LG_FT_RESUME_RSP = 6"
definition LG_FT_DATA :: u8 where "LG_FT_DATA = 9"
definition LG_FT_ACK :: u8 where "LG_FT_ACK = 10"
definition LG_FT_CTRL :: u8 where "LG_FT_CTRL = 11"

definition LG_CTRL_CHAN_MAP :: u8 where "LG_CTRL_CHAN_MAP = 0"
definition LG_CTRL_SUBRATE :: u8 where "LG_CTRL_SUBRATE = 1"
definition LG_CTRL_INTERVAL :: u8 where "LG_CTRL_INTERVAL = 2"
definition LG_CTRL_ROUTE_ADV :: u8 where "LG_CTRL_ROUTE_ADV = 4"
definition LG_CTRL_ROUTE_REG :: u8 where "LG_CTRL_ROUTE_REG = 5"
definition LG_CTRL_TEARDOWN :: u8 where "LG_CTRL_TEARDOWN = 6"

lemmas fcf_defs = LG_FCF_TYPE_MASK_def LG_FCF_SEC_def LG_FCF_MD_def LG_FCF_AREQ_def LG_FCF_ACK_def

lemmas ft_defs = LG_FT_BEACON_def LG_FT_JOIN_REQ_def LG_FT_JOIN_RSP_def LG_FT_JOIN_CFM_def
  LG_FT_JOIN_ACK_def LG_FT_RESUME_REQ_def LG_FT_RESUME_RSP_def LG_FT_DATA_def LG_FT_ACK_def
  LG_FT_CTRL_def

lemmas addr_defs = LG_ADDR_INVALID_def LG_ADDR_BROADCAST_def LG_ADDR_BACKHAUL_def

definition LG_DATA_F_UPWARD :: u8 where "LG_DATA_F_UPWARD = 1"
definition LG_DATA_F_BROADCAST :: u8 where "LG_DATA_F_BROADCAST = 2"
definition LG_DATA_F_DOWNWARD :: u8 where "LG_DATA_F_DOWNWARD = 4"

text \<open>\<open>x & FLAG\<close> as a condition.\<close>

abbreviation has_flag :: "u8 \<Rightarrow> u8 \<Rightarrow> bool" where "has_flag x f \<equiv> x AND f \<noteq> 0"

section \<open>The frame header\<close>

text \<open>\<open>mic\<close> is \<open>CONFIG_LOCKGRID_MIC_LEN\<close>, so \<open>LG_SEC_OVERHEAD\<close> is \<open>12 + mic\<close>.\<close>

definition lg_frame_hdr_put :: "u8 list \<Rightarrow> u16 \<Rightarrow> u8 \<Rightarrow> u8 \<Rightarrow> u16 \<Rightarrow> u16 \<Rightarrow> u8 list \<times> nat" where
  "lg_frame_hdr_put pdu netid fcf sq dst src =
    (let p1 = lg_put_le16 pdu LG_OFF_NETID netid;
         p2 = p1[LG_OFF_FCF := fcf];
         p3 = p2[LG_OFF_SEQ := sq];
         p4 = lg_put_le16 p3 LG_OFF_DST dst;
         p5 = lg_put_le16 p4 LG_OFF_SRC src
     in (p5, if has_flag fcf LG_FCF_SEC then LG_HDR_LEN_SEC else LG_HDR_LEN))"

definition lg_frame_hdr_get :: "nat \<Rightarrow> u8 list \<Rightarrow> nat \<Rightarrow> u16 \<Rightarrow> (u8 \<times> u8 \<times> u16 \<times> u16) option" where
  "lg_frame_hdr_get mic pdu len netid =
    (if len < LG_HDR_LEN then None
     else if lg_get_le16 pdu LG_OFF_NETID \<noteq> netid then None
     else let fcf = pdu ! LG_OFF_FCF; sq = pdu ! LG_OFF_SEQ;
              dst = lg_get_le16 pdu LG_OFF_DST; src = lg_get_le16 pdu LG_OFF_SRC;
              hdr_len = (if has_flag fcf LG_FCF_SEC then LG_HDR_LEN_SEC + mic else LG_HDR_LEN)
          in if hdr_len \<le> len then Some (fcf, sq, dst, src) else None)"

definition lg_frame_type :: "u8 list \<Rightarrow> u8" where
  "lg_frame_type pdu = (pdu ! LG_OFF_FCF) AND LG_FCF_TYPE_MASK"

text \<open>What the header writer leaves in the buffer, byte by byte.\<close>

definition hdr_bytes :: "u16 \<Rightarrow> u8 \<Rightarrow> u8 \<Rightarrow> u16 \<Rightarrow> u16 \<Rightarrow> u8 list" where
  "hdr_bytes netid fcf sq dst src = le16_bytes netid @ [fcf, sq] @ le16_bytes dst @ le16_bytes src"

lemma length_hdr_bytes [simp]: "length (hdr_bytes netid fcf sq dst src) = LG_HDR_LEN"
  by (simp add: hdr_bytes_def)

lemma hdr_put_append:
  assumes "length p = LG_HDR_LEN"
  shows "fst (lg_frame_hdr_put (p @ q) netid fcf sq dst src) = hdr_bytes netid fcf sq dst src @ q"
proof -
  have "length p = Suc (Suc (Suc (Suc (Suc (Suc (Suc (Suc 0)))))))"
    using assms by simp
  then obtain a b c d e f g h where "p = [a, b, c, d, e, f, g, h]"
    by (auto simp: length_Suc_conv)
  then show ?thesis
    by (simp add: lg_frame_hdr_put_def lg_put_le16_def blit_def hdr_bytes_def le16_bytes_def Let_def)
qed

lemma hdr_put_eq:
  assumes "LG_HDR_LEN \<le> length pdu"
  shows "fst (lg_frame_hdr_put pdu netid fcf sq dst src) = hdr_bytes netid fcf sq dst src @ drop LG_HDR_LEN pdu"
  using hdr_put_append [of "take 8 pdu" "drop 8 pdu"] assms by simp

lemma hdr_put_len: "snd (lg_frame_hdr_put pdu netid fcf sq dst src) =
    (if has_flag fcf LG_FCF_SEC then LG_HDR_LEN_SEC else LG_HDR_LEN)"
  by (simp add: lg_frame_hdr_put_def Let_def)

lemma length_hdr_put [simp]:
  "LG_HDR_LEN \<le> length pdu \<Longrightarrow> length (fst (lg_frame_hdr_put pdu netid fcf sq dst src)) = length pdu"
  by (simp add: hdr_put_eq)

lemma hdr_fields:
  assumes "pdu = hdr_bytes netid fcf sq dst src @ rest"
  shows "lg_get_le16 pdu LG_OFF_NETID = netid" "pdu ! LG_OFF_FCF = fcf" "pdu ! LG_OFF_SEQ = sq"
    "lg_get_le16 pdu LG_OFF_DST = dst" "lg_get_le16 pdu LG_OFF_SRC = src"
  unfolding assms hdr_bytes_def le16_bytes_def lg_get_le16_def by simp_all

text \<open>A header that was written is read back exactly, by a node of the same grid and from
  a frame long enough for its kind; and by nobody else.\<close>

theorem hdr_get_put:
  assumes "LG_HDR_LEN \<le> length pdu"
  shows "lg_frame_hdr_get mic (fst (lg_frame_hdr_put pdu netid fcf sq dst src)) len netid' =
    (if netid' = netid \<and> (if has_flag fcf LG_FCF_SEC then LG_HDR_LEN_SEC + mic else LG_HDR_LEN) \<le> len
     then Some (fcf, sq, dst, src) else None)"
  using hdr_fields [OF hdr_put_eq [OF assms]] by (auto simp: lg_frame_hdr_get_def Let_def)

theorem hdr_get_put_witness:
  "lg_frame_hdr_get 4 (fst (lg_frame_hdr_put (replicate 16 0) 0xBEEF (LG_FCF_SEC OR LG_FT_DATA) 7 2 1)) 16 0xBEEF
     = Some (0x19, 7, 2, 1)"
  using hdr_get_put [of "replicate 16 0" 4 "0xBEEF" "LG_FCF_SEC OR LG_FT_DATA" 7 2 1 16 "0xBEEF"]
  by (simp add: fcf_defs ft_defs)

section \<open>Packed payload structures\<close>

record lg_beacon =
  b_network_id :: u32
  b_epoch :: u32
  b_rank :: u16
  b_chan_map :: u16
  b_role :: u8
  b_link_count :: u8
  b_link_capacity :: u8
  b_join_offset_us :: u16
  b_join_window_us :: u16
  b_next_beacon_offset_us :: u32

record lg_data_hdr =
  dh_flags :: u8
  dh_origin :: u16
  dh_final :: u16
  dh_hops :: u8
  dh_port :: u8
  dh_msg_id :: u16

record lg_link_params =
  pp_interval_us :: u32
  pp_anchor_offset_us :: u32
  pp_chan_map :: u16
  pp_hop_seed :: u16
  pp_sup_timeout_cs :: u16
  pp_subrate_max :: u8
  pp_sca_ppm :: u16
  pp_role :: u8
  pp_rank :: u16

text \<open>\<open>memcpy\<close> out of a \<open>__packed\<close> structure on a little-endian machine, and back.\<close>

definition beacon_bytes :: "lg_beacon \<Rightarrow> u8 list" where
  "beacon_bytes b = le32_bytes (b_network_id b) @ le32_bytes (b_epoch b) @ le16_bytes (b_rank b)
     @ le16_bytes (b_chan_map b) @ [b_role b, b_link_count b, b_link_capacity b]
     @ le16_bytes (b_join_offset_us b) @ le16_bytes (b_join_window_us b)
     @ le32_bytes (b_next_beacon_offset_us b)"

definition beacon_of_bytes :: "u8 list \<Rightarrow> lg_beacon" where
  "beacon_of_bytes p = \<lparr>b_network_id = lg_get_le32 p 0, b_epoch = lg_get_le32 p 4,
     b_rank = lg_get_le16 p 8, b_chan_map = lg_get_le16 p 10, b_role = p ! 12,
     b_link_count = p ! 13, b_link_capacity = p ! 14, b_join_offset_us = lg_get_le16 p 15,
     b_join_window_us = lg_get_le16 p 17, b_next_beacon_offset_us = lg_get_le32 p 19\<rparr>"

definition data_hdr_bytes :: "lg_data_hdr \<Rightarrow> u8 list" where
  "data_hdr_bytes d = [dh_flags d] @ le16_bytes (dh_origin d) @ le16_bytes (dh_final d)
     @ [dh_hops d, dh_port d] @ le16_bytes (dh_msg_id d)"

definition data_hdr_of_bytes :: "u8 list \<Rightarrow> lg_data_hdr" where
  "data_hdr_of_bytes p = \<lparr>dh_flags = p ! 0, dh_origin = lg_get_le16 p 1, dh_final = lg_get_le16 p 3,
     dh_hops = p ! 5, dh_port = p ! 6, dh_msg_id = lg_get_le16 p 7\<rparr>"

definition link_params_bytes :: "lg_link_params \<Rightarrow> u8 list" where
  "link_params_bytes q = le32_bytes (pp_interval_us q) @ le32_bytes (pp_anchor_offset_us q)
     @ le16_bytes (pp_chan_map q) @ le16_bytes (pp_hop_seed q) @ le16_bytes (pp_sup_timeout_cs q)
     @ [pp_subrate_max q] @ le16_bytes (pp_sca_ppm q) @ [pp_role q] @ le16_bytes (pp_rank q)"

definition link_params_of_bytes :: "u8 list \<Rightarrow> lg_link_params" where
  "link_params_of_bytes p = \<lparr>pp_interval_us = lg_get_le32 p 0, pp_anchor_offset_us = lg_get_le32 p 4,
     pp_chan_map = lg_get_le16 p 8, pp_hop_seed = lg_get_le16 p 10,
     pp_sup_timeout_cs = lg_get_le16 p 12, pp_subrate_max = p ! 14, pp_sca_ppm = lg_get_le16 p 15,
     pp_role = p ! 17, pp_rank = lg_get_le16 p 18\<rparr>"

abbreviation (input) LG_BEACON_SIZE :: nat where "LG_BEACON_SIZE \<equiv> 23"
abbreviation (input) LG_DATA_HDR_SIZE :: nat where "LG_DATA_HDR_SIZE \<equiv> 9"
abbreviation (input) LG_LINK_PARAMS_SIZE :: nat where "LG_LINK_PARAMS_SIZE \<equiv> 20"

lemma length_packed [simp]:
  "length (beacon_bytes b) = LG_BEACON_SIZE"
  "length (data_hdr_bytes d) = LG_DATA_HDR_SIZE"
  "length (link_params_bytes q) = LG_LINK_PARAMS_SIZE"
  by (simp_all add: beacon_bytes_def data_hdr_bytes_def link_params_bytes_def)

lemmas get_le_defs = lg_get_le16_def lg_get_le32_def le16_bytes_def le32_bytes_def

lemma beacon_roundtrip: "beacon_of_bytes (beacon_bytes b @ rest) = b"
  by (simp add: beacon_of_bytes_def beacon_bytes_def get_le_defs)

lemma data_hdr_roundtrip: "data_hdr_of_bytes (data_hdr_bytes d @ rest) = d"
  by (simp add: data_hdr_of_bytes_def data_hdr_bytes_def get_le_defs)

lemma link_params_roundtrip: "link_params_of_bytes (link_params_bytes q @ rest) = q"
  by (simp add: link_params_of_bytes_def link_params_bytes_def get_le_defs)

text \<open>Every packed structure the protocol exchanges survives the trip through bytes,
  whatever follows it in the frame, so both ends read the same beacon, data header and
  link parameters.\<close>

theorem packed_roundtrip:
  "beacon_of_bytes (beacon_bytes b @ rest) = b \<and>
   data_hdr_of_bytes (data_hdr_bytes d @ rest) = d \<and>
   link_params_of_bytes (link_params_bytes q @ rest) = q"
  by (simp add: beacon_roundtrip data_hdr_roundtrip link_params_roundtrip)

section \<open>Air time and reservations\<close>

abbreviation (input) LG_RAMPUP_US :: u32 where "LG_RAMPUP_US \<equiv> 40"
abbreviation (input) LG_IFS_US :: u32 where "LG_IFS_US \<equiv> 200"
abbreviation (input) LG_SYNC_WINDOW_US :: u64 where "LG_SYNC_WINDOW_US \<equiv> 160"
abbreviation (input) LG_TS_MAX_GRANT_US :: u32 where "LG_TS_MAX_GRANT_US \<equiv> 100000"

definition LG_AIRTIME_US :: "u32 \<Rightarrow> u32" where
  "LG_AIRTIME_US len = (len + 8) * 32"

definition lg_ts_max_grant_us :: u32 where
  "lg_ts_max_grant_us = LG_TS_MAX_GRANT_US"

definition lg_frame_event_budget_us :: "u32 \<Rightarrow> u32" where
  "lg_frame_event_budget_us rx_window_us =
    (let frame = LG_AIRTIME_US 125;
         budget = LG_RAMPUP_US + frame + LG_IFS_US + rx_window_us + frame
     in min budget lg_ts_max_grant_us)"

end
