(* ===== verification/LG_State.thy ===== *)
theory LG_State
  imports LG_Frame
begin

text \<open>
  The state of a node: \<open>struct lg_ctx\<close> and the structures inside it (\<open>lg_internal.h\<close>), the
  file-scope statics of the modules, the Kconfig constants, and the environment (clock, random
  numbers, PSA crypto, radio driver) as fields the operations read. A \<open>struct lg_neigh *\<close> is an
  index into the neighbour table, \<open>NULL\<close> is \<open>None\<close>. A handler runs at one instant, \<open>c_now\<close>.
\<close>

section \<open>Build-time configuration\<close>

text \<open>The currents (microamps, the sleep current in nanoamps) and durations of the power model.\<close>

record pwr_config =
  pc_tx_ua :: u32
  pc_rx_ua :: u32
  pc_pre_ua :: u64
  pc_pre_us :: u64
  pc_xtal_ua :: u64
  pc_xtal_us :: u64
  pc_hfxo_always_on :: bool
  pc_settle_ua :: u64
  pc_settle_us :: u64
  pc_start_ua :: u64
  pc_start_us :: u64
  pc_switch_ua :: u64
  pc_switch_us :: u64
  pc_standby_ua :: u64
  pc_standby_us :: u64
  pc_sleep_na :: u64

definition default_pwr :: pwr_config where
  "default_pwr = \<lparr>pc_tx_ua = 5000, pc_rx_ua = 3200, pc_pre_ua = 2200, pc_pre_us = 13,
     pc_xtal_ua = 1000, pc_xtal_us = 380, pc_hfxo_always_on = False, pc_settle_ua = 600,
     pc_settle_us = 500, pc_start_ua = 2400, pc_start_us = 100, pc_switch_ua = 1200,
     pc_switch_us = 143, pc_standby_ua = 2900, pc_standby_us = 58, pc_sleep_na = 1500\<rparr>"

record config =
  cfg_max_neighbors :: nat
  cfg_max_links :: u8
  cfg_max_parents :: nat
  cfg_router_density_target :: u8
  cfg_max_routes :: nat
  cfg_tx_queue_size :: nat
  cfg_conn_interval_ms :: u32
  cfg_conn_interval_min_ms :: u32
  cfg_conn_interval_max_ms :: u32
  cfg_subrate_max :: u8
  cfg_supervision_timeout_ms :: u32
  cfg_clock_accuracy_ppm :: u32
  cfg_rx_window_min_us :: u32
  cfg_rx_window_max_us :: u32
  cfg_beacon_interval_ms :: u32
  cfg_join_window_floor_ms :: u32
  cfg_beacon_idle_factor :: u8
  cfg_beacon_suppress_threshold :: u8
  cfg_scan_window_us :: u32
  cfg_scan_interval_unattached_ms :: u32
  cfg_scan_interval_seeking_ms :: u32
  cfg_scan_interval_attached_ms :: u32
  cfg_max_rank :: u32
  cfg_min_links_target :: u8
  cfg_chan_eval_period_ms :: u64
  cfg_chan_min_good :: u8
  cfg_chan_bad_per_permille :: u16
  cfg_chan_good_per_permille :: u16
  cfg_chan_noise_floor_dbm :: int
  cfg_mic_len :: nat
  cfg_replay_window :: u32
  cfg_ts_refuse_permille :: u32
  cfg_pwr :: pwr_config

text \<open>The defaults of \<open>Kconfig\<close>.\<close>

definition default_cfg :: config where
  "default_cfg = \<lparr>cfg_max_neighbors = 8, cfg_max_links = 4, cfg_max_parents = 2,
     cfg_router_density_target = 2, cfg_max_routes = 16, cfg_tx_queue_size = 8,
     cfg_conn_interval_ms = 200, cfg_conn_interval_min_ms = 50, cfg_conn_interval_max_ms = 2000,
     cfg_subrate_max = 16, cfg_supervision_timeout_ms = 20000, cfg_clock_accuracy_ppm = 250,
     cfg_rx_window_min_us = 200, cfg_rx_window_max_us = 8000, cfg_beacon_interval_ms = 500,
     cfg_join_window_floor_ms = 30000, cfg_beacon_idle_factor = 16,
     cfg_beacon_suppress_threshold = 3, cfg_scan_window_us = 30000,
     cfg_scan_interval_unattached_ms = 50, cfg_scan_interval_seeking_ms = 3000,
     cfg_scan_interval_attached_ms = 60000, cfg_max_rank = 512, cfg_min_links_target = 2,
     cfg_chan_eval_period_ms = 30000, cfg_chan_min_good = 4, cfg_chan_bad_per_permille = 300,
     cfg_chan_good_per_permille = 150, cfg_chan_noise_floor_dbm = -75, cfg_mic_len = 4,
     cfg_replay_window = 16, cfg_ts_refuse_permille = 0, cfg_pwr = default_pwr\<rparr>"

text \<open>The \<open>range\<close> lines of \<open>Kconfig\<close> the proofs rely on.\<close>

definition cfg_ok :: "config \<Rightarrow> bool" where
  "cfg_ok c \<longleftrightarrow>
     2 \<le> cfg_max_neighbors c \<and> cfg_max_neighbors c \<le> 32 \<and>
     1 \<le> cfg_max_links c \<and> cfg_max_links c \<le> 16 \<and>
     1 \<le> cfg_max_parents c \<and> cfg_max_parents c \<le> 4 \<and>
     1 \<le> cfg_router_density_target c \<and> cfg_router_density_target c \<le> 8 \<and>
     cfg_max_routes c \<le> 64 \<and> 2 \<le> cfg_tx_queue_size c \<and> cfg_tx_queue_size c \<le> 64 \<and>
     10 \<le> cfg_conn_interval_min_ms c \<and> cfg_conn_interval_min_ms c \<le> 4000 \<and>
     20 \<le> cfg_conn_interval_max_ms c \<and> cfg_conn_interval_max_ms c \<le> 32000 \<and>
     cfg_conn_interval_min_ms c \<le> cfg_conn_interval_max_ms c \<and>
     1 \<le> cfg_subrate_max c \<and> cfg_subrate_max c \<le> 32 \<and>
     1 \<le> cfg_clock_accuracy_ppm c \<and> cfg_clock_accuracy_ppm c \<le> 500 \<and>
     100 \<le> cfg_rx_window_min_us c \<and> cfg_rx_window_min_us c \<le> 5000 \<and>
     500 \<le> cfg_rx_window_max_us c \<and> cfg_rx_window_max_us c \<le> 60000 \<and>
     64 \<le> cfg_max_rank c \<and> cfg_max_rank c \<le> 32768 \<and>
     1 \<le> cfg_min_links_target c \<and> cfg_min_links_target c \<le> 8 \<and>
     2 \<le> cfg_chan_min_good c \<and> cfg_chan_min_good c \<le> 16 \<and>
     4 \<le> cfg_mic_len c \<and> cfg_mic_len c \<le> 16 \<and>
     1 \<le> cfg_replay_window c \<and> cfg_replay_window c \<le> 64"

lemma cfg_ok_default: "cfg_ok default_cfg"
  by (simp add: cfg_ok_def default_cfg_def)

section \<open>Enumerations\<close>

datatype neigh_state = LG_NS_FREE | LG_NS_HEARD | LG_NS_JOINING | LG_NS_LINKED | LG_NS_LOST

datatype join_step = LG_JOIN_IDLE | LG_JOIN_SEND_REQ | LG_JOIN_WAIT_RSP | LG_JOIN_SEND_CFM
  | LG_JOIN_WAIT_ACK | LG_JOIN_WAIT_REQ | LG_JOIN_SEND_RSP | LG_JOIN_WAIT_CFM | LG_JOIN_SEND_ACK
  | LG_JOIN_SEND_RESUME | LG_JOIN_WAIT_RESUME_RSP | LG_JOIN_WAIT_RESUME | LG_JOIN_DONE
  | LG_JOIN_FAILED

datatype role = LG_ROLE_LEAF | LG_ROLE_ROUTER | LG_ROLE_BACKHAUL

definition role_u8 :: "role \<Rightarrow> u8" where
  "role_u8 r = (case r of LG_ROLE_LEAF \<Rightarrow> 0 | LG_ROLE_ROUTER \<Rightarrow> 1 | LG_ROLE_BACKHAUL \<Rightarrow> 2)"

datatype evt = LG_EVT_LINK_UP | LG_EVT_LINK_DOWN | LG_EVT_PARENT_CHANGED | LG_EVT_ROUTE_LOST
  | LG_EVT_AUTH_FAILED | LG_EVT_ROLE_CHANGED

datatype ev_kind = LG_EV_NONE | LG_EV_LINK | LG_EV_BEACON | LG_EV_SCAN | LG_EV_TRACK
  | LG_EV_JOIN_TX | LG_EV_JOIN_RX | LG_EV_CHAN_EVAL

datatype pwr_act = LG_PWR_ACT_SCAN | LG_PWR_ACT_LINK | LG_PWR_ACT_JOIN | LG_PWR_ACT_BEACON
  | LG_PWR_ACT_CHAN_EVAL

datatype teardown_reason = LG_TD_LOCAL_CLOSE | LG_TD_TOO_MANY_LINKS | LG_TD_POOR_QUALITY
  | LG_TD_ROLE_CHANGE | LG_TD_AUTH_EXPIRED

datatype errno = EINVAL | EIO | EAGAIN | EBUSY | EALREADY | ECONNREFUSED | ENOKEY | EBADMSG
  | EMSGSIZE | ENOTCONN | ENOMEM | EPERM | EACCES | ETIME | ENOMSG

section \<open>Tables\<close>

record neigh =
  n_state :: neigh_state
  n_addr :: u16
  n_role :: u8
  n_peer_rank :: u16
  n_peer_chan_map :: u16
  n_peer_links :: u8
  n_peer_capacity :: u8
  n_initiator :: bool
  n_anchor_us :: u64
  n_epoch_us :: u64
  n_interval_us :: u32
  n_counter :: u16
  n_chan_map :: u16
  n_hop_seed :: u16
  n_subrate :: u8
  n_subrate_max :: u8
  n_instant :: u16
  n_pending_ctrl :: u8
  n_pending_chan_map :: u16
  n_pending_subrate :: u8
  n_ctrl_acked :: bool
  n_tx_was_ctrl :: bool
  n_last_sync_us :: u64
  n_peer_sca_ppm :: u16
  n_rx_window_us :: u32
  n_sync_err_us :: u32
  n_last_rx_us :: u64
  n_sup_timeout_us :: u32
  n_consec_misses :: u8
  n_rssi :: int
  n_etx_q4 :: u16
  n_per_permille :: u16
  n_link_cost :: u16
  n_tx_attempts :: u32
  n_tx_acked :: u32
  n_tx_seq :: u8
  n_tx_ctr :: u32
  n_rx_ctr :: u32
  n_replay_mask :: u32
  n_link_key :: "u8 list"
  n_key_id :: "u8 list option"
  n_has_key :: bool
  n_ltk :: "u8 list"
  n_has_ltk :: bool
  n_join_step :: join_step
  n_join_next_us :: u64
  n_join_retries :: u8
  n_join_backoff_us :: u64
  n_join_spread_us :: u32
  n_nonce_local :: "u8 list"
  n_nonce_peer :: "u8 list"
  n_eph_pub_peer :: "u8 list"
  n_peer_static_pub :: "u8 list"
  n_transcript :: "u8 list"
  n_txbuf :: "u8 list"
  n_txlen :: nat
  n_tx_pending :: bool
  n_tx_needs_ack :: bool
  n_next_beacon_us :: u64
  n_track_misses :: u8
  n_is_parent :: bool
  n_route_adv_us :: u64
  n_adv_urgent_done :: bool

text \<open>\<open>memset(n, 0, sizeof(*n))\<close>.\<close>

definition neigh_zero :: neigh where
  "neigh_zero = \<lparr>n_state = LG_NS_FREE, n_addr = 0, n_role = 0, n_peer_rank = 0, n_peer_chan_map = 0,
     n_peer_links = 0, n_peer_capacity = 0, n_initiator = False, n_anchor_us = 0, n_epoch_us = 0,
     n_interval_us = 0, n_counter = 0, n_chan_map = 0, n_hop_seed = 0, n_subrate = 0,
     n_subrate_max = 0, n_instant = 0, n_pending_ctrl = 0, n_pending_chan_map = 0,
     n_pending_subrate = 0, n_ctrl_acked = False, n_tx_was_ctrl = False, n_last_sync_us = 0,
     n_peer_sca_ppm = 0, n_rx_window_us = 0, n_sync_err_us = 0, n_last_rx_us = 0,
     n_sup_timeout_us = 0, n_consec_misses = 0, n_rssi = 0, n_etx_q4 = 0, n_per_permille = 0,
     n_link_cost = 0, n_tx_attempts = 0, n_tx_acked = 0, n_tx_seq = 0, n_tx_ctr = 0, n_rx_ctr = 0,
     n_replay_mask = 0, n_link_key = replicate 16 0, n_key_id = None, n_has_key = False,
     n_ltk = replicate 16 0, n_has_ltk = False, n_join_step = LG_JOIN_IDLE, n_join_next_us = 0,
     n_join_retries = 0, n_join_backoff_us = 0, n_join_spread_us = 0,
     n_nonce_local = replicate 8 0, n_nonce_peer = replicate 8 0, n_eph_pub_peer = replicate 64 0,
     n_peer_static_pub = replicate 64 0, n_transcript = replicate 32 0,
     n_txbuf = replicate LG_PDU_MAX 0, n_txlen = 0, n_tx_pending = False, n_tx_needs_ack = False,
     n_next_beacon_us = 0, n_track_misses = 0, n_is_parent = False, n_route_adv_us = 0,
     n_adv_urgent_done = False\<rparr>"

record route =
  rt_dst :: u16
  rt_next_hop :: u16
  rt_hops :: u8
  rt_expiry_us :: u64

definition route_zero :: route where
  "route_zero = \<lparr>rt_dst = 0, rt_next_hop = 0, rt_hops = 0, rt_expiry_us = 0\<rparr>"

record gossip =
  gs_addr :: u16
  gs_rank :: u16
  gs_heard_us :: u64

definition gossip_zero :: gossip where
  "gossip_zero = \<lparr>gs_addr = 0, gs_rank = 0, gs_heard_us = 0\<rparr>"

record txmsg =
  m_used :: bool
  m_final :: u16
  m_origin :: u16
  m_flags :: u8
  m_port :: u8
  m_hops :: u8
  m_msg_id :: u16
  m_len :: nat
  m_enqueued_us :: u64
  m_payload :: "u8 list"

definition txmsg_zero :: txmsg where
  "txmsg_zero = \<lparr>m_used = False, m_final = 0, m_origin = 0, m_flags = 0, m_port = 0, m_hops = 0,
     m_msg_id = 0, m_len = 0, m_enqueued_us = 0, m_payload = replicate LG_PAYLOAD_MAX 0\<rparr>"

record chan_stat =
  cs_frames_ok :: u16
  cs_frames_bad :: u16
  cs_per_permille :: u16
  cs_noise_dbm :: int
  cs_blacklisted :: bool
  cs_probing :: bool
  cs_last_eval_us :: u64

definition chan_stat_zero :: chan_stat where
  "chan_stat_zero = \<lparr>cs_frames_ok = 0, cs_frames_bad = 0, cs_per_permille = 0, cs_noise_dbm = 0,
     cs_blacklisted = False, cs_probing = False, cs_last_eval_us = 0\<rparr>"

record event =
  ev_kind :: ev_kind
  ev_at_us :: u64
  ev_anchor_us :: u64
  ev_close_us :: u64
  ev_window_us :: u32
  ev_len_us :: u32
  ev_chan :: u8
  ev_neigh :: "nat option"
  ev_urgent :: bool

definition event_zero :: event where
  "event_zero = \<lparr>ev_kind = LG_EV_NONE, ev_at_us = 0, ev_anchor_us = 0, ev_close_us = 0,
     ev_window_us = 0, ev_len_us = 0, ev_chan = 0, ev_neigh = None, ev_urgent = False\<rparr>"

end
