(* ===== verification/LG_Ctx.thy ===== *)
theory LG_Ctx
  imports LG_State
begin

text \<open>
  The node: \<open>struct lg_stats\<close>, \<open>struct lg_tuning\<close>, the module statics, and \<open>struct lg_ctx\<close>
  itself with the environment the code reads.
\<close>

record stats =
  st_beacons_tx :: u32
  st_beacons_rx :: u32
  st_scans :: u32
  st_tracked_beacons :: u32
  st_joins_ok :: u32
  st_joins_failed :: u32
  st_link_events :: u32
  st_link_events_skipped :: u32
  st_frames_tx :: u32
  st_frames_rx :: u32
  st_crc_errors :: u32
  st_rx_timeouts :: u32
  st_auth_failures :: u32
  st_replays_dropped :: u32
  st_msgs_forwarded :: u32
  st_msgs_dropped_no_route :: u32
  st_parent_switches :: u32
  st_supervision_timeouts :: u32
  st_role_changes :: u32
  st_chan_map_updates :: u32
  st_channels_blacklisted :: u32
  st_slots_blocked :: u32

definition stats_zero :: stats where
  "stats_zero = \<lparr>st_beacons_tx = 0, st_beacons_rx = 0, st_scans = 0, st_tracked_beacons = 0,
     st_joins_ok = 0, st_joins_failed = 0, st_link_events = 0, st_link_events_skipped = 0,
     st_frames_tx = 0, st_frames_rx = 0, st_crc_errors = 0, st_rx_timeouts = 0,
     st_auth_failures = 0, st_replays_dropped = 0, st_msgs_forwarded = 0,
     st_msgs_dropped_no_route = 0, st_parent_switches = 0, st_supervision_timeouts = 0,
     st_role_changes = 0, st_chan_map_updates = 0, st_channels_blacklisted = 0,
     st_slots_blocked = 0\<rparr>"

record tuning =
  tn_conn_interval_us :: u32
  tn_subrate_max :: u8
  tn_sup_timeout_us :: u32
  tn_scan_unattached_us :: u32
  tn_scan_seeking_us :: u32
  tn_scan_attached_us :: u32
  tn_scan_window_us :: u32
  tn_beacon_interval_us :: u32
  tn_beacon_idle_factor :: u8
  tn_join_window_floor_us :: u32

definition tuning_zero :: tuning where
  "tuning_zero = \<lparr>tn_conn_interval_us = 0, tn_subrate_max = 0, tn_sup_timeout_us = 0,
     tn_scan_unattached_us = 0, tn_scan_seeking_us = 0, tn_scan_attached_us = 0,
     tn_scan_window_us = 0, tn_beacon_interval_us = 0, tn_beacon_idle_factor = 0,
     tn_join_window_floor_us = 0\<rparr>"

text \<open>A ring of \<open>lg_core.c\<close>: the slots and the free-running \<open>atomic_t\<close> indices.\<close>

record 'a ring =
  rg_buf :: "'a list"
  rg_head :: u32
  rg_tail :: u32

record rx_rec =
  rx_pdu :: "u8 list"
  rx_len :: nat
  rx_rssi :: int
  rx_chan :: u8
  rx_air_start_us :: u64

definition rx_rec_zero :: rx_rec where
  "rx_rec_zero = \<lparr>rx_pdu = replicate LG_PDU_MAX 0, rx_len = 0, rx_rssi = 0, rx_chan = 0,
     rx_air_start_us = 0\<rparr>"

abbreviation (input) LG_XFER_MAX :: nat where "LG_XFER_MAX \<equiv> 288"

record xfer =
  xf_buf :: "u8 list"
  xf_len :: nat
  xf_off :: nat
  xf_frags_seen :: u8
  xf_complete :: bool

definition xfer_zero :: xfer where
  "xfer_zero = \<lparr>xf_buf = replicate LG_XFER_MAX 0, xf_len = 0, xf_off = 0, xf_frags_seen = 0, xf_complete = False\<rparr>"

text \<open>The handshake context \<open>hs\<close> of \<open>lg_join.c\<close>.\<close>

record handshake =
  hs_n :: "nat option"
  hs_t0_us :: u64
  hs_slot :: u8
  hs_resuming :: bool
  hs_joiner :: bool
  hs_eph_priv :: "u8 list"
  hs_eph_pub :: "u8 list"
  hs_tx :: "u8 list"
  hs_tx_len :: nat
  hs_tx_type :: u8
  hs_tx_secured :: bool
  hs_frag_idx :: u8
  hs_frag_total :: u8
  hs_last_tx_air_start_us :: u64
  hs_last_tx_len :: nat
  hs_rx :: xfer
  hs_rx_type :: u8
  hs_progressed :: bool
  hs_owe_tx :: bool
  hs_slot_limit :: u8
  hs_idle_slots :: u8
  hs_was_tx :: bool
  hs_slot_refused :: bool

definition hs_zero :: handshake where
  "hs_zero = \<lparr>hs_n = None, hs_t0_us = 0, hs_slot = 0, hs_resuming = False, hs_joiner = False,
     hs_eph_priv = replicate 32 0, hs_eph_pub = replicate 64 0, hs_tx = replicate LG_XFER_MAX 0,
     hs_tx_len = 0, hs_tx_type = 0, hs_tx_secured = False, hs_frag_idx = 0, hs_frag_total = 0,
     hs_last_tx_air_start_us = 0, hs_last_tx_len = 0, hs_rx = xfer_zero, hs_rx_type = 0,
     hs_progressed = False, hs_owe_tx = False, hs_slot_limit = 0, hs_idle_slots = 0,
     hs_was_tx = False, hs_slot_refused = False\<rparr>"

text \<open>\<open>evst\<close> of \<open>lg_link.c\<close>.\<close>

record link_evst =
  es_tx_first :: bool
  es_got_rx :: bool
  es_sent_tx :: bool
  es_tx_air_end_us :: u64

text \<open>The static \<open>pw\<close> of \<open>lg_power.c\<close>; the arrays are indexed by activity.\<close>

record power =
  pw_start_us :: u64
  pw_act :: pwr_act
  pw_total_nc :: u64
  pw_rx_us :: "pwr_act \<Rightarrow> u64"
  pw_tx_us :: "pwr_act \<Rightarrow> u64"
  pw_fixed_nc :: u64
  pw_fixed_us :: u64
  pw_starts :: u32
  pw_turnarounds :: u32
  pw_radio_on_us :: u64

definition power_zero :: power where
  "power_zero = \<lparr>pw_start_us = 0, pw_act = LG_PWR_ACT_SCAN, pw_total_nc = 0, pw_rx_us = (\<lambda>_. 0),
     pw_tx_us = (\<lambda>_. 0), pw_fixed_nc = 0, pw_fixed_us = 0, pw_starts = 0, pw_turnarounds = 0,
     pw_radio_on_us = 0\<rparr>"

text \<open>The static \<open>ts\<close> of \<open>lg_ts_direct.c\<close>, without its timer channels.\<close>

record arbiter =
  ts_up :: bool
  ts_is_granted :: bool
  ts_grant_end_us :: u64
  ts_req_pending :: bool
  ts_req_refuse :: bool
  ts_req_at_us :: u64
  ts_req_len_us :: u32

definition arbiter_zero :: arbiter where
  "arbiter_zero = \<lparr>ts_up = False, ts_is_granted = False, ts_grant_end_us = 0, ts_req_pending = False,
     ts_req_refuse = False, ts_req_at_us = 0, ts_req_len_us = 0\<rparr>"

section \<open>The environment\<close>

text \<open>
  PSA crypto, as functions of the key and the data. A PSA key handle stands for the key it was
  imported from. \<open>cr_aead_enc key alg_tag nonce aad plain\<close> is the ciphertext with its tag.
\<close>

record crypto =
  cr_import_ok :: "u8 list \<Rightarrow> bool"
  cr_aead_enc :: "u8 list \<Rightarrow> nat \<Rightarrow> u8 list \<Rightarrow> u8 list \<Rightarrow> u8 list \<Rightarrow> u8 list option"
  cr_aead_dec :: "u8 list \<Rightarrow> nat \<Rightarrow> u8 list \<Rightarrow> u8 list \<Rightarrow> u8 list \<Rightarrow> u8 list option"
  cr_hash :: "u8 list \<Rightarrow> u8 list option"
  cr_hkdf :: "u8 list \<Rightarrow> u8 list \<Rightarrow> string \<Rightarrow> u8 list option"
  cr_rand :: "nat \<Rightarrow> nat \<Rightarrow> u8 list option"
  cr_keypair :: "nat \<Rightarrow> (u8 list \<times> u8 list) option"
  cr_ecdh :: "u8 list \<Rightarrow> u8 list \<Rightarrow> u8 list option"
  cr_sign :: "u8 list \<Rightarrow> u8 list \<Rightarrow> u8 list option"
  cr_verify :: "u8 list \<Rightarrow> u8 list \<Rightarrow> u8 list \<Rightarrow> bool"

text \<open>Calls into the radio driver and the arbiter, in the order they are made.\<close>

datatype radio_call =
    PhyTxAt u64 u8 "u8 list" nat
  | PhyRxWindow u64 u64 u8
  | PhyStop
  | TsTimer u64

text \<open>What the application sees.\<close>

record rx_info =
  ri_src :: u16
  ri_prev_hop :: u16
  ri_port :: u8
  ri_rssi :: int
  ri_hops :: u8

datatype app_call = AppRx rx_info "u8 list" | AppEvt evt u16

section \<open>The node\<close>

record ctx =
  c_cfg :: config
  c_cr :: crypto
  c_now :: u64
  c_rng :: "nat \<Rightarrow> u32"
  c_rng_n :: nat
  c_phy_ok :: "radio_call \<Rightarrow> bool"
  c_radio :: "radio_call list"
  c_phy_busy :: bool
  c_ts :: arbiter
  c_pw :: power
  c_app :: "app_call list"
  c_cb_rx :: bool
  c_cb_evt :: bool
  c_started :: bool
  c_network_id :: u32
  c_netid16 :: u16
  c_addr :: u16
  c_role :: role
  c_backhaul_active :: bool
  c_unrouted_seen_us :: u64
  c_role_changed_us :: u64
  c_cert :: "u8 list option"
  c_priv_key :: "u8 list option"
  c_ca_pub :: "u8 list option"
  c_net_key :: "u8 list"
  c_net_key_id :: "u8 list option"
  c_rank :: u16
  c_link_count :: u8
  c_msg_id_next :: u16
  c_neigh :: "neigh list"
  c_routes :: "route list"
  c_txq :: "txmsg list"
  c_chan :: "chan_stat list"
  c_chan_map :: u16
  c_next_beacon_us :: u64
  c_next_scan_us :: u64
  c_next_chan_eval_us :: u64
  c_beacons_heard :: u8
  c_scan_chan_idx :: u8
  c_gossip :: "gossip list"
  c_want_addr :: u16
  c_want_until_us :: u64
  c_join_win_us :: u64
  c_joiner_hint_us :: u64
  c_link_change_us :: u64
  c_adv_urgent :: bool
  c_beacon_offers_join :: bool
  c_last_join_window_us :: u64
  c_beacon_epoch :: u32
  c_beacon_planned_us :: u64
  c_ev :: event
  c_stats :: stats
  c_tune :: tuning
  c_dup_cache :: "(u16 \<times> u16) list"
  c_dup_next :: nat
  c_chan_eval_next :: u8
  c_evst :: link_evst
  c_hs :: handshake
  c_rx_ring :: "rx_rec ring"
  c_notify_ring :: "(evt \<times> u16) ring"
  c_beacon_copy :: "(u8 list \<times> nat \<times> u8) list"
  c_beacon_copy_idx :: u8
  c_finish_neigh :: "nat option"
  c_finish_kind :: ev_kind
  c_running :: bool
  c_work_sched :: bool
  c_work_finish :: bool
  c_work_rx :: bool
  c_work_notify :: bool
  c_idle_armed :: bool

text \<open>One entry of the neighbour table, and writing through a \<open>struct lg_neigh *\<close>.\<close>

abbreviation nb :: "ctx \<Rightarrow> nat \<Rightarrow> neigh" where
  "nb s i \<equiv> c_neigh s ! i"

definition upd_neigh :: "nat \<Rightarrow> (neigh \<Rightarrow> neigh) \<Rightarrow> ctx \<Rightarrow> ctx" where
  "upd_neigh i f s = s\<lparr>c_neigh := (c_neigh s)[i := f (c_neigh s ! i)]\<rparr>"

definition upd_stats :: "(stats \<Rightarrow> stats) \<Rightarrow> ctx \<Rightarrow> ctx" where
  "upd_stats f s = s\<lparr>c_stats := f (c_stats s)\<rparr>"

definition upd_hs :: "(handshake \<Rightarrow> handshake) \<Rightarrow> ctx \<Rightarrow> ctx" where
  "upd_hs f s = s\<lparr>c_hs := f (c_hs s)\<rparr>"

lemma nb_upd_neigh:
  "i < length (c_neigh s) \<Longrightarrow> nb (upd_neigh i f s) j = (if j = i then f (nb s i) else nb s j)"
  by (simp add: upd_neigh_def)

lemma length_upd_neigh [simp]: "length (c_neigh (upd_neigh i f s)) = length (c_neigh s)"
  by (simp add: upd_neigh_def)

lemma c_neigh_upd_stats [simp]: "c_neigh (upd_stats f s) = c_neigh s"
  by (simp add: upd_stats_def)

text \<open>The tables have the sizes they are declared with.\<close>

abbreviation (input) LG_CHAN_COUNT :: nat where "LG_CHAN_COUNT \<equiv> 16"
abbreviation (input) LG_GOSSIP_SIZE :: nat where "LG_GOSSIP_SIZE \<equiv> 4"
abbreviation (input) LG_DUP_CACHE_SIZE :: nat where "LG_DUP_CACHE_SIZE \<equiv> 16"

definition tables_ok :: "ctx \<Rightarrow> bool" where
  "tables_ok s \<longleftrightarrow> cfg_ok (c_cfg s) \<and>
     length (c_neigh s) = cfg_max_neighbors (c_cfg s) \<and>
     length (c_routes s) = cfg_max_routes (c_cfg s) \<and>
     length (c_txq s) = cfg_tx_queue_size (c_cfg s) \<and>
     length (c_chan s) = LG_CHAN_COUNT \<and> length (c_gossip s) = LG_GOSSIP_SIZE \<and>
     length (c_dup_cache s) = LG_DUP_CACHE_SIZE \<and> c_dup_next s < LG_DUP_CACHE_SIZE"

text \<open>The node as the loader leaves it, every static zero, in a given environment.\<close>

definition node_zero :: "config \<Rightarrow> crypto \<Rightarrow> (nat \<Rightarrow> u32) \<Rightarrow> (radio_call \<Rightarrow> bool) \<Rightarrow> ctx" where
  "node_zero cfg cr rng phy = \<lparr>c_cfg = cfg, c_cr = cr, c_now = 0, c_rng = rng, c_rng_n = 0,
     c_phy_ok = phy, c_radio = [], c_phy_busy = False,
     c_ts = arbiter_zero, c_pw = power_zero, c_app = [],
     c_cb_rx = False, c_cb_evt = False, c_started = False, c_network_id = 0, c_netid16 = 0,
     c_addr = 0, c_role = LG_ROLE_LEAF, c_backhaul_active = False, c_unrouted_seen_us = 0,
     c_role_changed_us = 0, c_cert = None, c_priv_key = None, c_ca_pub = None,
     c_net_key = replicate 16 0, c_net_key_id = None, c_rank = 0, c_link_count = 0,
     c_msg_id_next = 0, c_neigh = replicate (cfg_max_neighbors cfg) neigh_zero,
     c_routes = replicate (cfg_max_routes cfg) route_zero,
     c_txq = replicate (cfg_tx_queue_size cfg) txmsg_zero,
     c_chan = replicate LG_CHAN_COUNT chan_stat_zero, c_chan_map = 0, c_next_beacon_us = 0,
     c_next_scan_us = 0, c_next_chan_eval_us = 0, c_beacons_heard = 0, c_scan_chan_idx = 0,
     c_gossip = replicate LG_GOSSIP_SIZE gossip_zero, c_want_addr = 0, c_want_until_us = 0,
     c_join_win_us = 0, c_joiner_hint_us = 0, c_link_change_us = 0, c_adv_urgent = False,
     c_beacon_offers_join = False, c_last_join_window_us = 0, c_beacon_epoch = 0,
     c_beacon_planned_us = 0, c_ev = event_zero, c_stats = stats_zero, c_tune = tuning_zero,
     c_dup_cache = replicate LG_DUP_CACHE_SIZE (0, 0), c_dup_next = 0, c_chan_eval_next = 0,
     c_evst = \<lparr>es_tx_first = False, es_got_rx = False, es_sent_tx = False, es_tx_air_end_us = 0\<rparr>,
     c_hs = hs_zero, c_rx_ring = \<lparr>rg_buf = replicate 8 rx_rec_zero, rg_head = 0, rg_tail = 0\<rparr>,
     c_notify_ring = \<lparr>rg_buf = replicate 8 (LG_EVT_LINK_UP, 0), rg_head = 0, rg_tail = 0\<rparr>,
     c_beacon_copy = replicate 3 (replicate LG_PDU_MAX 0, 0, 0), c_beacon_copy_idx = 0,
     c_finish_neigh = None, c_finish_kind = LG_EV_NONE, c_running = False, c_work_sched = False,
     c_work_finish = False, c_work_rx = False, c_work_notify = False, c_idle_armed = False\<rparr>"

lemma tables_ok_zero: "cfg_ok cfg \<Longrightarrow> tables_ok (node_zero cfg cr rng phy)"
  by (simp add: tables_ok_def node_zero_def)

text \<open>
  A concrete environment for evaluating the model on inputs: a toy cipher whose tag is a byte
  sum, a generator that counts, and a radio that accepts every command.
\<close>

definition demo_tag :: "u8 list \<Rightarrow> nat \<Rightarrow> u8 list \<Rightarrow> u8 list \<Rightarrow> u8 list \<Rightarrow> u8 list" where
  "demo_tag key n nonce aad plain = replicate n (sum_list (key @ nonce @ aad @ plain))"

definition demo_crypto :: crypto where
  "demo_crypto = \<lparr>cr_import_ok = (\<lambda>k. True),
     cr_aead_enc = (\<lambda>key n nonce aad plain. Some (plain @ demo_tag key n nonce aad plain)),
     cr_aead_dec = (\<lambda>key n nonce aad ct.
       let plain = take (length ct - n) ct
       in if n \<le> length ct \<and> drop (length ct - n) ct = demo_tag key n nonce aad plain
          then Some plain else None),
     cr_hash = (\<lambda>d. Some (replicate 32 (sum_list d))),
     cr_hkdf = (\<lambda>secret salt info. Some (replicate 16 (sum_list (secret @ salt) + of_nat (length info)))),
     cr_rand = (\<lambda>k n. Some (replicate n (of_nat k))),
     cr_keypair = (\<lambda>k. Some (replicate 64 (of_nat k), replicate 32 (of_nat k))),
     cr_ecdh = (\<lambda>priv pub. Some (replicate 32 (priv ! 0 * pub ! 0))),
     cr_sign = (\<lambda>priv h. Some (replicate 64 (priv ! 0 + h ! 0))),
     cr_verify = (\<lambda>pub h sig. sig = replicate 64 (pub ! 0 + h ! 0))\<rparr>"

definition demo_node :: ctx where
  "demo_node = (node_zero default_cfg demo_crypto of_nat (\<lambda>_. True))\<lparr>c_cb_rx := True, c_cb_evt := True\<rparr>"

end
