(* ===== verification/LG_Ring.thy ===== *)
theory LG_Ring
  imports LG_Ctx
begin

text \<open>
  The two single-producer rings of \<open>lg_core.c\<close>: notifications for the application and received
  frames. Head and tail are free-running 32-bit counters. Both are instances of one FIFO contract.
\<close>

section \<open>The contract\<close>

datatype 'e fifo_op = Put 'e | Take

text \<open>
  A run of operations: what was taken, in order, what was accepted, in order, and the end state.
\<close>

fun fifo_run :: "('s \<Rightarrow> 'e \<Rightarrow> bool) \<Rightarrow> ('e \<Rightarrow> 's \<Rightarrow> 's) \<Rightarrow> ('s \<Rightarrow> ('e \<times> 's) option) \<Rightarrow> 'e fifo_op list \<Rightarrow> 's \<Rightarrow>
    'e list \<times> 'e list \<times> 's" where
  "fifo_run room put pop [] s = ([], [], s)"
| "fifo_run room put pop (Put e # ops) s =
     (case fifo_run room put pop ops (put e s) of (out, acc, t) \<Rightarrow> (out, if room s e then e # acc else acc, t))"
| "fifo_run room put pop (Take # ops) s =
     (case pop s of
        None \<Rightarrow> fifo_run room put pop ops s
      | Some (e, s1) \<Rightarrow> (case fifo_run room put pop ops s1 of (out, acc, t) \<Rightarrow> (e # out, acc, t)))"

locale fifo =
  fixes inv :: "'s \<Rightarrow> bool"
    and contents :: "'s \<Rightarrow> 'e list"
    and room :: "'s \<Rightarrow> 'e \<Rightarrow> bool"
    and put :: "'e \<Rightarrow> 's \<Rightarrow> 's"
    and pop :: "'s \<Rightarrow> ('e \<times> 's) option"
  assumes put_room: "inv s \<Longrightarrow> room s e \<Longrightarrow> inv (put e s) \<and> contents (put e s) = contents s @ [e]"
    and put_full: "inv s \<Longrightarrow> \<not> room s e \<Longrightarrow> put e s = s"
    and pop_None: "inv s \<Longrightarrow> pop s = None \<longleftrightarrow> contents s = []"
    and pop_Some: "inv s \<Longrightarrow> pop s = Some (e, t) \<Longrightarrow> inv t \<and> contents s = e # contents t"
begin

lemma run_in_order:
  "inv s \<Longrightarrow> fifo_run room put pop ops s = (out, acc, t) \<Longrightarrow> inv t \<and> contents s @ acc = out @ contents t"
proof (induction ops arbitrary: s out acc t)
  case Nil
  then show ?case by simp
next
  case (Cons op ops)
  show ?case
  proof (cases op)
    case (Put e)
    obtain o1 a1 t1 where r: "fifo_run room put pop ops (put e s) = (o1, a1, t1)"
      by (cases "fifo_run room put pop ops (put e s)") auto
    show ?thesis
    proof (cases "room s e")
      case True
      with Cons.IH [OF _ r] put_room [OF Cons.prems(1) True] Cons.prems(2) Put r show ?thesis by auto
    next
      case False
      with Cons.IH [OF _ r] put_full [OF Cons.prems(1) False] Cons.prems Put r show ?thesis by auto
    qed
  next
    case Take
    show ?thesis
    proof (cases "pop s")
      case None
      with Cons Take show ?thesis by auto
    next
      case (Some p)
      then obtain e s1 where p: "pop s = Some (e, s1)" by (cases p) auto
      obtain o1 a1 t1 where r: "fifo_run room put pop ops s1 = (o1, a1, t1)"
        by (cases "fifo_run room put pop ops s1") auto
      with Cons.IH [OF _ r] pop_Some [OF Cons.prems(1) p] Cons.prems(2) Take p show ?thesis by auto
    qed
  qed
qed

end

section \<open>Rings\<close>

abbreviation (input) RING_SIZE :: nat where "RING_SIZE \<equiv> 8"

definition ring_used :: "'a ring \<Rightarrow> u32" where
  "ring_used r = rg_head r - rg_tail r"

definition ring_full :: "'a ring \<Rightarrow> bool" where
  "ring_full r \<longleftrightarrow> of_nat RING_SIZE \<le> ring_used r"

definition ring_slot :: "u32 \<Rightarrow> nat" where
  "ring_slot i = unat (i mod of_nat RING_SIZE)"

lemma ring_slot_unat: "ring_slot i = unat i mod RING_SIZE"
  by (simp add: ring_slot_def unat_mod)

definition ring_put :: "('a \<Rightarrow> 'a) \<Rightarrow> 'a ring \<Rightarrow> 'a ring" where
  "ring_put f r =
    (let k = ring_slot (rg_head r)
     in r\<lparr>rg_buf := (rg_buf r)[k := f (rg_buf r ! k)], rg_head := rg_head r + 1\<rparr>)"

definition ring_peek :: "'a ring \<Rightarrow> 'a" where
  "ring_peek r = rg_buf r ! ring_slot (rg_tail r)"

definition ring_drop :: "'a ring \<Rightarrow> 'a ring" where
  "ring_drop r = r\<lparr>rg_tail := rg_tail r + 1\<rparr>"

definition ring_contents :: "'a ring \<Rightarrow> 'a list" where
  "ring_contents r = map (\<lambda>k. rg_buf r ! ring_slot (rg_tail r + of_nat k)) [0..<unat (ring_used r)]"

definition ring_ok :: "'a ring \<Rightarrow> bool" where
  "ring_ok r \<longleftrightarrow> length (rg_buf r) = RING_SIZE \<and> ring_used r \<le> of_nat RING_SIZE"

lemma ring_slot_less [simp]: "ring_slot i < RING_SIZE"
  by (simp add: ring_slot_unat)

lemma ring_slot_add: "ring_slot (i + of_nat k) = (ring_slot i + k) mod RING_SIZE"
proof -
  have "unat (i + of_nat k) mod 8 = (unat i + k) mod 8"
    by (simp add: unat_word_ariths unat_of_nat mod_simps mod_mod_cancel)
  then show ?thesis by (simp add: ring_slot_unat mod_simps)
qed

lemma ring_used_put: "\<not> ring_full r \<Longrightarrow> unat (ring_used (ring_put f r)) = Suc (unat (ring_used r))"
proof -
  assume "\<not> ring_full r"
  then have "unat (ring_used r) < 8" by (simp add: ring_full_def word_less_nat_alt not_le)
  moreover have "ring_used (ring_put f r) = ring_used r + 1" by (simp add: ring_used_def ring_put_def Let_def)
  ultimately show ?thesis by (simp add: unat_word_ariths)
qed

lemma ring_put_ok: "ring_ok r \<Longrightarrow> \<not> ring_full r \<Longrightarrow> ring_ok (ring_put f r)"
  using ring_used_put [of r f]
  by (auto simp: ring_ok_def ring_full_def word_le_nat_alt ring_put_def Let_def)

lemma mod8_shift_neq: "k < n \<Longrightarrow> n < 8 \<Longrightarrow> (a + k) mod 8 = (a + n) mod (8 :: nat) \<Longrightarrow> False"
proof -
  assume k: "k < n" "n < 8" "(a + k) mod 8 = (a + n) mod 8"
  then have "8 dvd (a + n) - (a + k)" by (subst mod_eq_dvd_iff_nat [symmetric]) simp_all
  then have "8 dvd n - k" by simp
  with k(1,2) show False by (auto dest: dvd_imp_le)
qed

lemma ring_put_contents:
  assumes "ring_ok r" "\<not> ring_full r"
  shows "ring_contents (ring_put f r) = ring_contents r @ [f (rg_buf r ! ring_slot (rg_head r))]"
proof -
  let ?n = "unat (ring_used r)"
  have n: "?n < 8" using assms(2) by (simp add: ring_full_def word_less_nat_alt not_le)
  have head: "rg_head r = rg_tail r + of_nat ?n" by (simp add: ring_used_def)
  have "ring_slot (rg_head r) \<noteq> ring_slot (rg_tail r + of_nat k)" if "k < ?n" for k
  proof
    assume "ring_slot (rg_head r) = ring_slot (rg_tail r + of_nat k)"
    then have "ring_slot (rg_tail r + of_nat k) = ring_slot (rg_head r)" by simp
    then have "(ring_slot (rg_tail r) + k) mod 8 = (ring_slot (rg_tail r) + ?n) mod 8"
      by (simp only: head ring_slot_add)
    with that n show False by (rule mod8_shift_neq)
  qed
  moreover have "rg_tail (ring_put f r) = rg_tail r" "rg_buf (ring_put f r) =
      (rg_buf r)[ring_slot (rg_head r) := f (rg_buf r ! ring_slot (rg_head r))]"
    by (simp_all add: ring_put_def Let_def)
  moreover have "rg_tail r + ring_used r = rg_head r" by (simp add: ring_used_def)
  ultimately show ?thesis
    using assms(1) by (simp add: ring_contents_def ring_used_put [OF assms(2)] ring_ok_def)
qed

lemma ring_drop_contents:
  assumes "ring_ok r" "rg_tail r \<noteq> rg_head r"
  shows "ring_ok (ring_drop r)" "ring_contents r = ring_peek r # ring_contents (ring_drop r)"
proof -
  have used: "ring_used (ring_drop r) = ring_used r - 1" by (simp add: ring_used_def ring_drop_def)
  have pos: "ring_used r \<noteq> 0" using assms(2) by (auto simp: ring_used_def)
  then obtain n where n: "unat (ring_used r) = Suc n" by (cases "unat (ring_used r)") (auto simp: unat_eq_0)
  then have n': "unat (ring_used (ring_drop r)) = n" unfolding used using pos by (simp add: unat_minus_one)
  show "ring_ok (ring_drop r)"
    using assms(1) n n' by (simp add: ring_ok_def ring_drop_def word_le_nat_alt ring_used_def)
  have "rg_buf (ring_drop r) = rg_buf r" "rg_tail (ring_drop r) + of_nat k = rg_tail r + of_nat (Suc k)" for k
    by (simp_all add: ring_drop_def)
  then show "ring_contents r = ring_peek r # ring_contents (ring_drop r)"
    by (simp add: ring_contents_def n n' upt_conv_Cons ring_peek_def map_Suc_upt [symmetric] comp_def
        del: upt_Suc of_nat_Suc)
qed

lemma ring_drop_buf [simp]: "rg_buf (ring_drop r) = rg_buf r"
  by (simp add: ring_drop_def)

lemma ring_empty: "ring_contents r = [] \<longleftrightarrow> rg_tail r = rg_head r"
  by (auto simp: ring_contents_def ring_used_def unat_eq_0)

section \<open>Notifications\<close>

definition lg_notify :: "evt \<Rightarrow> u16 \<Rightarrow> ctx \<Rightarrow> ctx" where
  "lg_notify evt peer s =
    (if ring_full (c_notify_ring s) then s
     else s\<lparr>c_notify_ring := ring_put (\<lambda>_. (evt, peer)) (c_notify_ring s), c_work_notify := True\<rparr>)"

definition notify_take :: "ctx \<Rightarrow> ((evt \<times> u16) \<times> ctx) option" where
  "notify_take s =
    (if rg_tail (c_notify_ring s) = rg_head (c_notify_ring s) then None
     else Some (ring_peek (c_notify_ring s), s\<lparr>c_notify_ring := ring_drop (c_notify_ring s)\<rparr>))"

text \<open>The loop of \<open>notify_handler\<close>, at most as often as there are records.\<close>

fun notify_loop :: "nat \<Rightarrow> ctx \<Rightarrow> ctx" where
  "notify_loop 0 s = s"
| "notify_loop (Suc n) s =
     (case notify_take s of
        None \<Rightarrow> s
      | Some ((evt, peer), s1) \<Rightarrow>
          notify_loop n (if c_cb_evt s1 then s1\<lparr>c_app := c_app s1 @ [AppEvt evt peer]\<rparr> else s1))"

definition notify_handler :: "ctx \<Rightarrow> ctx" where
  "notify_handler s =
    notify_loop (unat (ring_used (c_notify_ring s))) (s\<lparr>c_work_notify := False\<rparr>)"

interpretation notif: fifo "\<lambda>s. ring_ok (c_notify_ring s)" "\<lambda>s. ring_contents (c_notify_ring s)"
  "\<lambda>s e. \<not> ring_full (c_notify_ring s)" "\<lambda>(evt, peer). lg_notify evt peer" notify_take
  by unfold_locales
    (auto simp: lg_notify_def notify_take_def ring_put_ok ring_put_contents ring_empty ring_drop_contents
      split: if_splits)

section \<open>Received frames\<close>

definition lg_rx_post :: "u8 list \<Rightarrow> nat \<Rightarrow> int \<Rightarrow> u8 \<Rightarrow> u64 \<Rightarrow> ctx \<Rightarrow> ctx" where
  "lg_rx_post pdu len rssi chan air s =
    (if LG_PDU_MAX < len \<or> ring_full (c_rx_ring s) then s
     else s\<lparr>c_rx_ring := ring_put (\<lambda>rec. rec\<lparr>rx_pdu := blit (rx_pdu rec) 0 (take len pdu), rx_len := len,
              rx_rssi := rssi, rx_chan := chan, rx_air_start_us := air\<rparr>) (c_rx_ring s),
            c_work_rx := True\<rparr>)"

text \<open>What a record stands for: the bytes received, and where and when.\<close>

definition rx_view :: "rx_rec \<Rightarrow> u8 list \<times> int \<times> u8 \<times> u64" where
  "rx_view rec = (take (rx_len rec) (rx_pdu rec), rx_rssi rec, rx_chan rec, rx_air_start_us rec)"

definition rx_take :: "ctx \<Rightarrow> ((u8 list \<times> int \<times> u8 \<times> u64) \<times> ctx) option" where
  "rx_take s =
    (if rg_tail (c_rx_ring s) = rg_head (c_rx_ring s) then None
     else Some (rx_view (ring_peek (c_rx_ring s)), s\<lparr>c_rx_ring := ring_drop (c_rx_ring s)\<rparr>))"

definition rx_ring_ok :: "ctx \<Rightarrow> bool" where
  "rx_ring_ok s \<longleftrightarrow> ring_ok (c_rx_ring s) \<and> (\<forall>rec\<in>set (rg_buf (c_rx_ring s)). length (rx_pdu rec) = LG_PDU_MAX)"

definition post_frame :: "u8 list \<times> int \<times> u8 \<times> u64 \<Rightarrow> ctx \<Rightarrow> ctx" where
  "post_frame f s = (case f of (bs, rssi, chan, air) \<Rightarrow> lg_rx_post bs (length bs) rssi chan air s)"

definition rx_room :: "ctx \<Rightarrow> u8 list \<times> int \<times> u8 \<times> u64 \<Rightarrow> bool" where
  "rx_room s f \<longleftrightarrow> length (fst f) \<le> LG_PDU_MAX \<and> \<not> ring_full (c_rx_ring s)"

lemma post_frame_room:
  assumes "rx_ring_ok s" "rx_room s f"
  shows "rx_ring_ok (post_frame f s) \<and>
    map rx_view (ring_contents (c_rx_ring (post_frame f s))) = map rx_view (ring_contents (c_rx_ring s)) @ [f]"
proof -
  obtain bs rssi chan air where f: "f = (bs, rssi, chan, air)" by (cases f)
  let ?g = "\<lambda>rec. rec\<lparr>rx_pdu := blit (rx_pdu rec) 0 bs, rx_len := length bs,
    rx_rssi := rssi, rx_chan := chan, rx_air_start_us := air\<rparr>"
  let ?r = "c_rx_ring s"
  have r: "ring_ok ?r" "\<not> ring_full ?r" "length bs \<le> LG_PDU_MAX"
    and bufs: "\<forall>rec\<in>set (rg_buf ?r). length (rx_pdu rec) = LG_PDU_MAX"
    using assms f by (simp_all add: rx_ring_ok_def rx_room_def)
  have ring: "c_rx_ring (post_frame f s) = ring_put ?g ?r"
    using r by (simp add: post_frame_def f lg_rx_post_def)
  have at: "length (rx_pdu (rg_buf ?r ! ring_slot i)) = LG_PDU_MAX" for i
    using bufs r(1) by (simp add: ring_ok_def)
  have "rg_buf (ring_put ?g ?r) = (rg_buf ?r)[ring_slot (rg_head ?r) := ?g (rg_buf ?r ! ring_slot (rg_head ?r))]"
    by (simp add: ring_put_def Let_def)
  then have "\<forall>rec\<in>set (rg_buf (ring_put ?g ?r)). length (rx_pdu rec) = LG_PDU_MAX"
    using bufs at r(3) by (auto dest!: set_update_subset_insert [THEN subsetD])
  moreover have "rx_view (?g (rg_buf ?r ! ring_slot (rg_head ?r))) = f"
    using at r(3) by (simp add: rx_view_def f blit_def)
  ultimately show ?thesis
    using r ring by (simp add: rx_ring_ok_def ring_put_ok ring_put_contents)
qed

interpretation rxq: fifo rx_ring_ok "\<lambda>s. map rx_view (ring_contents (c_rx_ring s))" rx_room post_frame rx_take
proof unfold_locales
  fix s t e
  assume inv: "rx_ring_ok s"
  { assume "rx_room s e"
    with inv show "rx_ring_ok (post_frame e s) \<and>
      map rx_view (ring_contents (c_rx_ring (post_frame e s))) = map rx_view (ring_contents (c_rx_ring s)) @ [e]"
      by (rule post_frame_room) }
  { assume "\<not> rx_room s e"
    then show "post_frame e s = s" by (auto simp: post_frame_def lg_rx_post_def rx_room_def split: prod.splits) }
  show "rx_take s = None \<longleftrightarrow> map rx_view (ring_contents (c_rx_ring s)) = []"
    by (simp add: rx_take_def ring_empty)
  { assume "rx_take s = Some (e, t)"
    with inv show "rx_ring_ok t \<and> map rx_view (ring_contents (c_rx_ring s)) = e # map rx_view (ring_contents (c_rx_ring t))"
      using ring_drop_contents [of "c_rx_ring s"] by (auto simp: rx_take_def rx_ring_ok_def split: if_splits) }
qed

section \<open>Order of delivery\<close>

lemma length_ring_contents: "length (ring_contents r) = unat (ring_used r)"
  by (simp add: ring_contents_def)

text \<open>C19: whatever the interleaving of received frames and reads, the frames come out as they went
  in: each once, in the order of arrival, with their bytes, signal strength, channel and time; only
  a frame longer than a PDU or one that finds eight waiting is dropped, and never more than eight
  wait. The free-running indices may wrap.\<close>

theorem rx_ring_in_order:
  assumes "rx_ring_ok s" "fifo_run rx_room post_frame rx_take ops s = (out, acc, t)"
  shows "map rx_view (ring_contents (c_rx_ring s)) @ acc = out @ map rx_view (ring_contents (c_rx_ring t)) \<and>
    length (ring_contents (c_rx_ring t)) \<le> RING_SIZE \<and>
    (\<forall>f. post_frame f t = t \<or> map rx_view (ring_contents (c_rx_ring (post_frame f t))) =
       map rx_view (ring_contents (c_rx_ring t)) @ [f])"
proof -
  from rxq.run_in_order [OF assms] have t: "rx_ring_ok t"
    "map rx_view (ring_contents (c_rx_ring s)) @ acc = out @ map rx_view (ring_contents (c_rx_ring t))" by simp_all
  moreover have "length (ring_contents (c_rx_ring t)) \<le> RING_SIZE"
    using t(1) by (simp add: length_ring_contents rx_ring_ok_def ring_ok_def word_le_nat_alt)
  ultimately show ?thesis using rxq.put_room [OF t(1)] rxq.put_full [OF t(1)] by blast
qed

definition demo_rx :: ctx where
  "demo_rx = demo_node\<lparr>c_rx_ring := (c_rx_ring demo_node)\<lparr>rg_head := -1, rg_tail := -1\<rparr>\<rparr>"

theorem rx_ring_in_order_witness:
  "fst (fifo_run rx_room post_frame rx_take [Put ([1, 2], -60, 11, 5), Put ([3], -70, 12, 9), Take, Take, Take] demo_rx)
     = [([1, 2], -60, 11, 5), ([3], -70, 12, 9)] \<and>
   length (ring_contents (c_rx_ring (snd (snd (fifo_run rx_room post_frame rx_take
     [Put ([1, 2], -60, 11, 5), Put ([3], -70, 12, 9), Take, Take, Take] demo_rx))))) \<le> 8"
proof -
  let ?f = "fifo_run rx_room post_frame rx_take [Put ([1, 2], -60, 11, 5), Put ([3], -70, 12, 9), Take, Take, Take] demo_rx"
  have ok: "rx_ring_ok demo_rx" and v: "fst ?f = [([1, 2], -60, 11, 5), ([3], -70, 12, 9)]" by code_simp+
  have eq: "?f = (fst ?f, fst (snd ?f), snd (snd ?f))" by (simp only: prod.collapse)
  have "length (ring_contents (c_rx_ring (snd (snd ?f)))) \<le> 8"
    by (rule rx_ring_in_order [OF ok eq, THEN conjunct2, THEN conjunct1])
  with v show ?thesis by (rule conjI)
qed

lemma notify_take_app: "notify_take s = Some (e, t) \<Longrightarrow> c_app t = c_app s \<and> c_cb_evt t = c_cb_evt s"
  by (auto simp: notify_take_def split: if_splits)

lemma notify_loop_delivers:
  "ring_ok (c_notify_ring s) \<Longrightarrow> n = length (ring_contents (c_notify_ring s)) \<Longrightarrow>
   ring_contents (c_notify_ring (notify_loop n s)) = [] \<and>
   c_app (notify_loop n s) = c_app s @ (if c_cb_evt s then map (\<lambda>(e, p). AppEvt e p) (ring_contents (c_notify_ring s)) else [])"
proof (induction n arbitrary: s)
  case 0
  then show ?case by simp
next
  case (Suc n)
  then obtain e p t where take: "notify_take s = Some ((e, p), t)"
    using notif.pop_None [of s] by (cases "notify_take s") auto
  note pop = notif.pop_Some [OF Suc.prems(1) take] and app = notify_take_app [OF take]
  let ?t = "if c_cb_evt t then t\<lparr>c_app := c_app t @ [AppEvt e p]\<rparr> else t"
  have "ring_contents (c_notify_ring (notify_loop n ?t)) = [] \<and>
    c_app (notify_loop n ?t) = c_app ?t @ (if c_cb_evt ?t then map (\<lambda>(e, p). AppEvt e p) (ring_contents (c_notify_ring ?t)) else [])"
    using pop Suc.prems(2) by (intro Suc.IH) simp_all
  with pop app take show ?case by simp
qed

text \<open>The work item of the notifications empties the ring and calls the application once for
  each waiting event, in the order in which they were raised; posting an event to a full ring
  changes nothing, otherwise it is delivered last.\<close>

theorem notifications_delivered:
  assumes "ring_ok (c_notify_ring s)" "c_cb_evt s"
  shows "ring_contents (c_notify_ring (notify_handler s)) = [] \<and>
    c_app (notify_handler s) = c_app s @ map (\<lambda>(e, p). AppEvt e p) (ring_contents (c_notify_ring s)) \<and>
    (lg_notify evt peer s = s \<or>
      c_app (notify_handler (lg_notify evt peer s)) = c_app (notify_handler s) @ [AppEvt evt peer])"
proof -
  have del: "ring_contents (c_notify_ring (notify_handler q)) = [] \<and>
      c_app (notify_handler q) = c_app q @ map (\<lambda>(e, p). AppEvt e p) (ring_contents (c_notify_ring q))"
    if "ring_ok (c_notify_ring q)" "c_cb_evt q" for q
    using notify_loop_delivers [of "q\<lparr>c_work_notify := False\<rparr>"] that
    by (simp add: notify_handler_def length_ring_contents)
  have "c_app (notify_handler (lg_notify evt peer s)) = c_app (notify_handler s) @ [AppEvt evt peer]"
    if "\<not> ring_full (c_notify_ring s)"
  proof -
    have "ring_ok (c_notify_ring (lg_notify evt peer s))" "c_cb_evt (lg_notify evt peer s)"
      "ring_contents (c_notify_ring (lg_notify evt peer s)) = ring_contents (c_notify_ring s) @ [(evt, peer)]"
      "c_app (lg_notify evt peer s) = c_app s"
      using that assms by (simp_all add: lg_notify_def ring_put_ok ring_put_contents)
    with del del [OF assms] show ?thesis by simp
  qed
  with del [OF assms] show ?thesis by (auto simp: lg_notify_def)
qed

theorem notifications_delivered_witness:
  "c_app (notify_handler (lg_notify LG_EVT_LINK_UP 9 (lg_notify LG_EVT_PARENT_CHANGED 4 demo_node)))
     = [AppEvt LG_EVT_PARENT_CHANGED 4, AppEvt LG_EVT_LINK_UP 9] \<and>
   ring_contents (c_notify_ring (notify_handler (lg_notify LG_EVT_PARENT_CHANGED 4 demo_node))) = []"
proof -
  have "ring_ok (c_notify_ring (lg_notify LG_EVT_PARENT_CHANGED 4 demo_node))"
    "c_cb_evt (lg_notify LG_EVT_PARENT_CHANGED 4 demo_node)"
    and v: "c_app (notify_handler (lg_notify LG_EVT_LINK_UP 9 (lg_notify LG_EVT_PARENT_CHANGED 4 demo_node)))
     = [AppEvt LG_EVT_PARENT_CHANGED 4, AppEvt LG_EVT_LINK_UP 9]" by code_simp+
  from notifications_delivered [OF this(1,2)] v show ?thesis by blast
qed

end
