(* ===== verification/LG_Env.thy ===== *)
theory LG_Env
  imports LG_Ring
begin

text \<open>
  What the event handlers call: random numbers, the power accounting (\<open>lg_power.c\<close>), the radio
  arbiter of the direct backend (\<open>lg_ts_direct.c\<close>), the radio driver (a parameter that accepts or
  refuses each command), and the completion of an event (\<open>lg_sched.c\<close>).
\<close>

section \<open>Random numbers\<close>

definition sys_rand32_get :: "ctx \<Rightarrow> u32 \<times> ctx" where
  "sys_rand32_get s = (c_rng s (c_rng_n s), s\<lparr>c_rng_n := c_rng_n s + 1\<rparr>)"

section \<open>Power accounting\<close>

text \<open>\<open>PHASE_NC\<close>: microamps times microseconds, in nanocoulombs.\<close>

definition PHASE_NC :: "u64 \<Rightarrow> u64 \<Rightarrow> u64" where
  "PHASE_NC ua us = ua * us div 1000"

definition LG_NC_EVENT_START :: "pwr_config \<Rightarrow> u64" where
  "LG_NC_EVENT_START p =
    (if pc_hfxo_always_on p then PHASE_NC (pc_pre_ua p) (pc_pre_us p) + PHASE_NC (pc_start_ua p) (pc_start_us p)
     else PHASE_NC (pc_pre_ua p) (pc_pre_us p) + PHASE_NC (pc_xtal_ua p) (pc_xtal_us p) +
       PHASE_NC (pc_settle_ua p) (pc_settle_us p) + PHASE_NC (pc_start_ua p) (pc_start_us p))"

definition LG_US_EVENT_START :: "pwr_config \<Rightarrow> u64" where
  "LG_US_EVENT_START p =
    (if pc_hfxo_always_on p then pc_pre_us p + pc_start_us p
     else pc_pre_us p + pc_xtal_us p + pc_settle_us p + pc_start_us p)"

definition LG_NC_TURNAROUND :: "pwr_config \<Rightarrow> u64" where
  "LG_NC_TURNAROUND p = PHASE_NC (pc_switch_ua p) (pc_switch_us p) + PHASE_NC (pc_standby_ua p) (pc_standby_us p)"

definition LG_US_TURNAROUND :: "pwr_config \<Rightarrow> u64" where
  "LG_US_TURNAROUND p = pc_switch_us p + pc_standby_us p"

definition upd_pw :: "(power \<Rightarrow> power) \<Rightarrow> ctx \<Rightarrow> ctx" where
  "upd_pw f s = s\<lparr>c_pw := f (c_pw s)\<rparr>"

definition lg_power_init :: "ctx \<Rightarrow> ctx" where
  "lg_power_init s = upd_pw (\<lambda>_. power_zero\<lparr>pw_start_us := c_now s, pw_act := LG_PWR_ACT_LINK\<rparr>) s"

definition lg_power_activity :: "pwr_act \<Rightarrow> ctx \<Rightarrow> ctx" where
  "lg_power_activity act s = upd_pw (\<lambda>pw. pw\<lparr>pw_act := act\<rparr>) s"

definition power_event_start :: "pwr_config \<Rightarrow> power \<Rightarrow> power" where
  "power_event_start p pw = pw\<lparr>pw_starts := pw_starts pw + 1,
     pw_fixed_nc := pw_fixed_nc pw + LG_NC_EVENT_START p, pw_fixed_us := pw_fixed_us pw + LG_US_EVENT_START p,
     pw_total_nc := pw_total_nc pw + LG_NC_EVENT_START p, pw_radio_on_us := pw_radio_on_us pw + LG_US_EVENT_START p\<rparr>"

definition lg_power_event_start :: "ctx \<Rightarrow> ctx" where
  "lg_power_event_start s = upd_pw (power_event_start (cfg_pwr (c_cfg s))) s"

definition power_turnaround :: "pwr_config \<Rightarrow> power \<Rightarrow> power" where
  "power_turnaround p pw = pw\<lparr>pw_turnarounds := pw_turnarounds pw + 1,
     pw_fixed_nc := pw_fixed_nc pw + LG_NC_TURNAROUND p, pw_fixed_us := pw_fixed_us pw + LG_US_TURNAROUND p,
     pw_total_nc := pw_total_nc pw + LG_NC_TURNAROUND p, pw_radio_on_us := pw_radio_on_us pw + LG_US_TURNAROUND p\<rparr>"

definition lg_power_turnaround :: "ctx \<Rightarrow> ctx" where
  "lg_power_turnaround s = upd_pw (power_turnaround (cfg_pwr (c_cfg s))) s"

text \<open>The radio states of \<open>lg_phy.h\<close> that \<open>lg_power_charge\<close> tells apart.\<close>

datatype phy_state = LG_PHY_STATE_TX | LG_PHY_STATE_RX | LG_PHY_STATE_OTHER

definition power_charge :: "pwr_config \<Rightarrow> phy_state \<Rightarrow> u32 \<Rightarrow> power \<Rightarrow> power" where
  "power_charge p st us pw =
    (let on = (\<lambda>ua pw. pw\<lparr>pw_radio_on_us := pw_radio_on_us pw + ucast us,
                          pw_total_nc := pw_total_nc pw + PHASE_NC (ucast (ua :: u32)) (ucast us)\<rparr>)
     in case st of
          LG_PHY_STATE_TX \<Rightarrow>
            on (pc_tx_ua p) (pw\<lparr>pw_tx_us := (pw_tx_us pw)(pw_act pw := pw_tx_us pw (pw_act pw) + ucast us)\<rparr>)
        | LG_PHY_STATE_RX \<Rightarrow>
            on (pc_rx_ua p) (pw\<lparr>pw_rx_us := (pw_rx_us pw)(pw_act pw := pw_rx_us pw (pw_act pw) + ucast us)\<rparr>)
        | LG_PHY_STATE_OTHER \<Rightarrow> pw)"

definition lg_power_charge :: "phy_state \<Rightarrow> u32 \<Rightarrow> ctx \<Rightarrow> ctx" where
  "lg_power_charge st us s = upd_pw (power_charge (cfg_pwr (c_cfg s)) st us) s"

record power_report =
  pr_elapsed_us :: u64
  pr_radio_on_us :: u64
  pr_total_nc :: u64
  pr_rx_us_scan :: u64
  pr_rx_us_link :: u64
  pr_rx_us_join :: u64
  pr_rx_us_chan_eval :: u64
  pr_tx_us_beacon :: u64
  pr_tx_us_link :: u64
  pr_tx_us_join :: u64
  pr_fixed_us :: u64
  pr_fixed_nc :: u64
  pr_radio_starts :: u32
  pr_turnarounds :: u32
  pr_ramp_us :: u64
  pr_avg_na :: u64
  pr_steady_na :: u64
  pr_duty_permille :: u32

definition lg_power_report_get :: "ctx \<Rightarrow> power_report" where
  "lg_power_report_get s =
    (let pw = c_pw s;
         elapsed = c_now s - pw_start_us pw;
         sleep_nc = (if pw_radio_on_us pw < elapsed
                     then (elapsed - pw_radio_on_us pw) * pc_sleep_na (cfg_pwr (c_cfg s)) div 1000000 else 0);
         total = pw_total_nc pw + sleep_nc
     in \<lparr>pr_elapsed_us = elapsed, pr_radio_on_us = pw_radio_on_us pw, pr_total_nc = total,
         pr_rx_us_scan = pw_rx_us pw LG_PWR_ACT_SCAN, pr_rx_us_link = pw_rx_us pw LG_PWR_ACT_LINK,
         pr_rx_us_join = pw_rx_us pw LG_PWR_ACT_JOIN, pr_rx_us_chan_eval = pw_rx_us pw LG_PWR_ACT_CHAN_EVAL,
         pr_tx_us_beacon = pw_tx_us pw LG_PWR_ACT_BEACON, pr_tx_us_link = pw_tx_us pw LG_PWR_ACT_LINK,
         pr_tx_us_join = pw_tx_us pw LG_PWR_ACT_JOIN, pr_fixed_us = pw_fixed_us pw,
         pr_fixed_nc = pw_fixed_nc pw, pr_radio_starts = pw_starts pw, pr_turnarounds = pw_turnarounds pw,
         pr_ramp_us = pw_fixed_us pw,
         pr_avg_na = (if elapsed \<noteq> 0 then total * 1000000 div elapsed else 0), pr_steady_na = 0,
         pr_duty_permille = (if elapsed \<noteq> 0 then ucast (pw_radio_on_us pw * 1000 div elapsed) else 0)\<rparr>)"

definition lg_power_report_get_steady :: "ctx \<Rightarrow> power_report" where
  "lg_power_report_get_steady s =
    (let r = lg_power_report_get s; p = cfg_pwr (c_cfg s);
         one_off = PHASE_NC (pr_rx_us_scan r) (ucast (pc_rx_ua p)) + PHASE_NC (pr_rx_us_join r) (ucast (pc_rx_ua p)) +
                   PHASE_NC (pr_tx_us_join r) (ucast (pc_tx_ua p))
     in r\<lparr>pr_steady_na := (if pr_elapsed_us r \<noteq> 0 \<and> one_off < pr_total_nc r
                           then (pr_total_nc r - one_off) * 1000000 div pr_elapsed_us r else pr_avg_na r)\<rparr>)"

section \<open>The arbiter\<close>

abbreviation (input) LG_TS_MIN_LEAD_US :: u64 where "LG_TS_MIN_LEAD_US \<equiv> 5"

definition upd_ts :: "(arbiter \<Rightarrow> arbiter) \<Rightarrow> ctx \<Rightarrow> ctx" where
  "upd_ts f s = s\<lparr>c_ts := f (c_ts s)\<rparr>"

definition refuse_request :: "ctx \<Rightarrow> bool \<times> ctx" where
  "refuse_request s =
    (if cfg_ts_refuse_permille (c_cfg s) = 0 then (False, s)
     else let (r, s1) = sys_rand32_get s in (r mod 1000 < cfg_ts_refuse_permille (c_cfg s), s1))"

text \<open>Arming the compare channel may fail when the target has gone by; the driver decides.\<close>

definition lg_ts_request :: "u64 \<Rightarrow> u32 \<Rightarrow> ctx \<Rightarrow> (errno + unit) \<times> ctx" where
  "lg_ts_request at_us len_us s =
    (if at_us < c_now s + LG_TS_MIN_LEAD_US then (Inl EINVAL, s)
     else
       let (refuse, s1) = refuse_request s;
           s2 = upd_ts (\<lambda>ts. ts\<lparr>ts_req_at_us := at_us, ts_req_len_us := min len_us LG_TS_MAX_GRANT_US,
                  ts_req_pending := True, ts_req_refuse := refuse\<rparr>) s1
       in if c_phy_ok s2 (TsTimer at_us) then (Inr (), s2)
          else (Inl EINVAL, upd_ts (\<lambda>ts. ts\<lparr>ts_req_pending := False\<rparr>) s2))"

definition lg_ts_release :: "ctx \<Rightarrow> ctx" where
  "lg_ts_release s = upd_ts (\<lambda>ts. ts\<lparr>ts_is_granted := False, ts_grant_end_us := 0\<rparr>) s"

definition lg_ts_extend :: "u32 \<Rightarrow> ctx \<Rightarrow> (errno + unit) \<times> ctx" where
  "lg_ts_extend extra s =
    (let ts = c_ts s
     in if \<not> ts_is_granted ts then (Inl EBUSY, s)
        else if ucast LG_TS_MAX_GRANT_US < ts_grant_end_us ts - ts_req_at_us ts + ucast extra then (Inl EBUSY, s)
        else (Inr (), upd_ts (\<lambda>ts. ts\<lparr>ts_grant_end_us := ts_grant_end_us ts + ucast extra\<rparr>) s))"

text \<open>The timer of a request: the callback it makes, with the state it makes it in.\<close>

datatype ts_callback = TsGranted | TsFailed | TsNothing

definition grant_handler :: "ctx \<Rightarrow> ts_callback \<times> ctx" where
  "grant_handler s =
    (let ts = c_ts s
     in if \<not> ts_req_pending ts then (TsNothing, s)
        else if ts_req_refuse ts
        then (TsFailed, upd_ts (\<lambda>ts. ts\<lparr>ts_req_pending := False, ts_req_refuse := False\<rparr>) s)
        else (TsGranted, upd_ts (\<lambda>ts. ts\<lparr>ts_req_pending := False, ts_is_granted := True,
                           ts_grant_end_us := ts_req_at_us ts + ucast (ts_req_len_us ts)\<rparr>) s))"

definition lg_ts_granted :: "ctx \<Rightarrow> bool" where
  "lg_ts_granted s = ts_is_granted (c_ts s)"

definition lg_ts_grant_end_us :: "ctx \<Rightarrow> u64" where
  "lg_ts_grant_end_us s = (if ts_is_granted (c_ts s) then ts_grant_end_us (c_ts s) else 0)"

text \<open>The two timer channels are allocated or not.\<close>

definition lg_ts_init :: "bool \<Rightarrow> bool \<Rightarrow> ctx \<Rightarrow> (errno + unit) \<times> ctx" where
  "lg_ts_init grant_chan fine_chan s =
    (if \<not> grant_chan \<or> \<not> fine_chan then (Inl ENOMEM, s)
     else (Inr (), upd_ts (\<lambda>ts. ts\<lparr>ts_up := True\<rparr>) s))"

definition lg_ts_uninit :: "ctx \<Rightarrow> ctx" where
  "lg_ts_uninit s = upd_ts (\<lambda>ts. ts\<lparr>ts_up := False, ts_is_granted := False, ts_req_pending := False\<rparr>) s"

section \<open>The radio driver\<close>

datatype phy_rx_fail = LG_PHY_RX_TIMEOUT | LG_PHY_RX_CRC | LG_PHY_RX_FILTERED | LG_PHY_RX_ABORTED

text \<open>A received frame, \<open>struct lg_phy_rx\<close>.\<close>

record phy_rx =
  px_pdu :: "u8 list"
  px_len :: nat
  px_rssi :: int
  px_air_start_us :: u64
  px_air_end_us :: u64

definition phy_call :: "radio_call \<Rightarrow> ctx \<Rightarrow> bool \<times> ctx" where
  "phy_call c s = (c_phy_ok s c, s\<lparr>c_radio := c_radio s @ [c], c_phy_busy := (c_phy_busy s \<or> c_phy_ok s c)\<rparr>)"

definition lg_phy_tx_at :: "u64 \<Rightarrow> u8 \<Rightarrow> u8 list \<Rightarrow> nat \<Rightarrow> ctx \<Rightarrow> bool \<times> ctx" where
  "lg_phy_tx_at at_us chan pdu len s = phy_call (PhyTxAt at_us chan pdu len) s"

definition lg_phy_rx_window :: "u64 \<Rightarrow> u64 \<Rightarrow> u8 \<Rightarrow> ctx \<Rightarrow> bool \<times> ctx" where
  "lg_phy_rx_window open_us close_us chan s = phy_call (PhyRxWindow open_us close_us chan) s"

definition lg_phy_stop :: "ctx \<Rightarrow> ctx" where
  "lg_phy_stop s = s\<lparr>c_radio := c_radio s @ [PhyStop], c_phy_busy := False\<rparr>"

section \<open>Finishing an event\<close>

definition lg_sched_kick :: "ctx \<Rightarrow> ctx" where
  "lg_sched_kick s = (if c_running s then s\<lparr>c_work_sched := True\<rparr> else s)"

definition lg_sched_event_done :: "ctx \<Rightarrow> ctx" where
  "lg_sched_event_done s =
    (let s1 = lg_ts_release (lg_phy_stop s);
         s2 = s1\<lparr>c_finish_kind := ev_kind (c_ev s1), c_finish_neigh := ev_neigh (c_ev s1),
                 c_ev := (c_ev s1)\<lparr>ev_kind := LG_EV_NONE\<rparr>\<rparr>
     in if c_running s2 then s2\<lparr>c_work_finish := True\<rparr> else s2)"

definition lg_sched_abort :: "ev_kind \<Rightarrow> ctx \<Rightarrow> ctx" where
  "lg_sched_abort kind s =
    (if ev_kind (c_ev s) = kind \<and> kind \<noteq> LG_EV_NONE then lg_sched_event_done s else s)"

section \<open>Where the radio time went\<close>

datatype pwr_op = PwrStart | PwrTurn | PwrCharge phy_state u32 | PwrAct pwr_act

fun power_op :: "pwr_op \<Rightarrow> ctx \<Rightarrow> ctx" where
  "power_op PwrStart s = lg_power_event_start s"
| "power_op PwrTurn s = lg_power_turnaround s"
| "power_op (PwrCharge st us) s = lg_power_charge st us s"
| "power_op (PwrAct a) s = lg_power_activity a s"

definition act_sum :: "(pwr_act \<Rightarrow> u64) \<Rightarrow> u64" where
  "act_sum f = f LG_PWR_ACT_SCAN + f LG_PWR_ACT_LINK + f LG_PWR_ACT_JOIN + f LG_PWR_ACT_BEACON + f LG_PWR_ACT_CHAN_EVAL"

lemma act_sum_upd: "act_sum (f(a := f a + x)) = act_sum f + x"
  by (cases a) (simp_all add: act_sum_def)

lemma power_op_cfg [simp]: "c_cfg (power_op op s) = c_cfg s"
  by (cases op) (simp_all add: lg_power_event_start_def lg_power_turnaround_def lg_power_charge_def
      lg_power_activity_def upd_pw_def)

lemma power_charge_sums:
  "pw_radio_on_us (power_charge p st us pw) - act_sum (pw_rx_us (power_charge p st us pw)) -
     act_sum (pw_tx_us (power_charge p st us pw)) = pw_radio_on_us pw - act_sum (pw_rx_us pw) - act_sum (pw_tx_us pw)"
  "pw_fixed_us (power_charge p st us pw) = pw_fixed_us pw" "pw_fixed_nc (power_charge p st us pw) = pw_fixed_nc pw"
  by (cases st; simp add: power_charge_def act_sum_upd)+

lemma power_run:
  fixes s :: ctx and ops :: "pwr_op list"
  defines "p \<equiv> cfg_pwr (c_cfg s)" and "t \<equiv> fold power_op ops s"
  shows "pw_radio_on_us (c_pw t) - act_sum (pw_rx_us (c_pw t)) - act_sum (pw_tx_us (c_pw t)) - pw_fixed_us (c_pw t) =
      pw_radio_on_us (c_pw s) - act_sum (pw_rx_us (c_pw s)) - act_sum (pw_tx_us (c_pw s)) - pw_fixed_us (c_pw s) \<and>
    pw_fixed_us (c_pw t) = pw_fixed_us (c_pw s) +
      of_nat (count_list ops PwrStart) * LG_US_EVENT_START p + of_nat (count_list ops PwrTurn) * LG_US_TURNAROUND p \<and>
    pw_fixed_nc (c_pw t) = pw_fixed_nc (c_pw s) +
      of_nat (count_list ops PwrStart) * LG_NC_EVENT_START p + of_nat (count_list ops PwrTurn) * LG_NC_TURNAROUND p"
  unfolding p_def t_def
proof (induction ops arbitrary: s)
  case Nil
  then show ?case by simp
next
  case (Cons op ops)
  note ih = Cons.IH [of "power_op op s", unfolded power_op_cfg]
  show ?case
  proof (cases op)
    case PwrStart
    with ih show ?thesis
      by (simp add: lg_power_event_start_def upd_pw_def power_event_start_def algebra_simps)
  next
    case PwrTurn
    with ih show ?thesis
      by (simp add: lg_power_turnaround_def upd_pw_def power_turnaround_def algebra_simps)
  next
    case (PwrCharge st us)
    then have red: "c_pw (power_op op s) = power_charge (cfg_pwr (c_cfg s)) st us (c_pw s)"
      by (simp add: lg_power_charge_def upd_pw_def)
    have cnt: "count_list (op # ops) PwrStart = count_list ops PwrStart"
        "count_list (op # ops) PwrTurn = count_list ops PwrTurn"
        "fold power_op (op # ops) s = fold power_op ops (power_op op s)"
      using PwrCharge by simp_all
    show ?thesis unfolding cnt by (rule ih [unfolded red power_charge_sums])
  next
    case (PwrAct a)
    then have red: "pw_radio_on_us (c_pw (power_op op s)) = pw_radio_on_us (c_pw s)" "pw_rx_us (c_pw (power_op op s)) = pw_rx_us (c_pw s)"
        "pw_tx_us (c_pw (power_op op s)) = pw_tx_us (c_pw s)" "pw_fixed_us (c_pw (power_op op s)) = pw_fixed_us (c_pw s)"
        "pw_fixed_nc (c_pw (power_op op s)) = pw_fixed_nc (c_pw s)"
      by (simp_all add: lg_power_activity_def upd_pw_def)
    have cnt: "count_list (op # ops) PwrStart = count_list ops PwrStart"
        "count_list (op # ops) PwrTurn = count_list ops PwrTurn"
        "fold power_op (op # ops) s = fold power_op ops (power_op op s)"
      using PwrAct by simp_all
    show ?thesis unfolding cnt by (rule ih [unfolded red])
  qed
qed

text \<open>However events, turnarounds and charges are interleaved, the radio time reported is the
  fixed time of the events plus everything charged to the activities, in transmit and receive, with
  nothing lost or counted twice; and the fixed time and charge are those of exactly the events
  started and turnarounds made.\<close>

theorem power_adds_up:
  fixes ops :: "pwr_op list" and s :: ctx
  defines "t \<equiv> fold power_op ops (lg_power_init s)"
  shows "pr_radio_on_us (lg_power_report_get t) =
      pr_fixed_us (lg_power_report_get t) + act_sum (pw_rx_us (c_pw t)) + act_sum (pw_tx_us (c_pw t)) \<and>
    pr_fixed_us (lg_power_report_get t) = of_nat (count_list ops PwrStart) * LG_US_EVENT_START (cfg_pwr (c_cfg s)) +
      of_nat (count_list ops PwrTurn) * LG_US_TURNAROUND (cfg_pwr (c_cfg s)) \<and>
    pr_fixed_nc (lg_power_report_get t) = of_nat (count_list ops PwrStart) * LG_NC_EVENT_START (cfg_pwr (c_cfg s)) +
      of_nat (count_list ops PwrTurn) * LG_NC_TURNAROUND (cfg_pwr (c_cfg s))"
  using power_run [of ops "lg_power_init s"]
  by (simp add: t_def lg_power_report_get_def Let_def lg_power_init_def upd_pw_def power_zero_def act_sum_def
      algebra_simps)

section \<open>No grant outlives the ceiling\<close>

definition ts_ok :: "ctx \<Rightarrow> bool" where
  "ts_ok s \<longleftrightarrow> ts_req_len_us (c_ts s) \<le> LG_TS_MAX_GRANT_US \<and>
     (ts_is_granted (c_ts s) \<longrightarrow> ts_grant_end_us (c_ts s) - ts_req_at_us (c_ts s) \<le> ucast LG_TS_MAX_GRANT_US)"

text \<open>The next call of the arbiter.\<close>

datatype ts_op = TsOpRequest u64 u32 | TsOpFire | TsOpRelease | TsOpExtend u32

fun ts_op_step :: "ts_op \<Rightarrow> ctx \<Rightarrow> ctx" where
  "ts_op_step (TsOpRequest at_us len) s = snd (lg_ts_request at_us len s)"
| "ts_op_step TsOpFire s = snd (grant_handler s)"
| "ts_op_step TsOpRelease s = lg_ts_release s"
| "ts_op_step (TsOpExtend us) s = snd (lg_ts_extend us s)"

text \<open>The scheduler asks for radio time only when it holds none.\<close>

definition ts_op_ok :: "ts_op \<Rightarrow> ctx \<Rightarrow> bool" where
  "ts_op_ok op s \<longleftrightarrow> (case op of TsOpRequest _ _ \<Rightarrow> \<not> lg_ts_granted s | _ \<Rightarrow> True)"

lemma refuse_request_ts [simp]: "c_ts (snd (refuse_request s)) = c_ts s"
  by (simp add: refuse_request_def sys_rand32_get_def Let_def)

lemma ts_request_ok: "ts_ok s \<Longrightarrow> \<not> lg_ts_granted s \<Longrightarrow> ts_ok (snd (lg_ts_request at_us len s))"
  using refuse_request_ts [of s]
  by (cases "refuse_request s") (auto simp: ts_ok_def lg_ts_request_def Let_def upd_ts_def lg_ts_granted_def)

lemma ucast_grant_le: "l \<le> LG_TS_MAX_GRANT_US \<Longrightarrow> (ucast l :: u64) \<le> ucast LG_TS_MAX_GRANT_US"
  by (simp add: word_le_nat_alt unat_ucast_up)

lemma grant_handler_ok: "ts_ok s \<Longrightarrow> ts_ok (snd (grant_handler s))"
  using ucast_grant_le [of "ts_req_len_us (c_ts s)"]
  by (auto simp: ts_ok_def grant_handler_def Let_def upd_ts_def)

lemma ts_extend_ok: "ts_ok s \<Longrightarrow> ts_ok (snd (lg_ts_extend us s))"
proof -
  let ?ts = "c_ts s"
  have shift: "ts_grant_end_us ?ts + ucast us - ts_req_at_us ?ts = ts_grant_end_us ?ts - ts_req_at_us ?ts + ucast us"
    by simp
  let ?big = "ucast LG_TS_MAX_GRANT_US < ts_grant_end_us ?ts - ts_req_at_us ?ts + ucast us"
  assume ok: "ts_ok s"
  show ?thesis
  proof (cases "\<not> ts_is_granted ?ts \<or> ?big")
    case True
    then have "snd (lg_ts_extend us s) = s" by (auto simp: lg_ts_extend_def Let_def)
    with ok show ?thesis by simp
  next
    case False
    then have t: "c_ts (snd (lg_ts_extend us s)) = ?ts\<lparr>ts_grant_end_us := ts_grant_end_us ?ts + ucast us\<rparr>"
      by (simp add: lg_ts_extend_def Let_def upd_ts_def)
    from False have "ts_grant_end_us ?ts + ucast us - ts_req_at_us ?ts \<le> ucast LG_TS_MAX_GRANT_US"
      by (simp only: shift not_less de_Morgan_disj)
    with ok show ?thesis unfolding ts_ok_def t by simp
  qed
qed

text \<open>The direct backend keeps its promise that no grant runs longer than 100 ms: a request is
  cut to the ceiling, an extension past it is refused, and a grant ends with its release; a request
  that was refused or released is never granted.\<close>

theorem grant_bounded:
  assumes "ts_ok s" "ts_op_ok op s"
  shows "ts_ok (ts_op_step op s) \<and>
    (lg_ts_granted (ts_op_step op s) \<longrightarrow> lg_ts_granted s \<or> (op = TsOpFire \<and> ts_req_pending (c_ts s) \<and> \<not> ts_req_refuse (c_ts s))) \<and>
    (op = TsOpRelease \<longrightarrow> \<not> lg_ts_granted (ts_op_step op s)) \<and>
    (\<forall>us. fst (lg_ts_extend us s) = Inr () \<longrightarrow> lg_ts_grant_end_us (snd (lg_ts_extend us s)) = ts_grant_end_us (c_ts s) + ucast us)"
proof -
  have "ts_ok (ts_op_step op s)"
    using assms ts_request_ok grant_handler_ok ts_extend_ok
    by (cases op) (simp_all add: ts_op_ok_def ts_ok_def lg_ts_release_def upd_ts_def)
  moreover have "lg_ts_granted (ts_op_step op s) \<longrightarrow>
      lg_ts_granted s \<or> (op = TsOpFire \<and> ts_req_pending (c_ts s) \<and> \<not> ts_req_refuse (c_ts s))"
    using refuse_request_ts [of s]
    by (cases op; cases "refuse_request s")
      (auto simp: lg_ts_granted_def lg_ts_request_def grant_handler_def lg_ts_release_def lg_ts_extend_def upd_ts_def Let_def)
  moreover have "op = TsOpRelease \<longrightarrow> \<not> lg_ts_granted (ts_op_step op s)"
    by (auto simp: lg_ts_granted_def lg_ts_release_def upd_ts_def)
  moreover have "fst (lg_ts_extend us s) = Inr () \<longrightarrow>
      lg_ts_grant_end_us (snd (lg_ts_extend us s)) = ts_grant_end_us (c_ts s) + ucast us" for us
    by (simp add: lg_ts_extend_def Let_def lg_ts_grant_end_us_def upd_ts_def)
  ultimately show ?thesis by blast
qed

theorem grant_bounded_witness:
  "ts_ok (ts_op_step TsOpFire (ts_op_step (TsOpRequest 1000 250000) demo_node)) \<and>
   lg_ts_grant_end_us (ts_op_step TsOpFire (ts_op_step (TsOpRequest 1000 250000) demo_node)) = 101000"
proof -
  let ?s = "ts_op_step (TsOpRequest 1000 250000) demo_node"
  have "ts_ok ?s" "ts_op_ok TsOpFire ?s" and v: "lg_ts_grant_end_us (ts_op_step TsOpFire ?s) = 101000" by code_simp+
  from grant_bounded [OF this(1,2), THEN conjunct1] v show ?thesis by (rule conjI)
qed

end
