(* ===== verification/LG_Chan.thy ===== *)
theory LG_Chan
  imports LG_Ctx
begin

text \<open>
  Channel quality tracking, retirement and the hop sequence (\<open>lg_chan.c\<close>). The lemmas show that
  a hop always lands on a channel of the map, that the mixing step loses nothing, that the
  statistics stay in range, and that the map never shrinks below its floor.
\<close>

section \<open>The hop sequence\<close>

abbreviation (input) LG_CHAN_FIRST :: u8 where "LG_CHAN_FIRST \<equiv> 11"
abbreviation (input) LG_CHAN_LAST :: u8 where "LG_CHAN_LAST \<equiv> 26"

definition lg_chan_map_count :: "u16 \<Rightarrow> nat" where
  "lg_chan_map_count cmap = length (filter (bit cmap) [0..<LG_CHAN_COUNT])"

fun remap_loop :: "u16 \<Rightarrow> nat \<Rightarrow> nat list \<Rightarrow> nat \<Rightarrow> u8" where
  "remap_loop cmap index [] seen = LG_CHAN_FIRST"
| "remap_loop cmap index (i # is) seen =
     (if bit cmap i
      then if seen = index then LG_CHAN_FIRST + of_nat i else remap_loop cmap index is (Suc seen)
      else remap_loop cmap index is seen)"

definition lg_chan_remap :: "u16 \<Rightarrow> u16 \<Rightarrow> u8" where
  "lg_chan_remap cmap index =
    (let n = lg_chan_map_count cmap
     in if n = 0 then LG_CHAN_FIRST
        else remap_loop cmap (unat index mod n) [0..<LG_CHAN_COUNT] 0)"

definition csa_permute :: "u16 \<Rightarrow> u16" where
  "csa_permute v0 =
    (let v1 = drop_bit 1 (v0 AND 0xAAAA) OR push_bit 1 (v0 AND 0x5555);
         v2 = drop_bit 2 (v1 AND 0xCCCC) OR push_bit 2 (v1 AND 0x3333);
         v3 = drop_bit 4 (v2 AND 0xF0F0) OR push_bit 4 (v2 AND 0x0F0F)
     in drop_bit 8 v3 OR push_bit 8 v3)"

definition csa_mam :: "u16 \<Rightarrow> u16 \<Rightarrow> u16" where
  "csa_mam a b = 17 * a + b"

text \<open>\<open>x ^= x >> k\<close>.\<close>

definition xorshift :: "nat \<Rightarrow> u16 \<Rightarrow> u16" where
  "xorshift k x = x XOR drop_bit k x"

definition mix16 :: "u16 \<Rightarrow> u16" where
  "mix16 x0 =
    (let x1 = xorshift 8 x0;
         x2 = x1 * 0x2B9D;
         x3 = xorshift 7 x2;
         x4 = x3 * 0x1B2D
     in xorshift 9 x4)"

definition csa_round :: "u16 \<Rightarrow> u16 \<Rightarrow> u16" where
  "csa_round seed prn = csa_mam (csa_permute prn) seed"

definition lg_chan_hop :: "u16 \<Rightarrow> u16 \<Rightarrow> u16 \<Rightarrow> u8" where
  "lg_chan_hop cmap seed counter =
    (let prn = (csa_round seed ^^ 3) (counter XOR seed) XOR seed
     in lg_chan_remap cmap (mix16 prn))"

text \<open>The specification of the remapping: the channels of the map, in order.\<close>

definition used_chans :: "u16 \<Rightarrow> u8 list" where
  "used_chans cmap = map (\<lambda>i. LG_CHAN_FIRST + of_nat i) (filter (bit cmap) [0..<LG_CHAN_COUNT])"

lemma length_used_chans: "length (used_chans m) = lg_chan_map_count m"
  by (simp add: used_chans_def lg_chan_map_count_def)

lemma remap_loop_nth:
  "seen \<le> index \<Longrightarrow> index - seen < length (filter (bit m) is) \<Longrightarrow>
   remap_loop m index is seen = LG_CHAN_FIRST + of_nat (filter (bit m) is ! (index - seen))"
proof (induction m index "is" seen rule: remap_loop.induct)
  case (1 m index seen)
  then show ?case by simp
next
  case (2 m index i "is" seen)
  show ?case
  proof (cases "bit m i \<and> seen \<noteq> index")
    case True
    with "2.prems" have "Suc seen \<le> index" "index - Suc seen < length (filter (bit m) is)"
      by auto
    with "2.IH"(1) True show ?thesis by (simp add: nth_Cons')
  next
    case False
    with 2 show ?thesis by auto
  qed
qed

lemma chan_of_idx_inj:
  assumes "i < LG_CHAN_COUNT" "j < LG_CHAN_COUNT"
  shows "(LG_CHAN_FIRST + of_nat i :: u8) = LG_CHAN_FIRST + of_nat j \<longleftrightarrow> i = j"
proof
  assume "(LG_CHAN_FIRST + of_nat i :: u8) = LG_CHAN_FIRST + of_nat j"
  then have "unat (of_nat i :: u8) = unat (of_nat j :: u8)" by simp
  with assms show "i = j" by (simp add: unat_of_nat)
qed simp

lemma distinct_used_chans: "distinct (used_chans m)"
proof -
  have "inj_on (\<lambda>i. LG_CHAN_FIRST + of_nat i :: u8) (set (filter (bit m) [0..<LG_CHAN_COUNT]))"
    by (rule inj_onI) (metis atLeastLessThan_iff chan_of_idx_inj filter_is_subset set_upt subsetD)
  then show ?thesis by (simp only: used_chans_def distinct_map distinct_filter distinct_upt)
qed

lemma mem_used_chans:
  "c \<in> set (used_chans m) \<longleftrightarrow> (\<exists>i<LG_CHAN_COUNT. bit m i \<and> c = LG_CHAN_FIRST + of_nat i)"
  by (auto simp: used_chans_def)

text \<open>The remapping loop computes entry \<open>index mod n\<close> of the list of channels in the map, so
  consecutive indices visit every channel of the map, each once, and no other.\<close>

theorem remap_is_used_chan:
  assumes "used_chans cmap \<noteq> []"
  shows "lg_chan_remap cmap index = used_chans cmap ! (unat index mod length (used_chans cmap)) \<and>
    distinct (used_chans cmap) \<and>
    (\<forall>c \<in> set (used_chans cmap). \<exists>i < of_nat (length (used_chans cmap)). lg_chan_remap cmap i = c)"
proof -
  let ?n = "length (used_chans cmap)"
  have n: "?n = lg_chan_map_count cmap" "0 < ?n"
    using assms by (simp_all add: length_used_chans [symmetric])
  have "?n \<le> LG_CHAN_COUNT"
    unfolding used_chans_def length_map by (rule order_trans [OF length_filter_le]) simp
  have eq: "lg_chan_remap cmap i = used_chans cmap ! (unat i mod ?n)" for i
  proof -
    have lt: "unat i mod ?n < length (filter (bit cmap) [0..<LG_CHAN_COUNT])"
      using n by (simp add: lg_chan_map_count_def)
    with n show ?thesis
      by (simp add: lg_chan_remap_def remap_loop_nth used_chans_def lg_chan_map_count_def Let_def
         )
  qed
  have "\<exists>i < of_nat ?n. lg_chan_remap cmap i = c" if "c \<in> set (used_chans cmap)" for c
  proof -
    from that obtain k where k: "k < ?n" "used_chans cmap ! k = c"
      by (auto simp: in_set_conv_nth)
    with \<open>?n \<le> LG_CHAN_COUNT\<close> have "unat (of_nat k :: u16) = k" "unat (of_nat ?n :: u16) = ?n"
      by (simp_all add: unat_of_nat)
    with k have "(of_nat k :: u16) < of_nat ?n" "lg_chan_remap cmap (of_nat k) = c"
      by (simp_all add: word_less_nat_alt eq)
    then show ?thesis by blast
  qed
  with eq distinct_used_chans show ?thesis by blast
qed

theorem remap_is_used_chan_witness:
  "lg_chan_remap 0xC210 6 = used_chans 0xC210 ! (6 mod length (used_chans 0xC210))"
proof -
  have "used_chans 0xC210 \<noteq> []" by code_simp
  from remap_is_used_chan [OF this, of 6] show ?thesis by simp
qed

section \<open>The mixing steps lose nothing\<close>

lemma csa_permute_bit:
  assumes "i < 16"
  shows "bit (csa_permute v) i = bit v (15 - i)"
proof -
  have "\<forall>i\<in>{0, 1, 2, 3, 4, 5, 6, 7, 8, 9, 10, 11, 12, 13, 14, 15}. bit (csa_permute v) i = bit v (15 - i)"
    by (simp add: csa_permute_def Let_def bit_simps bit_double_iff mult.commute [of _ "2 :: u16"]
        flip: numeral_2_eq_2)
  moreover have "i \<in> {0, 1, 2, 3, 4, 5, 6, 7, 8, 9, 10, 11, 12, 13, 14, 15}"
    using assms by (simp only: insert_iff empty_iff) presburger
  ultimately show ?thesis by blast
qed

text \<open>The permutation of the hop sequence reverses all sixteen bits of its word (the
  Bluetooth algorithm it is named after reverses each byte separately), and so undoes itself.\<close>

theorem csa_permute_reverses:
  "(\<forall>i<16. bit (csa_permute v) i = bit v (15 - i)) \<and> csa_permute (csa_permute v) = v"
proof -
  have "csa_permute (csa_permute v) = v"
    by (rule bit_word_eqI) (simp add: csa_permute_bit)
  then show ?thesis by (simp add: csa_permute_bit)
qed

theorem csa_permute_reverses_witness: "bit (csa_permute 0x8001) 15 = bit (0x8001 :: u16) 0"
  using csa_permute_reverses [of "0x8001"] by simp

text \<open>The inverse of \<open>mix16\<close>: the xor-shifts undone, and the odd multipliers' inverses
  modulo \<open>2 ^ 16\<close>.\<close>

definition unmix16 :: "u16 \<Rightarrow> u16" where
  "unmix16 y0 =
    (let y1 = xorshift 9 y0;
         y2 = y1 * 0xeca5;
         y3 = xorshift 7 (xorshift 14 y2);
         y4 = y3 * 0xb2b5
     in xorshift 8 y4)"

lemma bit_xorshift: "bit (xorshift k x) i \<longleftrightarrow> bit x i \<noteq> bit x (k + i)"
  by (simp add: xorshift_def bit_simps)

lemma xorshift_undo: "8 \<le> k \<Longrightarrow> xorshift k (xorshift k x) = x"
  by (rule bit_word_eqI) (auto simp: bit_xorshift dest: bit_imp_le_length)

lemma xorshift_undo7: "xorshift 7 (xorshift 14 (xorshift 7 x)) = x"
  by (rule bit_word_eqI) (auto simp: bit_xorshift dest: bit_imp_le_length)

text \<open>The avalanche step is a bijection of the sixteen-bit words, so it merges no two events
  before the reduction to a channel.\<close>

theorem mix16_bijective: "unmix16 (mix16 x) = x \<and> bij mix16"
proof -
  have inverses: "y * 0x1B2D * 0xeca5 = y" "y * 0x2B9D * 0xb2b5 = y" for y :: u16
  proof -
    have "(0x1B2D * 0xeca5 :: u16) = 1" "(0x2B9D * 0xb2b5 :: u16) = 1" by simp_all
    then show "y * 0x1B2D * 0xeca5 = y" "y * 0x2B9D * 0xb2b5 = y"
      by (simp_all only: mult.assoc mult_1_right)
  qed
  have undo: "unmix16 (mix16 x) = x" for x
    unfolding unmix16_def mix16_def Let_def xorshift_undo7 inverses
    by (simp only: xorshift_undo [of 9, simplified] xorshift_undo [of 8, simplified] inverses xorshift_undo7)
  then have "inj mix16" by (metis injI)
  moreover from this have "surj mix16"
    by (rule finite_UNIV_inj_surj [OF finite])
  ultimately show ?thesis using undo by (simp add: bij_def)
qed



section \<open>Channel statistics\<close>

abbreviation (input) LG_CHAN_MIN_SAMPLES :: nat where "LG_CHAN_MIN_SAMPLES \<equiv> 12"
abbreviation (input) LG_CHAN_DECAY_AT :: nat where "LG_CHAN_DECAY_AT \<equiv> 64"

definition LG_CHAN_PREFERRED_MASK :: u16 where
  "LG_CHAN_PREFERRED_MASK = BIT (15 - 11) OR BIT (20 - 11) OR BIT (25 - 11) OR BIT (26 - 11)"

text \<open>\<open>lg_ewma\<close> (\<open>lg_internal.h\<close>): C division truncates towards zero.\<close>

definition lg_ewma :: "int \<Rightarrow> int \<Rightarrow> bool \<Rightarrow> int" where
  "lg_ewma old new_sample seeded = (if seeded then (old * 7 + new_sample) sdiv 8 else new_sample)"

definition lg_chan_init :: "ctx \<Rightarrow> ctx" where
  "lg_chan_init s = s\<lparr>
     c_chan := map (\<lambda>cs. cs\<lparr>cs_noise_dbm := INT8_MIN, cs_per_permille := 0, cs_blacklisted := False,
                      cs_frames_ok := 0, cs_frames_bad := 0\<rparr>) (c_chan s),
     c_chan_map := 0xFFFF,
     c_next_chan_eval_us := c_now s + cfg_chan_eval_period_ms (c_cfg s) * 1000\<rparr>"

definition chan_stat_result :: "bool \<Rightarrow> chan_stat \<Rightarrow> chan_stat" where
  "chan_stat_result ok cs =
    (let cs1 = (if ok then cs\<lparr>cs_frames_ok := cs_frames_ok cs + 1\<rparr>
                else cs\<lparr>cs_frames_bad := cs_frames_bad cs + 1\<rparr>);
         cs2 = (if LG_CHAN_DECAY_AT \<le> unat (cs_frames_ok cs1) + unat (cs_frames_bad cs1)
                then cs1\<lparr>cs_frames_ok := cs_frames_ok cs1 div 2, cs_frames_bad := cs_frames_bad cs1 div 2\<rparr>
                else cs1);
         total = unat (cs_frames_ok cs2) + unat (cs_frames_bad cs2)
     in if total \<noteq> 0
        then cs2\<lparr>cs_per_permille := of_nat (unat (cs_frames_bad cs2) * 1000 div total)\<rparr>
        else cs2)"

definition lg_chan_result :: "u8 \<Rightarrow> bool \<Rightarrow> ctx \<Rightarrow> ctx" where
  "lg_chan_result chan ok s =
    (if chan < LG_CHAN_FIRST \<or> LG_CHAN_LAST < chan then s
     else let k = unat (chan - LG_CHAN_FIRST)
          in s\<lparr>c_chan := (c_chan s)[k := chan_stat_result ok (c_chan s ! k)]\<rparr>)"

definition lg_chan_noise :: "u8 \<Rightarrow> int \<Rightarrow> ctx \<Rightarrow> ctx" where
  "lg_chan_noise chan dbm s =
    (if chan < LG_CHAN_FIRST \<or> LG_CHAN_LAST < chan \<or> dbm = INT8_MIN then s
     else let k = unat (chan - LG_CHAN_FIRST); cs = c_chan s ! k
          in s\<lparr>c_chan := (c_chan s)[k := cs\<lparr>
                 cs_noise_dbm := (if cs_noise_dbm cs = INT8_MIN then dbm
                                  else to_s8 (lg_ewma (cs_noise_dbm cs) dbm True)),
                 cs_last_eval_us := c_now s\<rparr>]\<rparr>)"

definition lg_chan_next_eval :: "ctx \<Rightarrow> u8 \<times> ctx" where
  "lg_chan_next_eval s =
    (LG_CHAN_FIRST + c_chan_eval_next s mod 16, s\<lparr>c_chan_eval_next := c_chan_eval_next s + 1\<rparr>)"

text \<open>What every operation keeps of one channel's record.\<close>

definition chan_stat_ok :: "chan_stat \<Rightarrow> bool" where
  "chan_stat_ok cs \<longleftrightarrow> unat (cs_frames_ok cs) + unat (cs_frames_bad cs) < LG_CHAN_DECAY_AT \<and>
     cs_per_permille cs \<le> 1000 \<and> INT8_MIN \<le> cs_noise_dbm cs \<and> cs_noise_dbm cs < 128"

definition chans_ok :: "ctx \<Rightarrow> bool" where
  "chans_ok s \<longleftrightarrow> length (c_chan s) = LG_CHAN_COUNT \<and> (\<forall>cs\<in>set (c_chan s). chan_stat_ok cs)"

lemma permille_le: "t \<noteq> 0 \<Longrightarrow> bad \<le> t \<Longrightarrow> (of_nat (bad * 1000 div t) :: u16) \<le> 1000"
proof -
  assume "t \<noteq> 0" "bad \<le> t"
  then have "bad * 1000 div t \<le> 1000"
    by (metis div_le_mono mult.commute mult_le_mono2 nonzero_mult_div_cancel_left)
  then show ?thesis by (simp add: word_le_nat_alt unat_of_nat)
qed

lemma permille_Suc_le: "bad \<le> t \<Longrightarrow> (of_nat ((1000 + bad * 1000) div Suc t) :: u16) \<le> 1000"
  using permille_le [of "Suc t" "Suc bad"] by simp

lemma chan_stat_result_ok: "chan_stat_ok cs \<Longrightarrow> chan_stat_ok (chan_stat_result ok cs)"
  by (auto simp: chan_stat_ok_def chan_stat_result_def Let_def unat_word_ariths unat_div
      intro!: permille_le permille_Suc_le)

lemma chan_update_ok: "chans_ok s \<Longrightarrow> chan_stat_ok cs \<Longrightarrow> chans_ok (s\<lparr>c_chan := (c_chan s)[k := cs]\<rparr>)"
  by (auto simp: chans_ok_def dest: set_update_subset_insert [THEN subsetD])

lemma chans_ok_nth: "chans_ok s \<Longrightarrow> k < LG_CHAN_COUNT \<Longrightarrow> chan_stat_ok (c_chan s ! k)"
  by (simp add: chans_ok_def)

lemma chan_index_bound: "\<not> (chan < LG_CHAN_FIRST \<or> LG_CHAN_LAST < chan) \<Longrightarrow> unat (chan - LG_CHAN_FIRST) < LG_CHAN_COUNT"
  by (auto simp: word_less_nat_alt unat_sub word_le_nat_alt not_less)

lemma lg_chan_result_ok: "chans_ok s \<Longrightarrow> chans_ok (lg_chan_result chan ok s)"
  using chan_index_bound [of chan]
  by (auto simp: lg_chan_result_def Let_def intro!: chan_update_ok chan_stat_result_ok chans_ok_nth)

lemma ewma_s8_bounds:
  assumes "INT8_MIN \<le> a" "a < 128" "INT8_MIN \<le> b" "b < 128"
  shows "INT8_MIN \<le> lg_ewma a b True" "lg_ewma a b True < 128"
proof -
  have "-1024 \<le> a * 7 + b" "a * 7 + b < 1024" using assms by (simp_all add: INT8_MIN_def)
  then show "INT8_MIN \<le> lg_ewma a b True" "lg_ewma a b True < 128"
    by (auto simp: lg_ewma_def INT8_MIN_def signed_divide_int_def sgn_if)
qed

lemma lg_chan_noise_ok:
  assumes "chans_ok s" "INT8_MIN \<le> dbm" "dbm < 128"
  shows "chans_ok (lg_chan_noise chan dbm s)"
proof (cases "chan < LG_CHAN_FIRST \<or> LG_CHAN_LAST < chan \<or> dbm = INT8_MIN")
  case True
  with assms(1) show ?thesis by (simp add: lg_chan_noise_def)
next
  case False
  let ?k = "unat (chan - LG_CHAN_FIRST)"
  have cs: "chan_stat_ok (c_chan s ! ?k)"
    using False chan_index_bound chans_ok_nth [OF assms(1)] by blast
  then have "INT8_MIN \<le> lg_ewma (cs_noise_dbm (c_chan s ! ?k)) dbm True"
    "lg_ewma (cs_noise_dbm (c_chan s ! ?k)) dbm True < 128"
    using ewma_s8_bounds assms(2,3) by (auto simp: chan_stat_ok_def)
  then have new: "chan_stat_ok ((c_chan s ! ?k)\<lparr>cs_noise_dbm := (if cs_noise_dbm (c_chan s ! ?k) = INT8_MIN
      then dbm else to_s8 (lg_ewma (cs_noise_dbm (c_chan s ! ?k)) dbm True)), cs_last_eval_us := c_now s\<rparr>)"
    using cs assms(2,3) by (simp add: to_s8_id INT8_MIN_def chan_stat_ok_def)
  from False chan_update_ok [OF assms(1) new] show ?thesis
    by (simp only: lg_chan_noise_def Let_def if_False)
qed

text \<open>Whatever frames and noise readings arrive, on whatever channel, every channel keeps
  fewer than 64 samples (old evidence decays), an error rate of at most 1000 per mille and a noise
  figure that is an \<open>int8_t\<close>; and a result changes no other channel.\<close>

theorem chan_stats_in_range:
  assumes "chans_ok s" "INT8_MIN \<le> dbm" "dbm < 128"
  shows "chans_ok (lg_chan_result chan ok s) \<and> chans_ok (lg_chan_noise chan' dbm s) \<and>
    (\<forall>k<LG_CHAN_COUNT. k \<noteq> unat (chan - LG_CHAN_FIRST) \<longrightarrow> c_chan (lg_chan_result chan ok s) ! k = c_chan s ! k)"
  using assms lg_chan_result_ok lg_chan_noise_ok by (simp add: lg_chan_result_def Let_def)

theorem chan_stats_in_range_witness:
  "chans_ok (lg_chan_result 15 False demo_node) \<and> chans_ok (lg_chan_noise 20 (-80) demo_node)"
proof -
  have "chans_ok demo_node" by code_simp
  from chan_stats_in_range [OF this, of "-80" 15 False 20] show ?thesis by (simp add: INT8_MIN_def)
qed

section \<open>Retiring and recovering channels\<close>

definition can_retire :: "ctx \<Rightarrow> bool" where
  "can_retire s \<longleftrightarrow> unat (cfg_chan_min_good (c_cfg s)) < lg_chan_map_count (c_chan_map s)"

definition chan_noisy :: "config \<Rightarrow> chan_stat \<Rightarrow> bool" where
  "chan_noisy cfg cs \<longleftrightarrow> cs_noise_dbm cs \<noteq> INT8_MIN \<and> cfg_chan_noise_floor_dbm cfg < cs_noise_dbm cs"

definition chan_errored :: "config \<Rightarrow> chan_stat \<Rightarrow> bool" where
  "chan_errored cfg cs \<longleftrightarrow> LG_CHAN_MIN_SAMPLES \<le> unat (cs_frames_ok cs) + unat (cs_frames_bad cs) \<and>
     cfg_chan_bad_per_permille cfg \<le> cs_per_permille cs"

definition chan_clean :: "config \<Rightarrow> chan_stat \<Rightarrow> bool" where
  "chan_clean cfg cs \<longleftrightarrow> unat (cs_frames_ok cs) + unat (cs_frames_bad cs) < LG_CHAN_MIN_SAMPLES \<or>
     cs_per_permille cs \<le> cfg_chan_good_per_permille cfg"

definition chan_reeval_step :: "ctx \<Rightarrow> nat \<Rightarrow> ctx" where
  "chan_reeval_step s i =
    (let cs = c_chan s ! i
     in if bit (c_chan_map s) i
        then if (chan_errored (c_cfg s) cs \<or> chan_noisy (c_cfg s) cs) \<and> can_retire s
             then upd_stats (\<lambda>st. st\<lparr>st_channels_blacklisted := st_channels_blacklisted st + 1\<rparr>)
               (s\<lparr>c_chan_map := c_chan_map s AND NOT (BIT i),
                  c_chan := (c_chan s)[i := cs\<lparr>cs_blacklisted := True, cs_probing := False\<rparr>]\<rparr>)
             else s
        else if \<not> chan_noisy (c_cfg s) cs \<and> (cs_noise_dbm cs \<noteq> INT8_MIN \<or> cs_probing cs)
        then if chan_clean (c_cfg s) cs
             then s\<lparr>c_chan_map := c_chan_map s OR BIT i,
                    c_chan := (c_chan s)[i := cs\<lparr>cs_blacklisted := False, cs_probing := False,
                      cs_frames_ok := 0, cs_frames_bad := 0, cs_per_permille := 0\<rparr>]\<rparr>
             else s\<lparr>c_chan := (c_chan s)[i := cs\<lparr>cs_probing := True, cs_frames_ok := 0, cs_frames_bad := 0\<rparr>]\<rparr>
        else s)"

definition chan_reeval_loop :: "ctx \<Rightarrow> ctx" where
  "chan_reeval_loop s = foldl chan_reeval_step s [0..<LG_CHAN_COUNT]"

definition lg_chan_reevaluate :: "ctx \<Rightarrow> bool \<times> ctx" where
  "lg_chan_reevaluate s =
    (let s1 = chan_reeval_loop s;
         s2 = (if lg_chan_map_count (c_chan_map s1) < unat (cfg_chan_min_good (c_cfg s1))
               then s1\<lparr>c_chan_map := LG_CHAN_PREFERRED_MASK\<rparr> else s1)
     in if c_chan_map s2 \<noteq> c_chan_map s
        then (True, upd_stats (\<lambda>st. st\<lparr>st_chan_map_updates := st_chan_map_updates st + 1\<rparr>) s2)
        else (False, s2))"

lemma map_count_card: "lg_chan_map_count m = card {i. i < LG_CHAN_COUNT \<and> bit m i}"
proof -
  have "lg_chan_map_count m = card (set (filter (bit m) [0..<LG_CHAN_COUNT]))"
    unfolding lg_chan_map_count_def by (rule distinct_card [symmetric]) simp
  also have "set (filter (bit m) [0..<LG_CHAN_COUNT]) = {i. i < LG_CHAN_COUNT \<and> bit m i}" by auto
  finally show ?thesis .
qed

lemma map_count_clear:
  assumes "i < LG_CHAN_COUNT" "bit m i"
  shows "lg_chan_map_count m = Suc (lg_chan_map_count (m AND NOT (BIT i)))"
proof -
  have "{j. j < LG_CHAN_COUNT \<and> bit m j} = insert i {j. j < LG_CHAN_COUNT \<and> bit (m AND NOT (BIT i)) j}"
    using assms by (auto simp: bit_clear)
  then show ?thesis by (simp add: map_count_card bit_clear)
qed

lemma map_count_put: "i < LG_CHAN_COUNT \<Longrightarrow> lg_chan_map_count m \<le> lg_chan_map_count (m OR BIT i)"
  unfolding map_count_card by (rule card_mono) (auto simp: bit_put)

text \<open>One step changes only its own channel and bit, and never takes the map below the floor.\<close>

lemma reeval_step_frame:
  "j \<noteq> i \<Longrightarrow> bit (c_chan_map (chan_reeval_step s i)) j = bit (c_chan_map s) j" if "i < LG_CHAN_COUNT"
  using that by (auto simp: chan_reeval_step_def Let_def upd_stats_def bit_clear bit_put)

lemma reeval_step_chan:
  "j \<noteq> i \<Longrightarrow> c_chan (chan_reeval_step s i) ! j = c_chan s ! j"
  by (auto simp: chan_reeval_step_def Let_def upd_stats_def)

lemma reeval_step_cfg [frame_simps]: "c_cfg (chan_reeval_step s i) = c_cfg s"
  by (auto simp: chan_reeval_step_def Let_def upd_stats_def)

lemma reeval_step_own:
  assumes "i < LG_CHAN_COUNT"
  shows "bit (c_chan_map s) i \<Longrightarrow> \<not> bit (c_chan_map (chan_reeval_step s i)) i \<Longrightarrow>
      chan_errored (c_cfg s) (c_chan s ! i) \<or> chan_noisy (c_cfg s) (c_chan s ! i)"
    and "\<not> bit (c_chan_map s) i \<Longrightarrow> bit (c_chan_map (chan_reeval_step s i)) i \<Longrightarrow>
      \<not> chan_noisy (c_cfg s) (c_chan s ! i) \<and> chan_clean (c_cfg s) (c_chan s ! i)"
  using assms by (auto simp: chan_reeval_step_def Let_def upd_stats_def bit_clear bit_put split: if_splits)

lemma reeval_step_floor:
  assumes "i < LG_CHAN_COUNT"
    and "unat (cfg_chan_min_good (c_cfg s)) \<le> lg_chan_map_count (c_chan_map s)"
  shows "unat (cfg_chan_min_good (c_cfg s)) \<le> lg_chan_map_count (c_chan_map (chan_reeval_step s i))"
  using assms map_count_clear [of i "c_chan_map s"] map_count_put [of i "c_chan_map s"]
  by (auto simp: chan_reeval_step_def Let_def upd_stats_def can_retire_def)

text \<open>What the first \<open>n\<close> rounds of the loop have made of \<open>s\<close>.\<close>

definition reeval_upto :: "ctx \<Rightarrow> nat \<Rightarrow> ctx \<Rightarrow> bool" where
  "reeval_upto s n t \<longleftrightarrow> c_cfg t = c_cfg s \<and>
     (\<forall>j\<ge>n. bit (c_chan_map t) j = bit (c_chan_map s) j \<and> c_chan t ! j = c_chan s ! j) \<and>
     (unat (cfg_chan_min_good (c_cfg s)) \<le> lg_chan_map_count (c_chan_map s) \<longrightarrow>
      unat (cfg_chan_min_good (c_cfg s)) \<le> lg_chan_map_count (c_chan_map t)) \<and>
     (\<forall>j. bit (c_chan_map s) j \<and> \<not> bit (c_chan_map t) j \<longrightarrow>
      chan_errored (c_cfg s) (c_chan s ! j) \<or> chan_noisy (c_cfg s) (c_chan s ! j)) \<and>
     (\<forall>j. \<not> bit (c_chan_map s) j \<and> bit (c_chan_map t) j \<longrightarrow>
      \<not> chan_noisy (c_cfg s) (c_chan s ! j) \<and> chan_clean (c_cfg s) (c_chan s ! j))"

lemma reeval_upto_step:
  assumes u: "reeval_upto s n u" and n: "n < LG_CHAN_COUNT"
  shows "reeval_upto s (Suc n) (chan_reeval_step u n)"
proof -
  let ?t = "chan_reeval_step u n"
  have cfg: "c_cfg u = c_cfg s" and own: "bit (c_chan_map u) n = bit (c_chan_map s) n" "c_chan u ! n = c_chan s ! n"
    using u by (auto simp: reeval_upto_def)
  note other = reeval_step_frame [OF n, of _ u]
  have "c_cfg ?t = c_cfg s" by (simp add: frame_simps cfg)
  moreover have "\<forall>j\<ge>Suc n. bit (c_chan_map ?t) j = bit (c_chan_map s) j \<and> c_chan ?t ! j = c_chan s ! j"
    using u by (simp add: other reeval_step_chan reeval_upto_def)
  moreover have "unat (cfg_chan_min_good (c_cfg s)) \<le> lg_chan_map_count (c_chan_map s) \<longrightarrow>
      unat (cfg_chan_min_good (c_cfg s)) \<le> lg_chan_map_count (c_chan_map ?t)"
    using u reeval_step_floor [OF n, of u] cfg by (simp add: reeval_upto_def)
  moreover have "chan_errored (c_cfg s) (c_chan s ! j) \<or> chan_noisy (c_cfg s) (c_chan s ! j)"
    if "bit (c_chan_map s) j" "\<not> bit (c_chan_map ?t) j" for j
    using that u reeval_step_own(1) [OF n, of u] own cfg other [of j]
    by (cases "j = n") (auto simp: reeval_upto_def)
  moreover have "\<not> chan_noisy (c_cfg s) (c_chan s ! j) \<and> chan_clean (c_cfg s) (c_chan s ! j)"
    if "\<not> bit (c_chan_map s) j" "bit (c_chan_map ?t) j" for j
    using that u reeval_step_own(2) [OF n, of u] own cfg other [of j]
    by (cases "j = n") (auto simp: reeval_upto_def)
  ultimately show ?thesis unfolding reeval_upto_def by blast
qed

lemma reeval_fold: "n \<le> LG_CHAN_COUNT \<Longrightarrow> reeval_upto s n (foldl chan_reeval_step s [0..<n])"
proof (induction n)
  case 0
  then show ?case by (simp add: reeval_upto_def)
next
  case (Suc n)
  then have "n < LG_CHAN_COUNT" by simp
  with Suc reeval_upto_step show ?case by simp
qed

text \<open>A map that starts at or above \<open>CHAN_MIN_GOOD\<close> channels never falls below it, so the
  fallback to the Wi-Fi gaps is never taken from such a map; and a channel leaves the map only for
  errors or noise, and returns only when quiet and clean.\<close>

theorem reevaluate_keeps_floor:
  assumes floor: "unat (cfg_chan_min_good (c_cfg s)) \<le> lg_chan_map_count (c_chan_map s)"
  defines "t \<equiv> snd (lg_chan_reevaluate s)"
  shows "unat (cfg_chan_min_good (c_cfg t)) \<le> lg_chan_map_count (c_chan_map t) \<and>
    c_chan_map t = c_chan_map (chan_reeval_loop s) \<and>
    (\<forall>j. bit (c_chan_map s) j \<and> \<not> bit (c_chan_map t) j \<longrightarrow>
      chan_errored (c_cfg s) (c_chan s ! j) \<or> chan_noisy (c_cfg s) (c_chan s ! j)) \<and>
    (\<forall>j. \<not> bit (c_chan_map s) j \<and> bit (c_chan_map t) j \<longrightarrow>
      \<not> chan_noisy (c_cfg s) (c_chan s ! j) \<and> chan_clean (c_cfg s) (c_chan s ! j))"
proof -
  have fold: "reeval_upto s LG_CHAN_COUNT (chan_reeval_loop s)"
    unfolding chan_reeval_loop_def by (rule reeval_fold) simp
  have t: "c_chan_map t = c_chan_map (chan_reeval_loop s)" "c_cfg t = c_cfg s"
    using fold floor by (auto simp: t_def lg_chan_reevaluate_def Let_def upd_stats_def reeval_upto_def)
  show ?thesis unfolding t using fold floor unfolding reeval_upto_def by blast
qed

text \<open>Channel 3 is noisy, and the four channels left in the map keep it from being retired.\<close>

definition demo_noisy :: ctx where
  "demo_noisy = demo_node\<lparr>c_chan_map := 0x1B,
     c_chan := (c_chan demo_node)[0 := (chan_stat_zero)\<lparr>cs_noise_dbm := -60\<rparr>,
                                   3 := (chan_stat_zero)\<lparr>cs_noise_dbm := -60\<rparr>]\<rparr>"

theorem reevaluate_keeps_floor_witness:
  "4 \<le> lg_chan_map_count (c_chan_map (snd (lg_chan_reevaluate (demo_noisy\<lparr>c_chan_map := 0x3B\<rparr>)))) \<and>
   c_chan_map (snd (lg_chan_reevaluate (demo_noisy\<lparr>c_chan_map := 0x3B\<rparr>))) \<noteq> 0x3B"
proof -
  have f: "unat (cfg_chan_min_good (c_cfg (demo_noisy\<lparr>c_chan_map := 0x3B\<rparr>))) \<le>
      lg_chan_map_count (c_chan_map (demo_noisy\<lparr>c_chan_map := 0x3B\<rparr>))"
    and g: "unat (cfg_chan_min_good (c_cfg (snd (lg_chan_reevaluate (demo_noisy\<lparr>c_chan_map := 0x3B\<rparr>))))) = 4"
    and h: "c_chan_map (snd (lg_chan_reevaluate (demo_noisy\<lparr>c_chan_map := 0x3B\<rparr>))) \<noteq> 0x3B"
    by code_simp+
  from reevaluate_keeps_floor [OF f] have "unat (cfg_chan_min_good (c_cfg (snd (lg_chan_reevaluate (demo_noisy\<lparr>c_chan_map := 0x3B\<rparr>))))) \<le>
      lg_chan_map_count (c_chan_map (snd (lg_chan_reevaluate (demo_noisy\<lparr>c_chan_map := 0x3B\<rparr>))))"
    by (rule conjunct1)
  with g h show ?thesis by (simp only:) simp
qed

end
