(* ===== verification/LG_Sec.thy ===== *)
theory LG_Sec
  imports LG_Ctx
begin

text \<open>
  Frame protection, the replay filter, beacon authentication, certificates and link keys
  (\<open>lg_sec.c\<close>). The PSA primitives are the functions of the record \<open>crypto\<close>; what the code relies
  on about them is the hypothesis \<open>aead_ok\<close>.
\<close>

abbreviation (input) LG_CCM_NONCE_LEN :: nat where "LG_CCM_NONCE_LEN \<equiv> 13"
abbreviation (input) LG_KEY_LEN :: nat where "LG_KEY_LEN \<equiv> 16"
abbreviation (input) LG_HASH_LEN :: nat where "LG_HASH_LEN \<equiv> 32"
abbreviation (input) LG_SIG_LEN :: nat where "LG_SIG_LEN \<equiv> 64"
abbreviation (input) LG_EC_PUB_LEN :: nat where "LG_EC_PUB_LEN \<equiv> 64"
abbreviation (input) LG_EC_PRIV_LEN :: nat where "LG_EC_PRIV_LEN \<equiv> 32"
abbreviation (input) LG_CERT_BODY_LEN :: nat where "LG_CERT_BODY_LEN \<equiv> 76"
abbreviation (input) LG_CERT_LEN :: nat where "LG_CERT_LEN \<equiv> 140"
abbreviation (input) LG_CERT_OFF_ADDR :: nat where "LG_CERT_OFF_ADDR \<equiv> 0"
abbreviation (input) LG_CERT_OFF_ROLE :: nat where "LG_CERT_OFF_ROLE \<equiv> 2"
abbreviation (input) LG_CERT_OFF_PUB :: nat where "LG_CERT_OFF_PUB \<equiv> 12"
abbreviation (input) LG_CERT_OFF_SIG :: nat where "LG_CERT_OFF_SIG \<equiv> LG_CERT_BODY_LEN"

section \<open>Keys and nonces\<close>

definition import_aes_key :: "ctx \<Rightarrow> u8 list \<Rightarrow> u8 list option" where
  "import_aes_key s key = (if cr_import_ok (c_cr s) key then Some key else None)"

definition nonce_build :: "u16 \<Rightarrow> u32 \<Rightarrow> u8 list" where
  "nonce_build src ctr = lg_put_le32 ((lg_put_le16 (replicate LG_CCM_NONCE_LEN 0) 0 src)[2 := 1]) 3 ctr"

text \<open>\<open>lg_sec_init\<close>, with \<open>psa_crypto_init\<close> succeeding or not as \<open>psa_ok\<close>.\<close>

definition lg_sec_init :: "bool \<Rightarrow> ctx \<Rightarrow> (errno + unit) \<times> ctx" where
  "lg_sec_init psa_ok s =
    (if \<not> psa_ok then (Inl EIO, s)
     else let id = import_aes_key s (c_net_key s)
          in (if id = None then Inl EIO else Inr (), s\<lparr>c_net_key_id := id\<rparr>))"

definition lg_sec_rand :: "nat \<Rightarrow> ctx \<Rightarrow> (errno + u8 list) \<times> ctx" where
  "lg_sec_rand n s =
    (case cr_rand (c_cr s) (c_rng_n s) n of
       None \<Rightarrow> (Inl EIO, s)
     | Some bs \<Rightarrow> (Inr bs, s\<lparr>c_rng_n := c_rng_n s + 1\<rparr>))"

text \<open>A key handle of 0 names no key: PSA refuses it.\<close>

definition psa_aead_encrypt :: "ctx \<Rightarrow> u8 list option \<Rightarrow> nat \<Rightarrow> u8 list \<Rightarrow> u8 list \<Rightarrow> u8 list \<Rightarrow> u8 list option" where
  "psa_aead_encrypt s key_id tag nonce aad plain =
    (case key_id of None \<Rightarrow> None | Some k \<Rightarrow> cr_aead_enc (c_cr s) k tag nonce aad plain)"

definition psa_aead_decrypt :: "ctx \<Rightarrow> u8 list option \<Rightarrow> nat \<Rightarrow> u8 list \<Rightarrow> u8 list \<Rightarrow> u8 list \<Rightarrow> u8 list option" where
  "psa_aead_decrypt s key_id tag nonce aad ct =
    (case key_id of None \<Rightarrow> None | Some k \<Rightarrow> cr_aead_dec (c_cr s) k tag nonce aad ct)"

section \<open>Frames\<close>

definition lg_sec_encrypt :: "nat \<Rightarrow> u8 list \<Rightarrow> nat \<Rightarrow> nat \<Rightarrow> ctx \<Rightarrow> (errno + nat) \<times> u8 list \<times> ctx" where
  "lg_sec_encrypt i pdu hdr_len len s =
    (if \<not> n_has_key (nb s i) then (Inl ENOKEY, pdu, s)
     else if len < hdr_len then (Inl EINVAL, pdu, s)
     else
       let body_len = len - hdr_len;
           ctr = n_tx_ctr (nb s i) + 1;
           s1 = upd_neigh i (\<lambda>n. n\<lparr>n_tx_ctr := ctr\<rparr>) s;
           pdu1 = lg_put_le32 pdu LG_OFF_FCTR ctr;
           nonce = nonce_build (c_addr s) ctr
       in if LG_PDU_MAX < hdr_len + body_len + cfg_mic_len (c_cfg s) then (Inl EMSGSIZE, pdu1, s1)
          else case psa_aead_encrypt s (n_key_id (nb s i)) (cfg_mic_len (c_cfg s)) nonce
                      (take hdr_len pdu1) (take body_len (drop hdr_len pdu1)) of
                 None \<Rightarrow> (Inl EIO, pdu1, s1)
               | Some out \<Rightarrow> (Inr (hdr_len + length out), blit pdu1 hdr_len out, s1))"

definition replay_check :: "nat \<Rightarrow> u32 \<Rightarrow> ctx \<Rightarrow> bool \<times> ctx" where
  "replay_check i ctr s =
    (let n = nb s i
     in if ctr = 0 then (False, s)
        else if n_rx_ctr n < ctr then
          let shift = ctr - n_rx_ctr n;
              mask = (if 32 \<le> shift then 0 else push_bit (unat shift) (n_replay_mask n))
          in (True, upd_neigh i (\<lambda>n. n\<lparr>n_replay_mask := mask OR 1, n_rx_ctr := ctr\<rparr>) s)
        else
          let behind = n_rx_ctr n - ctr
          in if min (cfg_replay_window (c_cfg s)) 32 \<le> behind then (False, s)
             else if n_replay_mask n AND BIT (unat behind) \<noteq> 0 then (False, s)
             else (True, upd_neigh i (\<lambda>n. n\<lparr>n_replay_mask := n_replay_mask n OR BIT (unat behind)\<rparr>) s))"

definition lg_sec_decrypt :: "nat \<Rightarrow> u8 list \<Rightarrow> nat \<Rightarrow> ctx \<Rightarrow> (errno + nat) \<times> u8 list \<times> ctx" where
  "lg_sec_decrypt i pdu len s =
    (if \<not> n_has_key (nb s i) then (Inl ENOKEY, pdu, s)
     else if len < LG_HDR_LEN_SEC + cfg_mic_len (c_cfg s) then (Inl EINVAL, pdu, s)
     else
       let ctr = lg_get_le32 pdu LG_OFF_FCTR;
           body_len = len - LG_HDR_LEN_SEC;
           nonce = nonce_build (lg_get_le16 pdu LG_OFF_SRC) ctr
       in case psa_aead_decrypt s (n_key_id (nb s i)) (cfg_mic_len (c_cfg s)) nonce
                 (take LG_HDR_LEN_SEC pdu) (take body_len (drop LG_HDR_LEN_SEC pdu)) of
            None \<Rightarrow> (Inl EBADMSG, pdu, upd_stats (\<lambda>st. st\<lparr>st_auth_failures := st_auth_failures st + 1\<rparr>) s)
          | Some out \<Rightarrow>
              (case replay_check i ctr s of
                 (False, s1) \<Rightarrow>
                   (Inl EALREADY, pdu, upd_stats (\<lambda>st. st\<lparr>st_replays_dropped := st_replays_dropped st + 1\<rparr>) s1)
               | (True, s1) \<Rightarrow> (Inr (LG_HDR_LEN_SEC + length out), blit pdu LG_HDR_LEN_SEC out, s1)))"

section \<open>Beacons\<close>

definition beacon_mac :: "ctx \<Rightarrow> u8 list \<Rightarrow> (errno + u8 list)" where
  "beacon_mac s data =
    (case psa_aead_encrypt s (c_net_key_id s) LG_BEACON_MIC_LEN
            ((replicate LG_CCM_NONCE_LEN 0)[0 := 66]) data [] of
       None \<Rightarrow> Inl EIO
     | Some out \<Rightarrow> if length out < LG_BEACON_MIC_LEN then Inl EIO else Inr (take LG_BEACON_MIC_LEN out))"

definition lg_sec_beacon_seal :: "ctx \<Rightarrow> u8 list \<Rightarrow> nat \<Rightarrow> (errno + nat) \<times> u8 list" where
  "lg_sec_beacon_seal s pdu len =
    (if LG_PDU_MAX < len + LG_BEACON_MIC_LEN then (Inl EMSGSIZE, pdu)
     else case beacon_mac s (take len pdu) of
            Inl e \<Rightarrow> (Inl e, pdu)
          | Inr mic \<Rightarrow> (Inr (len + LG_BEACON_MIC_LEN), blit pdu len mic))"

definition lg_sec_beacon_open :: "ctx \<Rightarrow> u8 list \<Rightarrow> nat \<Rightarrow> errno + nat" where
  "lg_sec_beacon_open s pdu len =
    (if len \<le> LG_BEACON_MIC_LEN then Inl EINVAL
     else let body_len = len - LG_BEACON_MIC_LEN
          in case beacon_mac s (take body_len pdu) of
               Inl e \<Rightarrow> Inl e
             | Inr expect \<Rightarrow> if expect \<noteq> take LG_BEACON_MIC_LEN (drop body_len pdu) then Inl EBADMSG
                             else Inr body_len)"

section \<open>Hashing, signatures, certificates, keys\<close>

definition lg_sec_hash :: "ctx \<Rightarrow> u8 list list \<Rightarrow> errno + u8 list" where
  "lg_sec_hash s parts = (case cr_hash (c_cr s) (concat parts) of None \<Rightarrow> Inl EIO | Some h \<Rightarrow> Inr h)"

definition lg_sec_kdf :: "ctx \<Rightarrow> u8 list \<Rightarrow> u8 list \<Rightarrow> string \<Rightarrow> errno + u8 list" where
  "lg_sec_kdf s secret salt info =
    (case cr_hkdf (c_cr s) secret salt info of None \<Rightarrow> Inl EIO | Some k \<Rightarrow> Inr k)"

definition lg_sec_ecdh_keypair :: "ctx \<Rightarrow> (errno + u8 list \<times> u8 list) \<times> ctx" where
  "lg_sec_ecdh_keypair s =
    (case cr_keypair (c_cr s) (c_rng_n s) of
       None \<Rightarrow> (Inl EIO, s)
     | Some (pub, priv) \<Rightarrow> (Inr (pub, priv), s\<lparr>c_rng_n := c_rng_n s + 1\<rparr>))"

definition lg_sec_ecdh :: "ctx \<Rightarrow> u8 list \<Rightarrow> u8 list \<Rightarrow> errno + u8 list" where
  "lg_sec_ecdh s priv peer_pub =
    (case cr_ecdh (c_cr s) priv peer_pub of None \<Rightarrow> Inl EIO | Some z \<Rightarrow> Inr z)"

definition lg_sec_sign :: "ctx \<Rightarrow> u8 list \<Rightarrow> errno + u8 list" where
  "lg_sec_sign s h =
    (case c_priv_key s of
       None \<Rightarrow> Inl ENOKEY
     | Some priv \<Rightarrow>
         if length priv \<noteq> LG_EC_PRIV_LEN then Inl ENOKEY
         else case cr_sign (c_cr s) priv h of
                None \<Rightarrow> Inl EIO
              | Some sig \<Rightarrow> if length sig = LG_SIG_LEN then Inr sig else Inl EIO)"

definition lg_sec_verify :: "ctx \<Rightarrow> u8 list \<Rightarrow> u8 list \<Rightarrow> u8 list \<Rightarrow> errno + unit" where
  "lg_sec_verify s pub h sig = (if cr_verify (c_cr s) pub h sig then Inr () else Inl EBADMSG)"

definition lg_sec_cert_verify :: "ctx \<Rightarrow> u8 list \<Rightarrow> errno + (u16 \<times> u8 \<times> u8 list)" where
  "lg_sec_cert_verify s cert =
    (if length cert \<noteq> LG_CERT_LEN then Inl EINVAL
     else case c_ca_pub s of
       None \<Rightarrow> Inl ENOKEY
     | Some ca \<Rightarrow>
         if length ca \<noteq> LG_EC_PUB_LEN then Inl ENOKEY
         else case lg_sec_hash s [take LG_CERT_BODY_LEN cert] of
           Inl e \<Rightarrow> Inl e
         | Inr h \<Rightarrow>
             (case lg_sec_verify s ca h (take LG_SIG_LEN (drop LG_CERT_OFF_SIG cert)) of
                Inl _ \<Rightarrow> Inl EBADMSG
              | Inr _ \<Rightarrow>
                  let addr = lg_get_le16 cert LG_CERT_OFF_ADDR
                  in if addr = LG_ADDR_INVALID \<or> addr = LG_ADDR_BROADCAST \<or> addr = LG_ADDR_BACKHAUL
                     then Inl EINVAL
                     else Inr (addr, cert ! LG_CERT_OFF_ROLE,
                               take LG_EC_PUB_LEN (drop LG_CERT_OFF_PUB cert))))"

definition lg_sec_install_key :: "nat \<Rightarrow> u8 list \<Rightarrow> ctx \<Rightarrow> (errno + unit) \<times> ctx" where
  "lg_sec_install_key i key s =
    (let s1 = upd_neigh i (\<lambda>n. n\<lparr>n_key_id := None, n_link_key := key\<rparr>) s
     in case import_aes_key s key of
          None \<Rightarrow> (Inl EIO, upd_neigh i (\<lambda>n. n\<lparr>n_has_key := False\<rparr>) s1)
        | Some k \<Rightarrow> (Inr (), upd_neigh i (\<lambda>n. n\<lparr>n_key_id := Some k, n_has_key := True, n_tx_ctr := 0,
                                n_rx_ctr := 0, n_replay_mask := 0\<rparr>) s1))"

definition lg_sec_forget_key :: "nat \<Rightarrow> ctx \<Rightarrow> ctx" where
  "lg_sec_forget_key i s =
    upd_neigh i (\<lambda>n. n\<lparr>n_key_id := None, n_has_key := False, n_link_key := replicate LG_KEY_LEN 0\<rparr>) s"

section \<open>The replay filter\<close>

text \<open>
  The contract of a replay filter: it accepts no value of the set it represents, adds what it
  accepts to that set, and forgets nothing on a refusal.
\<close>

fun accept_run :: "('c \<Rightarrow> 's \<Rightarrow> bool \<times> 's) \<Rightarrow> 'c list \<Rightarrow> 's \<Rightarrow> 'c list \<times> 's" where
  "accept_run f [] s = ([], s)"
| "accept_run f (c # cs) s =
     (let (ok, s1) = f c s; (acc, s2) = accept_run f cs s1
      in (if ok then c # acc else acc, s2))"

locale replay_filter =
  fixes check :: "'c \<Rightarrow> 's \<Rightarrow> bool \<times> 's"
    and rep :: "'s \<Rightarrow> 'c set \<Rightarrow> bool"
  assumes accepts_new: "rep s S \<Longrightarrow> check c s = (True, t) \<Longrightarrow> c \<notin> S \<and> rep t (insert c S)"
    and refuses: "rep s S \<Longrightarrow> check c s = (False, t) \<Longrightarrow> rep t S"
begin

lemma run_accepts_once:
  "rep s S \<Longrightarrow> accept_run check cs s = (acc, t) \<Longrightarrow>
   distinct acc \<and> set acc \<inter> S = {} \<and> set acc \<subseteq> set cs \<and> rep t (S \<union> set acc)"
proof (induction cs arbitrary: s S acc t)
  case Nil
  then show ?case by simp
next
  case (Cons c cs)
  obtain ok s1 where 1: "check c s = (ok, s1)" by (cases "check c s")
  obtain acc1 t1 where 2: "accept_run check cs s1 = (acc1, t1)" by (cases "accept_run check cs s1")
  show ?case
  proof (cases ok)
    case True
    with accepts_new Cons.prems(1) 1 have "c \<notin> S" "rep s1 (insert c S)" by auto
    with Cons.IH [OF this(2) 2] Cons.prems(2) 1 2 True show ?thesis by auto
  next
    case False
    with refuses Cons.prems(1) 1 have "rep s1 S" by auto
    with Cons.IH [OF this 2] Cons.prems(2) 1 2 False show ?thesis by auto
  qed
qed

end

text \<open>The code's window represents a set: below the highest counter, by the mask.\<close>

definition replay_rep :: "nat \<Rightarrow> ctx \<Rightarrow> u32 set \<Rightarrow> bool" where
  "replay_rep i s S \<longleftrightarrow> i < length (c_neigh s) \<and>
     (\<forall>c\<in>S. c \<noteq> 0 \<and> c \<le> n_rx_ctr (nb s i)) \<and>
     (\<forall>c. c \<le> n_rx_ctr (nb s i) \<and> unat (n_rx_ctr (nb s i) - c) < 32 \<longrightarrow>
        bit (n_replay_mask (nb s i)) (unat (n_rx_ctr (nb s i) - c)) = (c \<in> S))"

lemma replay_shift_bit:
  fixes m :: u32
  assumes "0 < sh" "sh + d < 32"
  shows "bit ((if 32 \<le> sh then 0 else push_bit sh m) OR 1) (sh + d) = bit m d"
  using assms by (simp add: bit_or_iff bit_push_bit_iff bit_1_iff)

lemma replay_ahead:
  assumes rep: "replay_rep i s S" and ahead: "n_rx_ctr (nb s i) < ctr"
  shows "ctr \<notin> S \<and> (\<exists>t. replay_check i ctr s = (True, t) \<and> replay_rep i t (insert ctr S))"
proof -
  let ?rx = "n_rx_ctr (nb s i)" and ?mask = "n_replay_mask (nb s i)"
  let ?sh = "unat ctr - unat ?rx"
  let ?new = "(if 32 \<le> ?sh then 0 else push_bit ?sh ?mask) OR 1"
  have i: "i < length (c_neigh s)" and S: "\<And>c. c \<in> S \<Longrightarrow> c \<noteq> 0 \<and> c \<le> ?rx"
    and bits: "\<And>c. c \<le> ?rx \<Longrightarrow> unat ?rx - unat c < 32 \<Longrightarrow> bit ?mask (unat ?rx - unat c) = (c \<in> S)"
    using rep by (auto simp: replay_rep_def unat_sub)
  have sh: "unat (ctr - ?rx) = ?sh" using ahead by (simp add: unat_sub order_less_imp_le)
  have pos: "ctr \<noteq> 0" using ahead by auto
  have shpos: "0 < ?sh" using ahead by (simp add: word_less_nat_alt)
  have notin: "ctr \<notin> S" using S ahead by (auto simp: not_le [symmetric])
  let ?t = "upd_neigh i (\<lambda>n. n\<lparr>n_replay_mask := ?new, n_rx_ctr := ctr\<rparr>) s"
  have step: "replay_check i ctr s = (True, ?t)"
    using ahead pos by (simp add: replay_check_def Let_def sh word_nat)
  have "bit ?new (unat ctr - unat c) = (c \<in> insert ctr S)" if c: "c \<le> ctr" "unat ctr - unat c < 32" for c
  proof (cases "c = ctr")
    case True
    then show ?thesis by (simp add: bit_simps)
  next
    case False
    from this c(1) have "c < ctr" by (rule order.not_eq_order_implies_strict)
    then have lt: "unat c < unat ctr" by (simp only: word_less_nat_alt)
    show ?thesis
    proof (cases "c \<le> ?rx")
      case True
      then have "unat ctr - unat c = ?sh + (unat ?rx - unat c)" "unat ?rx - unat c < 32" "?sh < 32"
        using ahead c(2) by (simp_all add: word_le_nat_alt word_less_nat_alt)
      with c(2) shpos bits [OF True] have "bit ?new (unat ctr - unat c) = (c \<in> S)"
        by (simp only: replay_shift_bit)
      with False show ?thesis by simp
    next
      case outside: False
      with S have "c \<notin> S" by blast
      moreover have "unat ctr - unat c < ?sh" "0 < unat ctr - unat c"
        using outside lt ahead by (auto simp: word_less_nat_alt not_le)
      moreover note outside
      ultimately have "c \<notin> S" "unat ctr - unat c < ?sh" "0 < unat ctr - unat c" by simp_all
      with False show ?thesis by (simp add: bit_or_iff bit_push_bit_iff bit_1_iff)
    qed
  qed
  note new = this
  have bits': "\<forall>c. c \<le> ctr \<and> unat (ctr - c) < 32 \<longrightarrow> bit ?new (unat (ctr - c)) = (c \<in> insert ctr S)"
  proof (intro allI impI)
    fix c
    assume c: "c \<le> ctr \<and> unat (ctr - c) < 32"
    then have eq: "unat (ctr - c) = unat ctr - unat c" by (simp only: unat_sub)
    with c new [of c] show "bit ?new (unat (ctr - c)) = (c \<in> insert ctr S)" by (simp only: eq)
  qed
  have t: "n_rx_ctr (nb ?t i) = ctr" "n_replay_mask (nb ?t i) = ?new" "i < length (c_neigh ?t)"
    using i by (simp_all add: nb_upd_neigh)
  have "c \<noteq> 0 \<and> c \<le> ctr" if "c \<in> insert ctr S" for c
    using that S [of c] pos ahead by auto
  with bits' have "replay_rep i ?t (insert ctr S)"
    unfolding replay_rep_def t(1,2) using t(3) by blast
  with step notin show ?thesis by blast
qed

lemma replay_behind:
  assumes rep: "replay_rep i s S" and behind: "\<not> n_rx_ctr (nb s i) < ctr" and pos: "ctr \<noteq> 0"
  shows "(n_rx_ctr (nb s i) - ctr < min (cfg_replay_window (c_cfg s)) 32 \<and> ctr \<notin> S \<longrightarrow>
      (\<exists>t. replay_check i ctr s = (True, t) \<and> replay_rep i t (insert ctr S))) \<and>
    (\<not> (n_rx_ctr (nb s i) - ctr < min (cfg_replay_window (c_cfg s)) 32 \<and> ctr \<notin> S) \<longrightarrow>
      replay_check i ctr s = (False, s))"
proof -
  let ?rx = "n_rx_ctr (nb s i)" and ?mask = "n_replay_mask (nb s i)"
  have i: "i < length (c_neigh s)" and le: "ctr \<le> ?rx"
    using rep behind by (auto simp: replay_rep_def)
  have bits: "bit ?mask (unat (?rx - c)) = (c \<in> S)" if "c \<le> ?rx" "unat (?rx - c) < 32" for c
    using rep that by (simp add: replay_rep_def)
  show ?thesis
  proof (cases "?rx - ctr < min (cfg_replay_window (c_cfg s)) 32")
    case False
    then have "min (cfg_replay_window (c_cfg s)) 32 \<le> ?rx - ctr" by (simp only: not_less)
    with behind pos have "replay_check i ctr s = (False, s)"
      by (simp only: replay_check_def Let_def if_True if_False)
    with False show ?thesis by blast
  next
    case True
    then have "?rx - ctr < 32" by simp
    then have d: "unat (?rx - ctr) < 32" by (simp add: word_less_nat_alt)
    have seen: "?mask AND BIT (unat (?rx - ctr)) \<noteq> 0 \<longleftrightarrow> ctr \<in> S"
      using d bits [OF le d] by (simp add: and_BIT_zero_iff)
    let ?t = "upd_neigh i (\<lambda>n. n\<lparr>n_replay_mask := ?mask OR BIT (unat (?rx - ctr))\<rparr>) s"
    have t: "upd_neigh i (\<lambda>n. n\<lparr>n_replay_mask := n_replay_mask n OR BIT (unat (?rx - ctr))\<rparr>) s = ?t"
      by (simp add: upd_neigh_def)
    have "bit (?mask OR BIT (unat (?rx - ctr))) (unat (?rx - c)) = (c \<in> insert ctr S)"
      if "c \<le> ?rx" "unat (?rx - c) < 32" for c
      using that bits [OF that] d by (auto simp: bit_put simp flip: word_unat_eq_iff)
    then have "replay_rep i ?t (insert ctr S)"
      using i le pos rep by (auto simp: replay_rep_def nb_upd_neigh)
    moreover have "\<not> min (cfg_replay_window (c_cfg s)) 32 \<le> ?rx - ctr" using True by (simp only: not_le)
    with behind pos have "replay_check i ctr s = (if ctr \<in> S then (False, s) else (True, ?t))"
      by (simp only: replay_check_def Let_def if_True if_False seen t)
    ultimately show ?thesis using True by simp
  qed
qed

interpretation rp: replay_filter "replay_check i" "replay_rep i" for i
proof unfold_locales
  fix s t :: ctx and S c
  assume rep: "replay_rep i s S"
  { assume "replay_check i c s = (True, t)"
    then show "c \<notin> S \<and> replay_rep i t (insert c S)"
      using replay_ahead [OF rep, of c] replay_behind [OF rep, of c]
      by (cases "c = 0"; cases "n_rx_ctr (nb s i) < c") (auto simp: replay_check_def split: if_splits) }
  { assume "replay_check i c s = (False, t)"
    then show "replay_rep i t S"
      using replay_ahead [OF rep, of c] replay_behind [OF rep, of c] rep
      by (cases "c = 0"; cases "n_rx_ctr (nb s i) < c") (auto simp: replay_check_def split: if_splits) }
qed

lemma replay_rep_fresh:
  assumes "i < length (c_neigh s)" "n_rx_ctr (nb s i) = 0" "n_replay_mask (nb s i) = 0"
  shows "replay_rep i s {}"
  using assms by (simp add: replay_rep_def)

text \<open>Between deliveries the window describes: what is accepted is decided by the set alone.\<close>

lemma replay_exact:
  assumes "replay_rep i s S"
  shows "fst (replay_check i ctr s) \<longleftrightarrow> ctr \<noteq> 0 \<and> ctr \<notin> S \<and>
    (n_rx_ctr (nb s i) < ctr \<or> n_rx_ctr (nb s i) - ctr < min (cfg_replay_window (c_cfg s)) 32)"
proof (cases "ctr = 0")
  case True
  then show ?thesis by (simp add: replay_check_def)
next
  case False
  then show ?thesis
    using replay_ahead [OF assms, of ctr] replay_behind [OF assms _ False]
    by (cases "n_rx_ctr (nb s i) < ctr") fastforce+
qed

text \<open>C1: from a freshly installed key, over any sequence of received counters, no counter is
  accepted twice and none is accepted that was not received; and at any point a nonzero counter not
  accepted before is refused only when it is at least the window behind the highest one accepted.\<close>

theorem replay_never_twice:
  assumes "i < length (c_neigh s)" "n_rx_ctr (nb s i) = 0" "n_replay_mask (nb s i) = 0"
    and run: "accept_run (replay_check i) ctrs s = (acc, t)"
  shows "distinct acc \<and> set acc \<subseteq> set ctrs \<and> 0 \<notin> set acc \<and>
    (\<forall>ctr. fst (replay_check i ctr t) \<longleftrightarrow> ctr \<noteq> 0 \<and> ctr \<notin> set acc \<and>
      (n_rx_ctr (nb t i) < ctr \<or> n_rx_ctr (nb t i) - ctr < min (cfg_replay_window (c_cfg t)) 32))"
proof -
  have r: "distinct acc" "set acc \<subseteq> set ctrs" "replay_rep i t (set acc)"
    using rp.run_accepts_once [OF replay_rep_fresh [OF assms(1-3)] run] by simp_all
  moreover have "0 \<notin> set acc" using r(3) by (auto simp: replay_rep_def)
  ultimately show ?thesis using replay_exact [OF r(3)] by blast
qed

theorem replay_never_twice_witness:
  "distinct (fst (accept_run (replay_check 0) [3, 3, 1, 40, 30, 2, 30] demo_node)) \<and>
   fst (accept_run (replay_check 0) [3, 3, 1, 40, 30, 2, 30] demo_node) = [3, 1, 40, 30]"
proof -
  let ?r = "accept_run (replay_check 0) [3, 3, 1, 40, 30, 2, 30] demo_node"
  have h: "0 < length (c_neigh demo_node)" "n_rx_ctr (nb demo_node 0) = 0" "n_replay_mask (nb demo_node 0) = 0"
    and v: "fst ?r = [3, 1, 40, 30]" by code_simp+
  have "distinct (fst ?r)"
    by (rule replay_never_twice [OF h, of _ "fst ?r" "snd ?r", THEN conjunct1]) (rule prod.collapse [symmetric])
  with v show ?thesis by simp
qed

section \<open>Nonces and frames\<close>

lemma nonce_build_eq: "nonce_build src ctr = le16_bytes src @ [1] @ le32_bytes ctr @ replicate 6 0"
  by (simp add: nonce_build_def lg_put_le16_def lg_put_le32_def le16_bytes_def le32_bytes_def blit_def
      eval_nat_numeral)

lemma nonce_build_inj: "nonce_build a c = nonce_build b d \<longleftrightarrow> a = b \<and> c = d"
  unfolding nonce_build_eq by (simp add: le16_inj le32_inj)

text \<open>The frames a node protects for one neighbour, in order: the nonces handed to the cipher.\<close>

fun nonce_run :: "nat \<Rightarrow> (u8 list \<times> nat \<times> nat) list \<Rightarrow> ctx \<Rightarrow> u8 list list" where
  "nonce_run i [] s = []"
| "nonce_run i ((pdu, hdr, len) # fs) s =
     (case lg_sec_encrypt i pdu hdr len s of
        (Inr _, pdu', s') \<Rightarrow> nonce_build (c_addr s') (lg_get_le32 pdu' LG_OFF_FCTR) # nonce_run i fs s'
      | (Inl _, pdu', s') \<Rightarrow> nonce_run i fs s')"

lemma encrypt_effect:
  assumes "lg_sec_encrypt i pdu hdr len s = (r, pdu', s')" "i < length (c_neigh s)"
  shows "c_addr s' = c_addr s" "length (c_neigh s') = length (c_neigh s)"
    and "n_tx_ctr (nb s' i) = n_tx_ctr (nb s i) \<or> n_tx_ctr (nb s' i) = n_tx_ctr (nb s i) + 1"
    and "r = Inr m \<Longrightarrow> LG_HDR_LEN_SEC \<le> hdr \<Longrightarrow> hdr \<le> length pdu \<Longrightarrow>
      n_tx_ctr (nb s' i) = n_tx_ctr (nb s i) + 1 \<and> lg_get_le32 pdu' LG_OFF_FCTR = n_tx_ctr (nb s' i)"
  using assms
  by (auto simp: lg_sec_encrypt_def Let_def nb_upd_neigh get_le32_blit get_put_le32
      upd_neigh_def split: if_splits option.splits)

lemma nonce_run_counters:
  assumes "i < length (c_neigh s)" "unat (n_tx_ctr (nb s i)) + length fs < 2 ^ 32"
    and "\<forall>(pdu, hdr, len)\<in>set fs. LG_HDR_LEN_SEC \<le> hdr \<and> hdr \<le> length pdu"
  shows "\<exists>cs. nonce_run i fs s = map (nonce_build (c_addr s)) cs \<and> sorted_wrt (<) cs \<and>
    (\<forall>c\<in>set cs. n_tx_ctr (nb s i) < c)"
  using assms
proof (induction fs arbitrary: s)
  case Nil
  then show ?case by simp
next
  case (Cons f fs)
  obtain pdu hdr len where f: "f = (pdu, hdr, len)" by (cases f)
  obtain r pdu' s' where enc: "lg_sec_encrypt i pdu hdr len s = (r, pdu', s')"
    by (cases "lg_sec_encrypt i pdu hdr len s") auto
  note eff = encrypt_effect [OF enc Cons.prems(1)]
  have up: "n_tx_ctr (nb s i) < n_tx_ctr (nb s i) + 1" "unat (n_tx_ctr (nb s i) + 1) = unat (n_tx_ctr (nb s i)) + 1"
    using Cons.prems(2) by (simp_all add: word_less_nat_alt unat_word_ariths)
  have "unat (n_tx_ctr (nb s' i)) + length fs < 2 ^ 32"
    using eff(3) Cons.prems(2) up(2) by auto
  with Cons.IH [of s'] Cons.prems eff(1,2) obtain cs where cs: "nonce_run i fs s' = map (nonce_build (c_addr s)) cs"
    "sorted_wrt (<) cs" "\<forall>c\<in>set cs. n_tx_ctr (nb s' i) < c" by auto
  show ?case
  proof (cases r)
    case (Inl e)
    with cs enc f eff(3) up(1) show ?thesis by (auto intro!: exI [of _ cs] dest: order_less_trans)
  next
    case (Inr m)
    with eff(4) [OF Inr] Cons.prems(3) f have c: "n_tx_ctr (nb s' i) = n_tx_ctr (nb s i) + 1"
      "lg_get_le32 pdu' LG_OFF_FCTR = n_tx_ctr (nb s' i)" by auto
    with Inr cs enc f eff(1) up(1) show ?thesis
      by (auto intro!: exI [of _ "(n_tx_ctr (nb s i) + 1) # cs"] dest: order_less_trans)
  qed
qed


text \<open>Two nodes that share a link: the toy cipher, one key, addresses 5 and 9.\<close>

definition demo_keyed :: "u16 \<Rightarrow> u16 \<Rightarrow> ctx" where
  "demo_keyed self peer = snd (lg_sec_install_key 0 (replicate 16 7)
     (upd_neigh 0 (\<lambda>n. n\<lparr>n_state := LG_NS_LINKED, n_addr := peer\<rparr>) (demo_node\<lparr>c_addr := self\<rparr>)))"

definition demo_pdu :: "u8 list" where
  "demo_pdu = blit (replicate LG_PDU_MAX 0) 0 (hdr_bytes 0x1234 (LG_FT_DATA OR LG_FCF_SEC) 1 9 5 @ [0, 0, 0, 0, 1, 2, 3])"


text \<open>The documented law of an AEAD: decryption inverts encryption, and the tag is what is added.\<close>

definition aead_ok :: "crypto \<Rightarrow> bool" where
  "aead_ok cr \<longleftrightarrow> (\<forall>k t n a p c. cr_aead_enc cr k t n a p = Some c \<longrightarrow>
     length c = length p + t \<and> cr_aead_dec cr k t n a c = Some p)"

lemma aead_ok_demo: "aead_ok demo_crypto"
  by (simp add: aead_ok_def demo_crypto_def demo_tag_def Let_def)

lemma decrypt_failure_keeps_neigh:
  "lg_sec_decrypt i pdu len s = (Inl e, pdu', s') \<Longrightarrow> c_neigh s' = c_neigh s \<and> pdu' = pdu"
  by (auto simp: lg_sec_decrypt_def replay_check_def Let_def upd_stats_def split: if_splits option.splits prod.splits bool.splits)

text \<open>The three parts of a protected frame.\<close>

lemma sealed_frame_parts:
  fixes ctr :: u32
  assumes "length pdu = LG_PDU_MAX" "LG_HDR_LEN_SEC + length out \<le> LG_PDU_MAX"
  defines "f \<equiv> blit (lg_put_le32 pdu LG_OFF_FCTR ctr) LG_HDR_LEN_SEC out"
  shows "lg_get_le32 f LG_OFF_FCTR = ctr" "lg_get_le16 f LG_OFF_SRC = lg_get_le16 pdu LG_OFF_SRC"
    and "take LG_HDR_LEN_SEC f = take LG_OFF_FCTR pdu @ le32_bytes ctr"
    and "take (length out) (drop LG_HDR_LEN_SEC f) = out" "length f = LG_PDU_MAX"
proof -
  have pdu1: "length (lg_put_le32 pdu LG_OFF_FCTR ctr) = LG_PDU_MAX" using assms(1) by simp
  then show "lg_get_le32 f LG_OFF_FCTR = ctr" "take (length out) (drop LG_HDR_LEN_SEC f) = out"
    "length f = LG_PDU_MAX"
    using assms by (simp_all add: f_def get_le32_blit get_put_le32 slice_blit)
  show "lg_get_le16 f LG_OFF_SRC = lg_get_le16 pdu LG_OFF_SRC"
    unfolding f_def lg_put_le32_def using assms(1) by (simp add: get_le16_blit)
  show "take LG_HDR_LEN_SEC f = take LG_OFF_FCTR pdu @ le32_bytes ctr"
    using pdu1 assms(1) by (simp add: f_def lg_put_le32_def take_past_blit)
qed

lemma replay_again:
  assumes "replay_rep i s S" "n_rx_ctr (nb s i) < ctr" "replay_check i ctr s = (ok, t)"
  shows "ok" "\<not> fst (replay_check i ctr t)"
proof -
  from replay_ahead [OF assms(1,2)] assms(3) show "ok" by auto
  with rp.accepts_new [OF assms(1), of ctr t] assms(3) have "replay_rep i t (insert ctr S)" by simp
  from replay_exact [OF this] show "\<not> fst (replay_check i ctr t)" by simp
qed

lemma replay_check_env:
  "replay_check i ctr s = (ok, t) \<Longrightarrow> i < length (c_neigh s) \<Longrightarrow>
   c_cr t = c_cr s \<and> c_cfg t = c_cfg s \<and> length (c_neigh t) = length (c_neigh s) \<and>
   n_has_key (nb t i) = n_has_key (nb s i) \<and> n_key_id (nb t i) = n_key_id (nb s i)"
  by (auto simp: replay_check_def Let_def upd_neigh_def split: if_splits)

lemma sealed_opens:
  assumes law: "aead_ok (c_cr s)"
    and shared: "c_cr r = c_cr s" "cfg_mic_len (c_cfg r) = cfg_mic_len (c_cfg s)"
      "n_key_id (nb r j) = n_key_id (nb s i)" "n_has_key (nb r j)" "j < length (c_neigh r)"
    and fresh: "replay_rep j r S" "n_rx_ctr (nb r j) < n_tx_ctr (nb s i) + 1"
    and frame: "length pdu = LG_PDU_MAX" "lg_get_le16 pdu LG_OFF_SRC = c_addr s" "len \<le> LG_PDU_MAX"
    and enc: "lg_sec_encrypt i pdu LG_HDR_LEN_SEC len s = (Inr clen, pdu', s')"
  shows "\<exists>pdu'' r'. lg_sec_decrypt j pdu' clen r = (Inr len, pdu'', r') \<and> clen \<le> LG_PDU_MAX \<and> length pdu' = LG_PDU_MAX \<and>
    take len pdu'' = take LG_OFF_FCTR pdu @ le32_bytes (n_tx_ctr (nb s i) + 1) @
      take (len - LG_HDR_LEN_SEC) (drop LG_HDR_LEN_SEC pdu) \<and>
    (\<exists>r''. lg_sec_decrypt j pdu' clen r' = (Inl EALREADY, pdu', r'') \<and> c_neigh r'' = c_neigh r')"
proof -
  let ?ctr = "n_tx_ctr (nb s i) + 1" and ?mic = "cfg_mic_len (c_cfg s)"
  let ?body = "take (len - LG_HDR_LEN_SEC) (drop LG_HDR_LEN_SEC pdu)"
  let ?hdr = "take LG_OFF_FCTR pdu @ le32_bytes ?ctr"
  have pdu1: "take LG_HDR_LEN_SEC (lg_put_le32 pdu LG_OFF_FCTR ?ctr) = ?hdr"
    "drop LG_HDR_LEN_SEC (lg_put_le32 pdu LG_OFF_FCTR ?ctr) = drop LG_HDR_LEN_SEC pdu"
    using frame(1) by (simp_all add: lg_put_le32_def blit_def)
  from enc obtain k out where k: "n_key_id (nb s i) = Some k" and len: "LG_HDR_LEN_SEC \<le> len"
    "LG_HDR_LEN_SEC + (len - LG_HDR_LEN_SEC) + ?mic \<le> LG_PDU_MAX"
    and aead: "cr_aead_enc (c_cr s) k ?mic (nonce_build (c_addr s) ?ctr) ?hdr ?body = Some out"
    and res: "clen = LG_HDR_LEN_SEC + length out"
      "pdu' = blit (lg_put_le32 pdu LG_OFF_FCTR ?ctr) LG_HDR_LEN_SEC out"
    by (auto simp: lg_sec_encrypt_def Let_def psa_aead_encrypt_def pdu1 split: if_splits option.splits)
  from law aead have out: "length out = length ?body + ?mic"
    and dec: "cr_aead_dec (c_cr s) k ?mic (nonce_build (c_addr s) ?ctr) ?hdr out = Some ?body"
    by (auto simp: aead_ok_def)
  have body: "length ?body = len - LG_HDR_LEN_SEC" using frame(1) len by simp
  have fits: "LG_HDR_LEN_SEC + length out \<le> LG_PDU_MAX" using out body len by simp
  have lens: "clen - LG_HDR_LEN_SEC = length out" "\<not> clen < LG_HDR_LEN_SEC + ?mic"
    "LG_HDR_LEN_SEC + length ?body = len"
    using res(1) out body len by simp_all
  note parts = sealed_frame_parts [OF frame(1) fits, of ?ctr, folded res(2)]
  have step: "lg_sec_decrypt j pdu' clen q =
      (case replay_check j ?ctr q of
         (False, q1) \<Rightarrow> (Inl EALREADY, pdu', upd_stats (\<lambda>st. st\<lparr>st_replays_dropped := st_replays_dropped st + 1\<rparr>) q1)
       | (True, q1) \<Rightarrow> (Inr len, blit pdu' LG_HDR_LEN_SEC ?body, q1))"
    if "c_cr q = c_cr s" "cfg_mic_len (c_cfg q) = ?mic" "n_key_id (nb q j) = Some k" "n_has_key (nb q j)" for q
    using that dec frame(2) lens
    by (simp add: lg_sec_decrypt_def Let_def psa_aead_decrypt_def parts(1-4) del: length_take split: prod.split bool.split)
  obtain ok r' where rc: "replay_check j ?ctr r = (ok, r')" by (cases "replay_check j ?ctr r")
  note again = replay_again [OF fresh rc]
  note env = replay_check_env [OF rc shared(5)]
  obtain ok2 r2 where rc2: "replay_check j ?ctr r' = (ok2, r2)" by (cases "replay_check j ?ctr r'")
  from again rc2 have ok: "ok" "\<not> ok2" by simp_all
  have r2: "c_neigh r2 = c_neigh r'" using rc2 ok(2) by (auto simp: replay_check_def Let_def split: if_splits)
  from ok rc shared step [of r] k have first: "lg_sec_decrypt j pdu' clen r = (Inr len, blit pdu' LG_HDR_LEN_SEC ?body, r')"
    by simp
  from ok rc2 shared env step [of r'] k have second: "\<exists>r''. lg_sec_decrypt j pdu' clen r' = (Inl EALREADY, pdu', r'') \<and> c_neigh r'' = c_neigh r'"
    by (simp add: r2)
  have "take len (blit pdu' LG_HDR_LEN_SEC ?body) = ?hdr @ ?body"
    by (subst take_past_blit) (use parts(3,5) lens(3) in \<open>simp_all del: length_take\<close>)
  with first second fits res(1) parts(5) show ?thesis by auto
qed



section \<open>Beacons and certificates\<close>

text \<open>A sealed beacon is four bytes longer, carries the body unchanged, and is opened by every
  holder of the grid key; changing any byte of its code makes it refused.\<close>

theorem beacon_seal_open:
  assumes "length pdu = LG_PDU_MAX" "0 < len" "lg_sec_beacon_seal s pdu len = (Inr slen, pdu')"
    and "c_cr r = c_cr s" "c_net_key_id r = c_net_key_id s"
  shows "slen = len + LG_BEACON_MIC_LEN \<and> slen \<le> LG_PDU_MAX \<and> take len pdu' = take len pdu \<and>
    lg_sec_beacon_open r pdu' slen = Inr len \<and>
    (\<forall>mic. length mic = LG_BEACON_MIC_LEN \<and> mic \<noteq> take LG_BEACON_MIC_LEN (drop len pdu') \<longrightarrow>
      lg_sec_beacon_open r (blit pdu' len mic) slen = Inl EBADMSG)"
proof -
  from assms(3) obtain mic where mic: "beacon_mac s (take len pdu) = Inr mic"
    and r: "slen = len + LG_BEACON_MIC_LEN" "pdu' = blit pdu len mic" "len + LG_BEACON_MIC_LEN \<le> LG_PDU_MAX"
    by (auto simp: lg_sec_beacon_seal_def split: if_splits sum.splits)
  from mic have len_mic: "length mic = LG_BEACON_MIC_LEN"
    by (auto simp: beacon_mac_def split: option.splits if_splits)
  have "beacon_mac r d = beacon_mac s d" for d
    unfolding beacon_mac_def psa_aead_encrypt_def assms(4,5) by (rule refl)
  then have opened: "lg_sec_beacon_open r (blit p len m) slen = (if m = mic then Inr len else Inl EBADMSG)"
    if "take len p = take len pdu" "length p = LG_PDU_MAX" "length m = LG_BEACON_MIC_LEN" for p m
    using that r(1,3) mic assms(2) slice_blit [of len p m] by (simp add: lg_sec_beacon_open_def Let_def)
  have p': "take len pdu' = take len pdu" "length pdu' = LG_PDU_MAX" "take LG_BEACON_MIC_LEN (drop len pdu') = mic"
    using r assms(1) len_mic slice_blit [of len pdu mic] by simp_all
  show ?thesis using opened [OF refl assms(1) len_mic] opened [OF p'(1,2)] p' r by auto
qed

theorem beacon_seal_open_witness:
  "lg_sec_beacon_open (snd (lg_sec_init True demo_node))
     (snd (lg_sec_beacon_seal (snd (lg_sec_init True demo_node)) demo_pdu 31)) 35 = Inr 31"
proof -
  let ?s = "snd (lg_sec_init True demo_node)"
  let ?e = "lg_sec_beacon_seal ?s demo_pdu 31"
  have h: "length demo_pdu = LG_PDU_MAX" "(0::nat) < 31" and ok: "fst ?e = Inr 35" by code_simp+
  then have "?e = (Inr 35, snd ?e)" by (metis prod.collapse)
  from beacon_seal_open [OF h this refl refl] show ?thesis by blast
qed

text \<open>A certificate is accepted exactly when it has the full length, the authority's key is
  provisioned, the signature over its body verifies under that key, and it names an address that
  is neither the null, the broadcast nor the backhaul address; and what it yields is read from the
  signed body.\<close>

theorem cert_verify_exact:
  "lg_sec_cert_verify s cert = Inr (addr, role, pub) \<longleftrightarrow>
   length cert = LG_CERT_LEN \<and>
   (\<exists>ca h. c_ca_pub s = Some ca \<and> length ca = LG_EC_PUB_LEN \<and>
      cr_hash (c_cr s) (take LG_CERT_BODY_LEN cert) = Some h \<and>
      cr_verify (c_cr s) ca h (drop LG_CERT_BODY_LEN cert)) \<and>
   addr \<notin> {LG_ADDR_INVALID, LG_ADDR_BROADCAST, LG_ADDR_BACKHAUL} \<and>
   addr = lg_get_le16 (take LG_CERT_BODY_LEN cert) 0 \<and> role = take LG_CERT_BODY_LEN cert ! 2 \<and>
   pub = drop 12 (take LG_CERT_BODY_LEN cert)"
  by (auto simp: lg_sec_cert_verify_def lg_sec_hash_def lg_sec_verify_def Let_def lg_get_le16_def drop_take
      split: option.splits sum.splits if_splits)

end
