(* ===== verification/LG_Neigh.thy ===== *)
theory LG_Neigh
  imports LG_Chan LG_Sec
begin

text \<open>
  The neighbour table and the link quality metrics (\<open>lg_neigh.c\<close>): lookup, allocation, release,
  the moving averages and the link cost. \<open>lg_neigh_make_room\<close> tears links down and is in the theory
  of links.
\<close>

definition LG_ETX_ONE :: u16 where "LG_ETX_ONE = 16"
definition LG_ETX_MAX :: u16 where "LG_ETX_MAX = LG_ETX_ONE * 8"
abbreviation (input) LG_RSSI_WEAK_DBM :: int where "LG_RSSI_WEAK_DBM \<equiv> -88"
abbreviation (input) LG_RSSI_PENALTY_PER_DB :: u32 where "LG_RSSI_PENALTY_PER_DB \<equiv> 2"

section \<open>The table\<close>

definition lg_neigh_find :: "u16 \<Rightarrow> ctx \<Rightarrow> nat option" where
  "lg_neigh_find addr s =
    (if addr = LG_ADDR_INVALID then None
     else find_idx (\<lambda>n. n_state n \<noteq> LG_NS_FREE \<and> n_addr n = addr) (c_neigh s))"

definition neigh_fresh :: "u16 \<Rightarrow> neigh" where
  "neigh_fresh addr = neigh_zero\<lparr>n_addr := addr, n_state := LG_NS_HEARD, n_rssi := INT8_MIN,
     n_etx_q4 := LG_ETX_ONE, n_peer_rank := LG_RANK_INFINITE, n_link_cost := LG_RANK_INFINITE,
     n_subrate := 1, n_subrate_max := 1\<rparr>"

definition lg_neigh_alloc :: "u16 \<Rightarrow> ctx \<Rightarrow> nat option \<times> ctx" where
  "lg_neigh_alloc addr s =
    (case lg_neigh_find addr s of
       Some i \<Rightarrow> (Some i, s)
     | None \<Rightarrow>
         (case find_idx (\<lambda>n. n_state n = LG_NS_FREE) (c_neigh s) of
            Some i \<Rightarrow> (Some i, upd_neigh i (\<lambda>_. neigh_fresh addr) s)
          | None \<Rightarrow> (None, s)))"

definition lg_neigh_free :: "nat \<Rightarrow> ctx \<Rightarrow> ctx" where
  "lg_neigh_free i s = upd_neigh i (\<lambda>_. neigh_zero\<lparr>n_state := LG_NS_FREE\<rparr>) (lg_sec_forget_key i s)"

definition lg_neigh_linked_count :: "ctx \<Rightarrow> u8" where
  "lg_neigh_linked_count s = of_nat (length (filter (\<lambda>n. n_state n = LG_NS_LINKED) (c_neigh s)))"

definition lg_link_count :: "ctx \<Rightarrow> u8" where
  "lg_link_count s = lg_neigh_linked_count s"

section \<open>Link quality\<close>

definition neigh_update_cost :: "neigh \<Rightarrow> neigh" where
  "neigh_update_cost n =
    (let cost = (ucast (n_etx_q4 n) :: u32) +
           (if n_rssi n \<noteq> INT8_MIN \<and> n_rssi n < LG_RSSI_WEAK_DBM
            then of_int (LG_RSSI_WEAK_DBM - n_rssi n) * LG_RSSI_PENALTY_PER_DB else 0)
     in n\<lparr>n_link_cost := ucast (min cost (ucast LG_RANK_INFINITE - 1))\<rparr>)"

definition lg_neigh_update_cost :: "nat \<Rightarrow> ctx \<Rightarrow> ctx" where
  "lg_neigh_update_cost i s = upd_neigh i neigh_update_cost s"

definition neigh_tx_sample :: "bool \<Rightarrow> neigh \<Rightarrow> neigh" where
  "neigh_tx_sample acked n0 =
    (let n1 = n0\<lparr>n_tx_attempts := n_tx_attempts n0 + 1\<rparr>;
         n2 = (if acked then n1\<lparr>n_tx_acked := n_tx_acked n1 + 1, n_consec_misses := 0\<rparr>
               else n1\<lparr>n_consec_misses := n_consec_misses n1 + 1\<rparr>);
         sample = (if acked then LG_ETX_ONE else LG_ETX_ONE * 4);
         n3 = n2\<lparr>n_etx_q4 := of_int (CLAMP (lg_ewma (uint (n_etx_q4 n2)) (uint sample) True)
                                      (uint LG_ETX_ONE) (uint LG_ETX_MAX))\<rparr>;
         n4 = (if n_tx_attempts n3 \<noteq> 0
               then n3\<lparr>n_per_permille := ucast ((n_tx_attempts n3 - n_tx_acked n3) * 1000 div n_tx_attempts n3)\<rparr>
               else n3);
         n5 = (if 128 \<le> n_tx_attempts n4
               then n4\<lparr>n_tx_attempts := n_tx_attempts n4 div 2, n_tx_acked := n_tx_acked n4 div 2\<rparr>
               else n4)
     in n5)"

definition neigh_tx_result :: "bool \<Rightarrow> neigh \<Rightarrow> neigh" where
  "neigh_tx_result acked n = neigh_update_cost (neigh_tx_sample acked n)"

definition lg_neigh_tx_result :: "nat \<Rightarrow> bool \<Rightarrow> ctx \<Rightarrow> ctx" where
  "lg_neigh_tx_result i acked s = upd_neigh i (neigh_tx_result acked) s"

definition neigh_rx_rssi :: "int \<Rightarrow> neigh \<Rightarrow> neigh" where
  "neigh_rx_rssi rssi n = n\<lparr>n_rssi := to_s8 (lg_ewma (n_rssi n) rssi (n_rssi n \<noteq> INT8_MIN))\<rparr>"

definition lg_neigh_rx_rssi :: "nat \<Rightarrow> int \<Rightarrow> ctx \<Rightarrow> ctx" where
  "lg_neigh_rx_rssi i rssi s = upd_neigh i (neigh_rx_rssi rssi) s"

record neighbor_info =
  ni_addr :: u16
  ni_linked :: bool
  ni_parent :: bool
  ni_role :: u8
  ni_peer_rank :: u16
  ni_link_cost :: u16
  ni_rssi :: int
  ni_etx_q4 :: u16
  ni_per_permille :: u16
  ni_interval_us :: u32
  ni_subrate :: u8
  ni_rx_window_us :: u32

definition neighbor_info_of :: "neigh \<Rightarrow> neighbor_info" where
  "neighbor_info_of n = \<lparr>ni_addr = n_addr n, ni_linked = (n_state n = LG_NS_LINKED),
     ni_parent = n_is_parent n, ni_role = n_role n, ni_peer_rank = n_peer_rank n,
     ni_link_cost = n_link_cost n, ni_rssi = n_rssi n, ni_etx_q4 = n_etx_q4 n,
     ni_per_permille = n_per_permille n, ni_interval_us = n_interval_us n,
     ni_subrate = n_subrate n, ni_rx_window_us = n_rx_window_us n\<rparr>"

text \<open>The calls of the callback, in order; it stops the walk by returning false.\<close>

fun neighbor_foreach :: "(neighbor_info \<Rightarrow> bool) \<Rightarrow> neigh list \<Rightarrow> neighbor_info list" where
  "neighbor_foreach cb [] = []"
| "neighbor_foreach cb (n # ns) =
     (if n_state n = LG_NS_FREE then neighbor_foreach cb ns
      else if \<not> cb (neighbor_info_of n) then [neighbor_info_of n]
      else neighbor_info_of n # neighbor_foreach cb ns)"

definition lg_neighbor_foreach :: "(neighbor_info \<Rightarrow> bool) \<Rightarrow> ctx \<Rightarrow> neighbor_info list" where
  "lg_neighbor_foreach cb s = neighbor_foreach cb (c_neigh s)"

section \<open>The table is keyed by address\<close>

abbreviation neigh_live :: "neigh \<Rightarrow> bool" where
  "neigh_live n \<equiv> n_state n \<noteq> LG_NS_FREE"

interpretation nt: keyed_table c_neigh neigh_live n_addr lg_neigh_find "\<lambda>a. a \<noteq> LG_ADDR_INVALID"
  by unfold_locales (simp add: lg_neigh_find_def)

definition neigh_keys_ok :: "ctx \<Rightarrow> bool" where
  "neigh_keys_ok s \<longleftrightarrow> unique_keys neigh_live n_addr (c_neigh s)"

lemma neigh_find_SomeD:
  "lg_neigh_find a s = Some i \<Longrightarrow> i < length (c_neigh s) \<and> neigh_live (nb s i) \<and> n_addr (nb s i) = a \<and> a \<noteq> LG_ADDR_INVALID"
  by (auto simp: lg_neigh_find_def dest: find_idx_SomeD split: if_splits)

lemma neigh_fresh_sel [simp]:
  "n_state (neigh_fresh a) = LG_NS_HEARD" "n_addr (neigh_fresh a) = a" "n_is_parent (neigh_fresh a) = False"
  "n_has_key (neigh_fresh a) = False" "n_key_id (neigh_fresh a) = None"
  by (simp_all add: neigh_fresh_def neigh_zero_def)

lemma neigh_alloc_cases:
  assumes "lg_neigh_alloc a s = (r, t)"
  obtains (known) i where "lg_neigh_find a s = Some i" "r = Some i" "t = s"
  | (taken) i where "lg_neigh_find a s = None" "r = Some i" "i < length (c_neigh s)" "n_state (nb s i) = LG_NS_FREE"
      "t = upd_neigh i (\<lambda>_. neigh_fresh a) s"
  | (full) "lg_neigh_find a s = None" "r = None" "t = s" "\<forall>n\<in>set (c_neigh s). neigh_live n"
proof (cases "lg_neigh_find a s")
  case (Some i)
  with assms have "r = Some i" "t = s" by (simp_all add: lg_neigh_alloc_def)
  with Some show ?thesis by (rule known)
next
  case None
  show ?thesis
  proof (cases "find_idx (\<lambda>n. n_state n = LG_NS_FREE) (c_neigh s)")
    case (Some i)
    with assms None have "r = Some i" "t = upd_neigh i (\<lambda>_. neigh_fresh a) s" by (simp_all add: lg_neigh_alloc_def)
    with None find_idx_SomeD [OF Some] show ?thesis by (intro taken [of i]) simp_all
  next
    case full': None
    with assms None have "r = None" "t = s" by (simp_all add: lg_neigh_alloc_def)
    moreover have "\<forall>n\<in>set (c_neigh s). neigh_live n" using full' by (simp add: find_idx_None_iff)
    ultimately show ?thesis using None by (intro full)
  qed
qed

text \<open>Allocating an entry for an address keeps the table keyed by address; afterwards the
  address is found at the entry returned, every other address is found where it was, and the call
  fails only when no entry is free, changing nothing.\<close>

theorem neigh_alloc_keyed:
  assumes "neigh_keys_ok s" "a \<noteq> LG_ADDR_INVALID" "lg_neigh_alloc a s = (r, t)"
  shows "neigh_keys_ok t \<and> lg_neigh_find a t = r \<and> (\<forall>b. b \<noteq> a \<longrightarrow> lg_neigh_find b t = lg_neigh_find b s) \<and>
    (r = None \<longrightarrow> t = s \<and> (\<forall>n\<in>set (c_neigh s). n_state n \<noteq> LG_NS_FREE))"
  using assms(3)
proof (cases rule: neigh_alloc_cases)
  case (known i)
  with assms(1) show ?thesis by simp
next
  case (taken i)
  have tab: "c_neigh t = (c_neigh s)[i := neigh_fresh a]" by (simp add: taken(5) upd_neigh_def)
  have u: "unique_keys neigh_live n_addr (c_neigh s)" using assms(1) by (simp add: neigh_keys_ok_def)
  have "neigh_keys_ok t" "lg_neigh_find a t = Some i"
    using nt.unique_insert [OF u assms(2) _ tab] nt.lookup_insert_same [OF u assms(2) _ tab] taken(1,3)
    by (simp_all add: neigh_keys_ok_def)
  moreover have "lg_neigh_find b t = lg_neigh_find b s" if "b \<noteq> a" for b
    using nt.lookup_insert_other [of b t s i "neigh_fresh a"] tab taken that
    by (cases "b = LG_ADDR_INVALID") (auto simp: lg_neigh_find_def)
  ultimately show ?thesis using taken(2) by simp
next
  case full
  with assms(1) show ?thesis by simp
qed

lemma neigh_keys_ok_demo: "neigh_keys_ok demo_node"
  by (simp add: neigh_keys_ok_def unique_keys_def demo_node_def node_zero_def neigh_zero_def)

theorem neigh_alloc_keyed_witness:
  "lg_neigh_find 7 (snd (lg_neigh_alloc 7 demo_node)) = fst (lg_neigh_alloc 7 demo_node)"
proof -
  have "neigh_keys_ok demo_node" by (rule neigh_keys_ok_demo)
  moreover have "(7::u16) \<noteq> LG_ADDR_INVALID" by code_simp
  ultimately show ?thesis
    using neigh_alloc_keyed [of demo_node 7 "fst (lg_neigh_alloc 7 demo_node)" "snd (lg_neigh_alloc 7 demo_node)"]
    by (simp only: prod.collapse) blast
qed

lemma c_neigh_forget_key: "c_neigh (lg_sec_forget_key i s) = (c_neigh s)[i := (nb s i)\<lparr>n_key_id := None,
    n_has_key := False, n_link_key := replicate 16 0\<rparr>]"
  by (simp add: lg_sec_forget_key_def upd_neigh_def)

lemma c_neigh_neigh_free: "c_neigh (lg_neigh_free i s) = (c_neigh s)[i := neigh_zero]"
  by (simp add: lg_neigh_free_def upd_neigh_def c_neigh_forget_key neigh_zero_def)

lemma neigh_free_keyed: "neigh_keys_ok s \<Longrightarrow> neigh_keys_ok (lg_neigh_free i s)"
  unfolding neigh_keys_ok_def
  by (rule nt.unique_remove [where r = neigh_zero, OF _ c_neigh_neigh_free]) (simp_all add: neigh_zero_def)

section \<open>The metrics stay in range\<close>

text \<open>
  An entry with \<open>n_etx_q4\<close> between 1 and 57/16: the average cannot climb further, because at 57
  the truncating division of \<open>lg_ewma\<close> loses what a lost frame adds.
\<close>

definition etx_ceiling :: u16 where "etx_ceiling = 57"

definition quality_ok :: "neigh \<Rightarrow> bool" where
  "quality_ok n \<longleftrightarrow> LG_ETX_ONE \<le> n_etx_q4 n \<and> n_etx_q4 n \<le> etx_ceiling \<and>
     n_tx_acked n \<le> n_tx_attempts n \<and> n_tx_attempts n < 128 \<and> n_per_permille n \<le> 1000 \<and>
     INT8_MIN \<le> n_rssi n \<and> n_rssi n < 128"

definition cost_bound :: u16 where "cost_bound = etx_ceiling + 2 * 40"

lemma ewma_etx:
  assumes "16 \<le> e" "e \<le> 57" "smp = 16 \<or> smp = 64"
  shows "16 \<le> lg_ewma e smp True" "lg_ewma e smp True \<le> 57"
  using assms by (auto simp: lg_ewma_def signed_divide_int_def sgn_if)

lemma etx_step:
  fixes acked :: bool
  assumes "LG_ETX_ONE \<le> e" "e \<le> etx_ceiling"
  defines "e' \<equiv> of_int (CLAMP (lg_ewma (uint e) (uint (if acked then LG_ETX_ONE else LG_ETX_ONE * 4)) True)
                  (uint LG_ETX_ONE) (uint LG_ETX_MAX)) :: u16"
  shows "LG_ETX_ONE \<le> e'" "e' \<le> etx_ceiling"
proof -
  let ?w = "lg_ewma (uint e) (uint (if acked then LG_ETX_ONE else LG_ETX_ONE * 4)) True"
  have "16 \<le> uint e" "uint e \<le> 57"
    using assms(1,2) by (simp_all add: LG_ETX_ONE_def etx_ceiling_def word_le_def)
  moreover have "uint (if acked then LG_ETX_ONE else LG_ETX_ONE * 4) \<in> {16, 64}"
    by (simp add: LG_ETX_ONE_def)
  ultimately have w: "16 \<le> ?w" "?w \<le> 57" using ewma_etx by auto
  then have "CLAMP ?w (uint LG_ETX_ONE) (uint LG_ETX_MAX) = ?w"
    by (intro CLAMP_id) (simp_all add: LG_ETX_ONE_def LG_ETX_MAX_def)
  then have "uint e' = ?w" using w by (simp add: e'_def uint_word_of_int)
  with w show "LG_ETX_ONE \<le> e'" "e' \<le> etx_ceiling"
    by (simp_all add: LG_ETX_ONE_def etx_ceiling_def word_le_def)
qed

lemma update_cost_sel [simp]:
  "n_etx_q4 (neigh_update_cost n) = n_etx_q4 n" "n_tx_acked (neigh_update_cost n) = n_tx_acked n"
  "n_tx_attempts (neigh_update_cost n) = n_tx_attempts n" "n_rssi (neigh_update_cost n) = n_rssi n"
  "n_per_permille (neigh_update_cost n) = n_per_permille n"
  by (simp_all add: neigh_update_cost_def Let_def)

lemma update_cost_bounds:
  assumes "quality_ok n"
  shows "LG_ETX_ONE \<le> n_link_cost (neigh_update_cost n)" "n_link_cost (neigh_update_cost n) \<le> cost_bound"
proof -
  let ?pen = "if n_rssi n \<noteq> INT8_MIN \<and> n_rssi n < LG_RSSI_WEAK_DBM
     then of_int (LG_RSSI_WEAK_DBM - n_rssi n) * LG_RSSI_PENALTY_PER_DB else (0 :: u32)"
  let ?c = "(ucast (n_etx_q4 n) :: u32) + ?pen"
  have e: "16 \<le> unat (n_etx_q4 n)" "unat (n_etx_q4 n) \<le> 57"
    using assms by (simp_all add: quality_ok_def LG_ETX_ONE_def etx_ceiling_def word_le_nat_alt)
  have pen: "unat ?pen \<le> 80"
  proof (cases "n_rssi n \<noteq> INT8_MIN \<and> n_rssi n < LG_RSSI_WEAK_DBM")
    case True
    define k where "k = nat (LG_RSSI_WEAK_DBM - n_rssi n)"
    have k: "LG_RSSI_WEAK_DBM - n_rssi n = int k" "k \<le> 40"
      using True assms by (auto simp: k_def quality_ok_def INT8_MIN_def)
    then have "unat (of_int (LG_RSSI_WEAK_DBM - n_rssi n) * 2 :: u32) = 2 * k"
      unfolding k(1) of_int_of_nat_eq by (simp add: unat_word_ariths unat_of_nat)
    with k(2) True show ?thesis by (simp only: if_True) simp
  next
    case False
    then show ?thesis by (simp only: if_False) simp
  qed
  have up: "unat (ucast (n_etx_q4 n) :: u32) = unat (n_etx_q4 n)" by (rule unat_ucast_up) simp
  have "unat ?c = unat (n_etx_q4 n) + unat ?pen"
    using e pen up by (subst unat_add_small) (simp_all only: up, simp)
  with e pen have "16 \<le> unat ?c" "unat ?c \<le> 137" by linarith+
  moreover obtain c where c_def: "c = ?c" by blast
  ultimately have c: "16 \<le> unat c" "unat c \<le> 137" by simp_all
  have "unat (ucast LG_RANK_INFINITE - 1 :: u32) = 65534" by (simp add: LG_RANK_INFINITE_def)
  with c have "c \<le> ucast LG_RANK_INFINITE - 1" by (simp add: word_le_nat_alt)
  then have "n_link_cost (neigh_update_cost n) = ucast c"
    by (simp only: neigh_update_cost_def Let_def c_def [symmetric] min_absorb1) simp
  then have "unat (n_link_cost (neigh_update_cost n)) = unat c"
    using c by (simp add: unat_ucast_small)
  with c show "LG_ETX_ONE \<le> n_link_cost (neigh_update_cost n)" "n_link_cost (neigh_update_cost n) \<le> cost_bound"
    by (simp_all only: word_le_nat_alt LG_ETX_ONE_def cost_bound_def etx_ceiling_def) simp_all
qed

lemma tx_result_ratio:
  fixes att :: u32
  assumes "ack \<le> att" "att < 256" "att \<noteq> 0"
  shows "(ucast ((att - ack) * 1000 div att) :: u16) \<le> 1000"
proof -
  have n: "unat ack \<le> unat att" "unat att < 256" "0 < unat att"
    using assms by (simp_all add: word_le_nat_alt word_less_nat_alt word_neq_0_conv)
  then have "unat ((att - ack) * 1000) = (unat att - unat ack) * 1000"
    using assms(1) by (subst unat_mult_small) (simp_all add: unat_sub)
  then have eq: "unat ((att - ack) * 1000 div att) = (unat att - unat ack) * 1000 div unat att"
    by (simp add: unat_div)
  also have "\<dots> \<le> unat att * 1000 div unat att" by (intro div_le_mono) simp
  finally have le: "unat ((att - ack) * 1000 div att) \<le> 1000" using n by simp
  then have "unat (ucast ((att - ack) * 1000 div att) :: u16) = unat ((att - ack) * 1000 div att)"
    by (intro unat_ucast_small) simp
  with le show ?thesis by (simp add: word_le_nat_alt)
qed

lemma word_half_mono: "a \<le> b \<Longrightarrow> a div 2 \<le> (b div 2 :: u32)"
  by (simp add: word_le_nat_alt unat_div div_le_mono)

lemma tx_sample_sel:
  fixes acked n
  defines "m \<equiv> neigh_tx_sample acked n" and "att \<equiv> n_tx_attempts n + 1"
    and "ack \<equiv> (if acked then n_tx_acked n + 1 else n_tx_acked n)"
  shows "n_tx_attempts m = (if 128 \<le> att then att div 2 else att)"
    and "n_tx_acked m = (if 128 \<le> att then ack div 2 else ack)"
    and "n_rssi m = n_rssi n"
    and "n_per_permille m = (if att \<noteq> 0 then ucast ((att - ack) * 1000 div att) else n_per_permille n)"
    and "n_etx_q4 m = of_int (CLAMP (lg_ewma (uint (n_etx_q4 n)) (uint (if acked then LG_ETX_ONE else LG_ETX_ONE * 4)) True)
                  (uint LG_ETX_ONE) (uint LG_ETX_MAX))"
  by (simp_all add: assms neigh_tx_sample_def Let_def)

lemma quality_ok_tx_sample:
  assumes "quality_ok n"
  shows "quality_ok (neigh_tx_sample acked n)"
proof -
  let ?att = "n_tx_attempts n + 1" and ?ack = "if acked then n_tx_acked n + 1 else n_tx_acked n"
  have n: "unat (n_tx_acked n) \<le> unat (n_tx_attempts n)" "unat (n_tx_attempts n) < 128"
    using assms by (simp_all add: quality_ok_def word_nat)
  then have "unat ?att = unat (n_tx_attempts n) + 1" "unat (n_tx_acked n + 1) = unat (n_tx_acked n) + 1"
    by (simp_all add: unat_word_ariths)
  then have att: "?ack \<le> ?att" "?att < 256" "?att \<noteq> 0" "?att \<le> 128"
    using n by (auto simp: word_nat word_neq_0_conv)
  have "?att div 2 < 128" using att(4) by (simp add: word_nat unat_div)
  then have "(if 128 \<le> ?att then ?att div 2 else ?att) < 128" by (simp add: not_le)
  moreover have "(if 128 \<le> ?att then ?ack div 2 else ?ack) \<le> (if 128 \<le> ?att then ?att div 2 else ?att)"
    using att(1) word_half_mono [OF att(1)] by (simp only: split: if_split) simp
  moreover have "(if ?att \<noteq> 0 then ucast ((?att - ?ack) * 1000 div ?att) else n_per_permille n) \<le> 1000"
    using tx_result_ratio [OF att(1-3)] att(3) by (simp only: if_True simp_thms not_False_eq_True)
  ultimately show ?thesis
    using assms etx_step [of "n_etx_q4 n" acked] unfolding quality_ok_def tx_sample_sel by blast
qed

text \<open>Every result of a transmission keeps an entry's metrics in range, from the values it is
  allocated with: the delivery cost stays between 1 and 57/16 transmissions (never the
  \<open>LG_ETX_MAX\<close> of 8 it is clamped to), acknowledgements never outnumber attempts, fewer than 128
  attempts are remembered, the error rate is at most 1000 per mille, and the link cost lies between
  16 and 137. A link that loses every frame settles at 57.\<close>

theorem link_quality_in_range:
  assumes "quality_ok n" "INT8_MIN \<le> rssi" "rssi < 128"
  shows "quality_ok (neigh_tx_result acked n) \<and> quality_ok (neigh_rx_rssi rssi n) \<and>
    LG_ETX_ONE \<le> n_link_cost (neigh_tx_result acked n) \<and> n_link_cost (neigh_tx_result acked n) \<le> cost_bound \<and>
    quality_ok (neigh_fresh addr) \<and>
    (n_etx_q4 n = etx_ceiling \<longrightarrow> n_etx_q4 (neigh_tx_result False n) = etx_ceiling)"
proof -
  have s: "quality_ok (neigh_tx_sample acked n)" by (rule quality_ok_tx_sample [OF assms(1)])
  then have 1: "quality_ok (neigh_tx_result acked n)" by (simp add: neigh_tx_result_def quality_ok_def)
  have "-128 \<le> lg_ewma (n_rssi n) rssi (n_rssi n \<noteq> INT8_MIN)" "lg_ewma (n_rssi n) rssi (n_rssi n \<noteq> INT8_MIN) < 128"
    using ewma_s8_bounds [of "n_rssi n" rssi] assms by (auto simp: quality_ok_def INT8_MIN_def lg_ewma_def)
  then have 2: "quality_ok (neigh_rx_rssi rssi n)"
    using assms(1) by (simp add: neigh_rx_rssi_def quality_ok_def to_s8_id INT8_MIN_def)
  have 3: "quality_ok (neigh_fresh addr)"
    by (simp add: quality_ok_def neigh_fresh_def neigh_zero_def LG_ETX_ONE_def etx_ceiling_def INT8_MIN_def)
  have "n_etx_q4 (neigh_tx_result False n) = etx_ceiling" if "n_etx_q4 n = etx_ceiling"
    using that by (simp add: neigh_tx_result_def tx_sample_sel etx_ceiling_def LG_ETX_ONE_def LG_ETX_MAX_def
        lg_ewma_def CLAMP_def signed_divide_int_def)
  with 1 2 3 update_cost_bounds [OF s] show ?thesis by (simp add: neigh_tx_result_def)
qed

theorem link_quality_in_range_witness:
  "quality_ok (neigh_tx_result False (neigh_fresh 7)) \<and> n_etx_q4 (neigh_tx_result False (neigh_fresh 7)) = 22"
proof -
  have "quality_ok (neigh_fresh 7)" "n_etx_q4 (neigh_tx_result False (neigh_fresh 7)) = 22" by code_simp+
  with link_quality_in_range [of "neigh_fresh 7" "-60" False 7] show ?thesis by (simp add: INT8_MIN_def)
qed

end
