(* ===== verification/LG_Route.thy ===== *)
theory LG_Route
  imports LG_Neigh LG_Ring
begin

text \<open>
  Rank and parent selection, downward routes, the next hop, route advertisements and the duplicate
  cache (\<open>lg_route.c\<close>). Handling a received advertisement also retunes discovery and is in
  \<open>LG_Role\<close>.
\<close>

abbreviation (input) LG_RANK_HYSTERESIS :: u32 where "LG_RANK_HYSTERESIS \<equiv> 4"
abbreviation (input) LG_ROUTE_LIFETIME_US :: u64 where "LG_ROUTE_LIFETIME_US \<equiv> 120000000"
abbreviation (input) LG_ADV_MAX_ENTRIES :: nat where "LG_ADV_MAX_ENTRIES \<equiv> 6"

definition RANK_INF32 :: u32 where "RANK_INF32 = 0xFFFF"

definition lg_route_init :: "ctx \<Rightarrow> ctx" where
  "lg_route_init s = s\<lparr>c_routes := map (\<lambda>_. route_zero) (c_routes s),
     c_dup_cache := map (\<lambda>_. (0, 0)) (c_dup_cache s), c_gossip := map (\<lambda>_. gossip_zero) (c_gossip s),
     c_dup_next := 0, c_want_addr := LG_ADDR_INVALID,
     c_rank := (if c_role s = LG_ROLE_BACKHAUL then 0 else LG_RANK_INFINITE)\<rparr>"

section \<open>Rank and parents\<close>

definition rank_through :: "config \<Rightarrow> neigh \<Rightarrow> u32" where
  "rank_through cfg n =
    (if n_state n \<noteq> LG_NS_LINKED \<or> n_peer_rank n = LG_RANK_INFINITE then RANK_INF32
     else let cost = (ucast (n_peer_rank n) :: u32) + ucast (n_link_cost n)
          in if cfg_max_rank cfg \<le> cost then RANK_INF32 else cost)"

definition lg_parent :: "ctx \<Rightarrow> u16" where
  "lg_parent s =
    (case find_idx (\<lambda>n. n_is_parent n \<and> n_state n = LG_NS_LINKED) (c_neigh s) of
       Some i \<Rightarrow> n_addr (nb s i)
     | None \<Rightarrow> LG_ADDR_INVALID)"

definition lg_has_route :: "ctx \<Rightarrow> bool" where
  "lg_has_route s \<longleftrightarrow> c_role s = LG_ROLE_BACKHAUL \<or> c_rank s \<noteq> LG_RANK_INFINITE"

text \<open>The arrays \<open>best\<close> and \<open>best_cost\<close>; an insertion shifts the tail down and drops the last.\<close>

fun best_insert :: "u32 \<Rightarrow> nat \<Rightarrow> (u32 \<times> nat option) list \<Rightarrow> (u32 \<times> nat option) list" where
  "best_insert cost i [] = []"
| "best_insert cost i ((c, b) # rest) =
     (if cost < c then (cost, Some i) # butlast ((c, b) # rest) else (c, b) # best_insert cost i rest)"

definition best_step :: "ctx \<Rightarrow> (u32 \<times> nat option) list \<Rightarrow> nat \<Rightarrow> (u32 \<times> nat option) list" where
  "best_step s best i =
    (let n = nb s i; cost = rank_through (c_cfg s) n
     in if RANK_INF32 \<le> cost then best
        else if cost \<le> ucast (n_peer_rank n) then best
        else best_insert cost i best)"

definition best_loop :: "ctx \<Rightarrow> (u32 \<times> nat option) list" where
  "best_loop s = foldl (best_step s) (replicate (cfg_max_parents (c_cfg s)) (RANK_INF32, None))
     [0..<length (c_neigh s)]"

text \<open>Putting the incumbent back at the head: the first slot after 0 that holds it is swapped.\<close>

definition best_swap :: "nat \<Rightarrow> u32 \<Rightarrow> (u32 \<times> nat option) list \<Rightarrow> (u32 \<times> nat option) list" where
  "best_swap cur cur_cost best =
    (case find_idx (\<lambda>(c, b). b = Some cur) (tl best) of
       None \<Rightarrow> best
     | Some k \<Rightarrow> (best[Suc k := best ! 0])[0 := (cur_cost, Some cur)])"

definition best_hysteresis :: "ctx \<Rightarrow> u16 \<Rightarrow> (u32 \<times> nat option) list \<Rightarrow> (u32 \<times> nat option) list" where
  "best_hysteresis s old_parent best =
    (case snd (best ! 0) of
       None \<Rightarrow> best
     | Some b0 \<Rightarrow>
         if old_parent \<noteq> LG_ADDR_INVALID \<and> n_addr (nb s b0) \<noteq> old_parent
         then (case lg_neigh_find old_parent s of
                 None \<Rightarrow> best
               | Some cur \<Rightarrow>
                   let cur_cost = rank_through (c_cfg s) (nb s cur)
                   in if cur_cost < RANK_INF32 \<and> cur_cost \<le> fst (best ! 0) + LG_RANK_HYSTERESIS
                      then best_swap cur cur_cost best else best)
         else best)"

definition clear_parents :: "ctx \<Rightarrow> ctx" where
  "clear_parents s = s\<lparr>c_neigh := map (\<lambda>n. n\<lparr>n_is_parent := False\<rparr>) (c_neigh s)\<rparr>"

definition mark_parent :: "ctx \<Rightarrow> u32 \<times> nat option \<Rightarrow> ctx" where
  "mark_parent s e = (case snd e of None \<Rightarrow> s | Some i \<Rightarrow> upd_neigh i (\<lambda>n. n\<lparr>n_is_parent := True\<rparr>) s)"

definition best_rank :: "u32 \<times> nat option \<Rightarrow> u16" where
  "best_rank e = (if snd e = None then LG_RANK_INFINITE else ucast (min (fst e) (RANK_INF32 - 1)))"

definition lg_route_recompute :: "ctx \<Rightarrow> bool \<times> ctx" where
  "lg_route_recompute s =
    (if c_role s = LG_ROLE_BACKHAUL then (False, clear_parents (s\<lparr>c_rank := 0\<rparr>))
     else
       let old_parent = lg_parent s;
           best = best_hysteresis s old_parent (best_loop s);
           s1 = foldl mark_parent (clear_parents s) best;
           s2 = s1\<lparr>c_rank := best_rank (best ! 0)\<rparr>;
           changed = (lg_parent s2 \<noteq> old_parent);
           s3 = (if changed then upd_stats (\<lambda>st. st\<lparr>st_parent_switches := st_parent_switches st + 1\<rparr>) s2 else s2);
           s4 = (if c_rank s3 \<noteq> c_rank s
                 then s3\<lparr>c_adv_urgent := True, c_neigh := map (\<lambda>n. n\<lparr>n_adv_urgent_done := False\<rparr>) (c_neigh s3)\<rparr>
                 else s3);
           s5 = (if c_rank s \<noteq> LG_RANK_INFINITE \<and> c_rank s4 = LG_RANK_INFINITE
                 then lg_notify LG_EVT_ROUTE_LOST LG_ADDR_INVALID s4 else s4)
       in (changed, s5))"

section \<open>Downward routes\<close>

definition route_find :: "u16 \<Rightarrow> ctx \<Rightarrow> nat option" where
  "route_find dst s = find_idx (\<lambda>r. rt_dst r = dst) (c_routes s)"

text \<open>The loop stops at the first free or expired slot, else ends with the one expiring soonest.\<close>

definition route_slot :: "u64 \<Rightarrow> route list \<Rightarrow> nat option" where
  "route_slot now rs =
    (case find_idx (\<lambda>r. rt_dst r = LG_ADDR_INVALID \<or> rt_expiry_us r \<le> now) rs of
       Some i \<Rightarrow> Some i
     | None \<Rightarrow> pick_idx (\<lambda>_. True) (\<lambda>x y. rt_expiry_us x < rt_expiry_us y) rs)"

definition lg_route_add :: "u16 \<Rightarrow> u16 \<Rightarrow> u8 \<Rightarrow> ctx \<Rightarrow> ctx" where
  "lg_route_add dst via hops s =
    (let now = c_now s
     in if dst = LG_ADDR_INVALID \<or> dst = c_addr s then s
        else case (case route_find dst s of Some i \<Rightarrow> Some i | None \<Rightarrow> route_slot now (c_routes s)) of
          None \<Rightarrow> s
        | Some i \<Rightarrow>
            let r = c_routes s ! i
            in if rt_dst r = dst \<and> now < rt_expiry_us r \<and> rt_hops r < hops
               then s\<lparr>c_routes := (c_routes s)[i := r\<lparr>rt_expiry_us := now + LG_ROUTE_LIFETIME_US\<rparr>]\<rparr>
               else s\<lparr>c_routes := (c_routes s)[i := r\<lparr>rt_dst := dst, rt_next_hop := via, rt_hops := hops,
                        rt_expiry_us := now + LG_ROUTE_LIFETIME_US\<rparr>]\<rparr>)"

definition lg_route_flush_via :: "u16 \<Rightarrow> ctx \<Rightarrow> ctx" where
  "lg_route_flush_via via s =
    s\<lparr>c_routes := map (\<lambda>r. if rt_next_hop r = via then route_zero else r) (c_routes s)\<rparr>"

definition linked_addr :: "u16 \<Rightarrow> ctx \<Rightarrow> bool" where
  "linked_addr a s \<longleftrightarrow> (case lg_neigh_find a s of None \<Rightarrow> False | Some i \<Rightarrow> n_state (nb s i) = LG_NS_LINKED)"

definition lg_route_next_hop :: "u16 \<Rightarrow> u8 \<Rightarrow> ctx \<Rightarrow> u16 \<times> ctx" where
  "lg_route_next_hop final flags s =
    (if has_flag flags LG_DATA_F_UPWARD then (lg_parent s, s)
     else if linked_addr final s then (final, s)
     else case route_find final s of
            None \<Rightarrow> (lg_parent s, s)
          | Some i \<Rightarrow>
              let r = c_routes s ! i
              in if c_now s < rt_expiry_us r
                 then if linked_addr (rt_next_hop r) s then (rt_next_hop r, s)
                      else (lg_parent s, s\<lparr>c_routes := (c_routes s)[i := route_zero]\<rparr>)
                 else (lg_parent s, s))"

section \<open>Advertisements\<close>

text \<open>The entry loop, from neighbour \<open>i\<close> on.\<close>

fun adv_loop :: "neigh list \<Rightarrow> nat \<Rightarrow> u8 list \<Rightarrow> nat \<Rightarrow> nat \<Rightarrow> u8 list \<times> nat \<times> nat" where
  "adv_loop [] cap buf off n = (buf, off, n)"
| "adv_loop (x # xs) cap buf off n =
     (if LG_ADV_MAX_ENTRIES \<le> n then (buf, off, n)
      else if n_state x \<noteq> LG_NS_LINKED then adv_loop xs cap buf off n
      else if cap < off + 4 then (buf, off, n)
      else adv_loop xs cap (lg_put_le16 (lg_put_le16 buf off (n_addr x)) (off + 2) (n_link_cost x)) (off + 4) (n + 1))"

definition lg_route_build_adv :: "u8 list \<Rightarrow> nat \<Rightarrow> ctx \<Rightarrow> u8 list \<times> nat" where
  "lg_route_build_adv buf cap s =
    (if cap < 5 then (buf, 0)
     else
       let b1 = (lg_put_le16 (buf[0 := LG_CTRL_ROUTE_ADV]) 1 (c_rank s))[3 := role_u8 (c_role s)]
       in case adv_loop (c_neigh s) cap b1 5 0 of
            (b2, off, n) \<Rightarrow> (b2[4 := of_nat n], off))"

text \<open>The entries a receiver reads: \<open>for (i = 0; i < n_entries && off + 4 <= len; i++, off += 4)\<close>.\<close>

fun adv_entries :: "nat \<Rightarrow> u8 list \<Rightarrow> nat \<Rightarrow> nat \<Rightarrow> (u16 \<times> u16) list" where
  "adv_entries 0 buf off len = []"
| "adv_entries (Suc k) buf off len =
     (if off + 4 \<le> len
      then (lg_get_le16 buf off, lg_get_le16 buf (off + 2)) # adv_entries k buf (off + 4) len
      else [])"

section \<open>Duplicate suppression\<close>

definition lg_route_is_duplicate :: "u16 \<Rightarrow> u16 \<Rightarrow> ctx \<Rightarrow> bool \<times> ctx" where
  "lg_route_is_duplicate origin msg_id s =
    (if (origin, msg_id) \<in> set (c_dup_cache s) then (True, s)
     else (False, s\<lparr>c_dup_cache := (c_dup_cache s)[c_dup_next s := (origin, msg_id)],
                    c_dup_next := (c_dup_next s + 1) mod LG_DUP_CACHE_SIZE\<rparr>))"

section \<open>The parent set is the cheapest neighbours\<close>

definition path_cost :: "ctx \<Rightarrow> nat \<Rightarrow> u32" where
  "path_cost s i = rank_through (c_cfg s) (nb s i)"

definition eligible :: "ctx \<Rightarrow> nat \<Rightarrow> bool" where
  "eligible s i \<longleftrightarrow> i < length (c_neigh s) \<and> path_cost s i < RANK_INF32 \<and>
     ucast (n_peer_rank (nb s i)) < path_cost s i"

text \<open>The specification: all eligible neighbours, cheapest first, ties in table order.\<close>

fun rank_insert :: "u32 \<times> nat option \<Rightarrow> (u32 \<times> nat option) list \<Rightarrow> (u32 \<times> nat option) list" where
  "rank_insert e [] = [e]"
| "rank_insert e (x # xs) = (if fst e < fst x then e # x # xs else x # rank_insert e xs)"

definition ranked :: "ctx \<Rightarrow> nat \<Rightarrow> (u32 \<times> nat option) list" where
  "ranked s n = foldl (\<lambda>xs i. if eligible s i then rank_insert (path_cost s i, Some i) xs else xs) [] [0..<n]"

lemma ranked_Suc: "ranked s (Suc n) =
    (if eligible s n then rank_insert (path_cost s n, Some n) (ranked s n) else ranked s n)"
  by (simp add: ranked_def)

lemma set_rank_insert: "set (rank_insert e xs) = insert e (set xs)"
  by (induction xs) auto

lemma sorted_rank_insert: "sorted (map fst xs) \<Longrightarrow> sorted (map fst (rank_insert e xs))"
  by (induction xs) (auto simp: set_rank_insert)

lemma distinct_rank_insert: "distinct xs \<Longrightarrow> e \<notin> set xs \<Longrightarrow> distinct (rank_insert e xs)"
  by (induction xs) (auto simp: set_rank_insert)

lemma set_ranked: "set (ranked s n) = {(path_cost s i, Some i) | i. i < n \<and> eligible s i}"
  by (induction n) (auto simp: ranked_def set_rank_insert less_Suc_eq)

lemma sorted_ranked: "sorted (map fst (ranked s n))"
  by (induction n) (auto simp: ranked_def sorted_rank_insert)

lemma distinct_ranked: "distinct (ranked s n)"
proof (induction n)
  case 0
  then show ?case by (simp add: ranked_def)
next
  case (Suc n)
  then show ?case by (auto simp: ranked_Suc set_ranked intro!: distinct_rank_insert)
qed

lemma rank_insert_pad: "fst e < c \<Longrightarrow> rank_insert e (xs @ replicate k (c, b)) =
    (if k = 0 then rank_insert e xs else rank_insert e xs @ replicate k (c, b))"
  by (induction xs) (cases k; auto)+

lemma best_insert_take:
  "k \<le> length ys \<Longrightarrow> best_insert c i (take k ys) = take k (rank_insert (c, Some i) ys)"
proof (induction ys arbitrary: k)
  case Nil
  then show ?case by simp
next
  case (Cons y ys)
  show ?case
  proof (cases k)
    case 0
    then show ?thesis by simp
  next
    case (Suc m)
    with Cons show ?thesis
      by (cases y) (auto simp: butlast_take take_Cons' butlast_conv_take)
  qed
qed

definition pad :: "nat \<Rightarrow> (u32 \<times> nat option) list" where
  "pad k = replicate k (RANK_INF32, None)"

lemma best_step_eligible:
  "i < length (c_neigh s) \<Longrightarrow>
   best_step s best i = (if eligible s i then best_insert (path_cost s i) i best else best)"
  by (auto simp: best_step_def eligible_def path_cost_def Let_def not_le)

lemma best_fold:
  "n \<le> length (c_neigh s) \<Longrightarrow>
   foldl (best_step s) (pad k) [0..<n] = take k (ranked s n @ pad k)"
proof (induction n)
  case 0
  then show ?case by (simp add: ranked_def pad_def)
next
  case (Suc n)
  show ?case
  proof (cases "eligible s n")
    case True
    then have "path_cost s n < RANK_INF32" by (simp add: eligible_def)
    then have "take k (rank_insert (path_cost s n, Some n) (ranked s n @ pad k)) =
        take k (rank_insert (path_cost s n, Some n) (ranked s n) @ pad k)"
      by (simp add: pad_def rank_insert_pad)
    moreover have "best_insert (path_cost s n) n (take k (ranked s n @ pad k)) =
        take k (rank_insert (path_cost s n, Some n) (ranked s n @ pad k))"
      by (rule best_insert_take) (simp add: pad_def)
    moreover have "foldl (best_step s) (pad k) [0..<Suc n] = best_step s (take k (ranked s n @ pad k)) n"
      using Suc by (simp del: take_append)
    ultimately show ?thesis
      using Suc.prems True by (simp only: best_step_eligible ranked_Suc if_True Suc_le_eq)
  next
    case False
    with Suc show ?thesis by (simp add: best_step_eligible ranked_Suc)
  qed
qed

lemma best_loop_is: "best_loop s = take (cfg_max_parents (c_cfg s))
    (ranked s (length (c_neigh s)) @ pad (cfg_max_parents (c_cfg s)))"
  unfolding best_loop_def using best_fold [of "length (c_neigh s)" s] by (simp add: pad_def)

lemma split_mem: "x \<in> set xs \<Longrightarrow> x \<notin> set (take k xs) \<Longrightarrow> x \<in> set (drop k xs)"
  by (metis Un_iff append_take_drop_id set_append)

lemma best_loop_props:
  assumes "1 \<le> cfg_max_parents (c_cfg s)"
  defines "L \<equiv> best_loop s"
  shows "length L = cfg_max_parents (c_cfg s)"
    and "e \<in> set L \<Longrightarrow> e = (RANK_INF32, None) \<or> (\<exists>i. e = (path_cost s i, Some i) \<and> eligible s i)"
    and "snd (L ! 0) = None \<Longrightarrow> \<not> eligible s i"
    and "eligible s i \<Longrightarrow> fst (L ! 0) \<le> path_cost s i"
    and "eligible s i \<Longrightarrow> (path_cost s i, Some i) \<notin> set L \<Longrightarrow> e \<in> set L \<Longrightarrow> fst e \<le> path_cost s i"
proof -
  let ?k = "cfg_max_parents (c_cfg s)" and ?R = "ranked s (length (c_neigh s))"
  have L: "L = take ?k (?R @ pad ?k)" by (simp add: L_def best_loop_is)
  have R: "set ?R = {(path_cost s i, Some i) | i. eligible s i}"
    by (auto simp: set_ranked eligible_def)
  have srt: "sorted (map fst (?R @ pad ?k))"
    using sorted_ranked by (auto simp: sorted_append pad_def R eligible_def)
  have head: "?R \<noteq> [] \<Longrightarrow> L ! 0 = ?R ! 0" "?R = [] \<Longrightarrow> L ! 0 = (RANK_INF32, None)"
    using assms(1) by (cases ?k; simp add: L pad_def nth_append)+
  show "length L = ?k" by (simp add: L pad_def)
  show "e = (RANK_INF32, None) \<or> (\<exists>i. e = (path_cost s i, Some i) \<and> eligible s i)" if "e \<in> set L"
    using that by (auto simp: L pad_def R dest!: in_set_takeD)
  show "\<not> eligible s i" if "snd (L ! 0) = None"
  proof
    assume "eligible s i"
    then have ne: "?R \<noteq> []" using R by auto
    then have "?R ! 0 \<in> set ?R" by simp
    with R head(1) [OF ne] that show False by auto
  qed
  show "fst (L ! 0) \<le> path_cost s i" if e: "eligible s i"
  proof -
    have ne: "?R \<noteq> []" "(path_cost s i, Some i) \<in> set ?R" using R e by auto
    then obtain j where "j < length ?R" "?R ! j = (path_cost s i, Some i)" by (auto simp: in_set_conv_nth)
    with sorted_nth_mono [OF sorted_ranked [of s "length (c_neigh s)"], of 0 j] ne head(1)
    show ?thesis by (simp add: nth_map)
  qed
  show "fst e \<le> path_cost s i" if e: "eligible s i" "(path_cost s i, Some i) \<notin> set L" "e \<in> set L"
  proof -
    let ?A = "?R @ pad ?k"
    have "(path_cost s i, Some i) \<in> set ?A" using R e(1) by auto
    then have "(path_cost s i, Some i) \<in> set (drop ?k ?A)" "e \<in> set (take ?k ?A)"
      using e(2,3) unfolding L by (auto intro: split_mem simp del: take_append drop_append set_append)
    moreover have "sorted (map fst (take ?k ?A) @ map fst (drop ?k ?A))"
      using srt by (simp only: map_append [symmetric] append_take_drop_id)
    then have "\<forall>a\<in>set (take ?k ?A). \<forall>b\<in>set (drop ?k ?A). fst a \<le> fst b"
      by (simp only: sorted_append set_map) blast
    ultimately show ?thesis by fastforce
  qed
qed

text \<open>Hysteresis only reorders, and moves to the front an entry within the margin.\<close>

lemma set_swap_in: "k < length xs \<Longrightarrow> insert (xs ! k) (set (xs[k := x])) = insert x (set xs)"
proof -
  assume k: "k < length xs"
  have "set xs = set (take k xs @ xs ! k # drop (Suc k) xs)" by (simp only: id_take_nth_drop [OF k, symmetric])
  with k show ?thesis by (auto simp: upd_conv_take_nth_drop)
qed

lemma best_swap_props:
  assumes "best \<noteq> []" "\<And>c. (c, Some cur) \<in> set best \<Longrightarrow> c = cur_cost"
  shows "set (best_swap cur cur_cost best) = set best"
    and "best_swap cur cur_cost best ! 0 = best ! 0 \<or> best_swap cur cur_cost best ! 0 = (cur_cost, Some cur)"
proof -
  obtain x xs where best: "best = x # xs" using assms(1) by (cases best) auto
  have "set (best_swap cur cur_cost best) = set best \<and>
    (best_swap cur cur_cost best ! 0 = best ! 0 \<or> best_swap cur cur_cost best ! 0 = (cur_cost, Some cur))"
  proof (cases "find_idx (\<lambda>(c, b). b = Some cur) (tl best)")
    case None
    then show ?thesis by (simp add: best_swap_def)
  next
    case (Some k)
    with find_idx_SomeD [OF this] best have k: "k < length xs" "snd (xs ! k) = Some cur" by auto
    then have "xs ! k = (fst (xs ! k), Some cur)" by (metis prod.collapse)
    moreover from this assms(2) [of "fst (xs ! k)"] best k(1) have "fst (xs ! k) = cur_cost"
      by (metis list.set_intros(2) nth_mem)
    ultimately have cur: "xs ! k = (cur_cost, Some cur)" by simp
    have "best_swap cur cur_cost best = (cur_cost, Some cur) # xs[k := x]"
      using Some best by (simp add: best_swap_def)
    moreover have "set ((xs ! k) # xs[k := x]) = set (x # xs)"
      using set_swap_in [OF k(1), of x] by simp
    ultimately show ?thesis using best cur by simp
  qed
  then show "set (best_swap cur cur_cost best) = set best"
    "best_swap cur cur_cost best ! 0 = best ! 0 \<or> best_swap cur cur_cost best ! 0 = (cur_cost, Some cur)" by auto
qed

lemma best_hysteresis_props:
  fixes old :: u16
  assumes "1 \<le> cfg_max_parents (c_cfg s)"
  defines "B \<equiv> best_hysteresis s old (best_loop s)"
  shows "set B = set (best_loop s)"
    and "B ! 0 = best_loop s ! 0 \<or>
      fst (B ! 0) \<le> fst (best_loop s ! 0) + LG_RANK_HYSTERESIS \<and> snd (B ! 0) \<noteq> None \<and> snd (best_loop s ! 0) \<noteq> None"
    and "B ! 0 \<in> set B"
proof -
  let ?L = "best_loop s"
  have ne: "?L \<noteq> []" using best_loop_props(1) [OF assms(1)] assms(1) by auto
  have only: "c = rank_through (c_cfg s) (nb s i)" if "(c, Some i) \<in> set ?L" for c i
    using best_loop_props(2) [OF assms(1) that] by (auto simp: path_cost_def)
  have B: "B = ?L \<or> (\<exists>cur. rank_through (c_cfg s) (nb s cur) \<le> fst (?L ! 0) + LG_RANK_HYSTERESIS \<and> snd (?L ! 0) \<noteq> None \<and>
      B = best_swap cur (rank_through (c_cfg s) (nb s cur)) ?L)"
    by (auto simp: B_def best_hysteresis_def Let_def split: option.splits)
  have claim: "set B = set ?L \<and> (B ! 0 = ?L ! 0 \<or>
      fst (B ! 0) \<le> fst (?L ! 0) + LG_RANK_HYSTERESIS \<and> snd (B ! 0) \<noteq> None \<and> snd (?L ! 0) \<noteq> None)"
    using B
  proof (elim disjE exE conjE)
    assume "B = ?L"
    then show ?thesis by simp
  next
    fix cur
    let ?c = "rank_through (c_cfg s) (nb s cur)"
    assume sw: "?c \<le> fst (?L ! 0) + LG_RANK_HYSTERESIS" "snd (?L ! 0) \<noteq> None" "B = best_swap cur ?c ?L"
    have "set (best_swap cur ?c ?L) = set ?L"
      "best_swap cur ?c ?L ! 0 = ?L ! 0 \<or> best_swap cur ?c ?L ! 0 = (?c, Some cur)"
      using best_swap_props [OF ne, of cur ?c] only by blast+
    then show ?thesis unfolding sw(3) using sw(1,2) by auto
  qed
  then show S: "set B = set ?L" by (rule conjunct1)
  from claim show "B ! 0 = ?L ! 0 \<or>
      fst (B ! 0) \<le> fst (?L ! 0) + LG_RANK_HYSTERESIS \<and> snd (B ! 0) \<noteq> None \<and> snd (?L ! 0) \<noteq> None"
    by (rule conjunct2)
  have "B \<noteq> []" using S ne by (metis set_empty)
  then show "B ! 0 \<in> set B" by simp
qed

text \<open>Marking sets the flags of exactly the entries held.\<close>

lemma mark_fold:
  "(\<forall>e\<in>set B. \<forall>i. snd e = Some i \<longrightarrow> i < length (c_neigh s)) \<Longrightarrow>
   length (c_neigh (foldl mark_parent s B)) = length (c_neigh s) \<and>
   (\<forall>i<length (c_neigh s). nb (foldl mark_parent s B) i =
      (nb s i)\<lparr>n_is_parent := n_is_parent (nb s i) \<or> Some i \<in> snd ` set B\<rparr>)"
proof (induction B arbitrary: s)
  case Nil
  then show ?case by simp
next
  case (Cons e B)
  have len: "length (c_neigh (mark_parent s e)) = length (c_neigh s)"
    by (simp add: mark_parent_def split: option.splits)
  have nb: "nb (mark_parent s e) i = (nb s i)\<lparr>n_is_parent := n_is_parent (nb s i) \<or> Some i = snd e\<rparr>"
    if "i < length (c_neigh s)" for i
  proof (cases "snd e = Some i")
    case True
    with that show ?thesis by (simp add: mark_parent_def upd_neigh_def)
  next
    case False
    then show ?thesis by (auto simp: mark_parent_def upd_neigh_def split: option.splits)
  qed
  from Cons.IH [of "mark_parent s e"] Cons.prems len have IH:
    "length (c_neigh (foldl mark_parent (mark_parent s e) B)) = length (c_neigh s)"
    "\<forall>i<length (c_neigh s). nb (foldl mark_parent (mark_parent s e) B) i =
      (nb (mark_parent s e) i)\<lparr>n_is_parent := n_is_parent (nb (mark_parent s e) i) \<or> Some i \<in> snd ` set B\<rparr>"
    by auto
  show ?case using IH nb by auto
qed

lemma mark_frame: "c_rank (mark_parent s e) = c_rank s" "c_cfg (mark_parent s e) = c_cfg s"
  "c_role (mark_parent s e) = c_role s"
  by (auto simp: mark_parent_def upd_neigh_def split: option.splits)

lemma mark_fold_frame: "c_cfg (foldl mark_parent s B) = c_cfg s" "c_role (foldl mark_parent s B) = c_role s"
  by (induction B arbitrary: s) (simp_all add: mark_frame)

lemma notify_frame [simp]: "c_neigh (lg_notify e a s) = c_neigh s" "c_rank (lg_notify e a s) = c_rank s"
  "c_cfg (lg_notify e a s) = c_cfg s" "c_role (lg_notify e a s) = c_role s"
  by (simp_all add: lg_notify_def)

lemma recompute_result:
  assumes "c_role s \<noteq> LG_ROLE_BACKHAUL" "1 \<le> cfg_max_parents (c_cfg s)" "lg_route_recompute s = (ch, t)"
  defines "B \<equiv> best_hysteresis s (lg_parent s) (best_loop s)"
  shows "c_rank t = best_rank (B ! 0)" "length (c_neigh t) = length (c_neigh s)"
    and "i < length (c_neigh s) \<Longrightarrow> n_is_parent (nb t i) \<longleftrightarrow> Some i \<in> snd ` set B"
    and "i < length (c_neigh s) \<Longrightarrow> n_state (nb t i) = n_state (nb s i) \<and> n_peer_rank (nb t i) = n_peer_rank (nb s i) \<and>
      n_link_cost (nb t i) = n_link_cost (nb s i) \<and> n_addr (nb t i) = n_addr (nb s i)"
    and "c_cfg t = c_cfg s" "c_role t = c_role s"
proof -
  have idx: "\<forall>e\<in>set B. \<forall>i. snd e = Some i \<longrightarrow> i < length (c_neigh (clear_parents s))"
    using best_loop_props(2) [OF assms(2)] best_hysteresis_props(1) [OF assms(2)]
    by (fastforce simp: B_def eligible_def clear_parents_def)
  note marked = mark_fold [OF idx]
  have cl: "length (c_neigh (clear_parents s)) = length (c_neigh s)"
    "i < length (c_neigh s) \<Longrightarrow> nb (clear_parents s) i = (nb s i)\<lparr>n_is_parent := False\<rparr>" for i
    by (simp_all add: clear_parents_def)
  let ?s1 = "foldl mark_parent (clear_parents s) B"
  have t: "t = snd (lg_route_recompute s)" using assms(3) by simp
  have neigh: "c_neigh t = c_neigh ?s1 \<or> c_neigh t = map (\<lambda>n. n\<lparr>n_adv_urgent_done := False\<rparr>) (c_neigh ?s1)"
    and other: "c_rank t = best_rank (B ! 0)" "c_cfg t = c_cfg s" "c_role t = c_role s"
    using assms(1) unfolding t
    by (simp_all add: lg_route_recompute_def Let_def B_def upd_stats_def mark_fold_frame clear_parents_def)
  then show "c_rank t = best_rank (B ! 0)" "c_cfg t = c_cfg s" "c_role t = c_role s" by simp_all
  show "length (c_neigh t) = length (c_neigh s)" using neigh marked cl by auto
  show "n_is_parent (nb t i) \<longleftrightarrow> Some i \<in> snd ` set B" if "i < length (c_neigh s)"
    using neigh marked cl that by (elim disjE) simp_all
  show "n_state (nb t i) = n_state (nb s i) \<and> n_peer_rank (nb t i) = n_peer_rank (nb s i) \<and>
      n_link_cost (nb t i) = n_link_cost (nb s i) \<and> n_addr (nb t i) = n_addr (nb s i)" if "i < length (c_neigh s)"
    using neigh marked cl that by (elim disjE) simp_all
qed

lemma rank_word:
  assumes "c < RANK_INF32"
  shows "best_rank (c, Some i) \<noteq> LG_RANK_INFINITE" "ucast (best_rank (c, Some i)) = c"
proof -
  have n: "unat c < 0xFFFF" using assms by (simp add: RANK_INF32_def word_less_nat_alt)
  then have "c \<le> RANK_INF32 - 1" by (simp add: RANK_INF32_def word_le_nat_alt)
  then have r: "best_rank (c, Some i) = ucast c" by (simp add: best_rank_def min_absorb1)
  have u: "unat (ucast c :: u16) = unat c" using n by (intro unat_ucast_small) simp
  show "best_rank (c, Some i) \<noteq> LG_RANK_INFINITE"
    using n u unfolding r by (auto simp: LG_RANK_INFINITE_def dest!: arg_cong [of _ _ unat])
  show "ucast (best_rank (c, Some i)) = c"
    unfolding r by (rule word_unat_eq_iff [THEN iffD2]) (simp add: unat_ucast_up u)
qed

lemma within_margin:
  fixes a b c :: u32
  assumes "a \<le> b + LG_RANK_HYSTERESIS" "b \<le> c" "c < RANK_INF32"
  shows "a \<le> c + LG_RANK_HYSTERESIS"
proof -
  have n: "unat b \<le> unat c" "unat c < 0xFFFF"
    using assms(2,3) by (simp_all add: RANK_INF32_def word_nat)
  then have "unat (b + 4) = unat b + 4" "unat (c + 4) = unat c + 4" by (simp_all add: unat_word_ariths)
  with n assms(1) show ?thesis by (simp add: word_nat)
qed

lemma le_plus_margin: "c < RANK_INF32 \<Longrightarrow> c \<le> c + LG_RANK_HYSTERESIS"
  by (simp add: RANK_INF32_def word_nat unat_word_ariths)

text \<open>C16: after a recomputation by a node that is not a backhaul: it has no rank exactly when no
  neighbour is eligible; otherwise its rank is the cost through one of its parents, within the
  hysteresis margin of the cheapest path there is; every parent is eligible, there are at most
  \<open>MAX_PARENTS\<close> of them, and no neighbour left out is cheaper than one taken.\<close>

theorem parents_are_cheapest:
  assumes "c_role s \<noteq> LG_ROLE_BACKHAUL" "1 \<le> cfg_max_parents (c_cfg s)" "lg_route_recompute s = (ch, t)"
  shows "(c_rank t = LG_RANK_INFINITE \<longleftrightarrow> (\<forall>q. \<not> eligible s q)) \<and>
    (c_rank t \<noteq> LG_RANK_INFINITE \<longrightarrow> (\<exists>p. eligible s p \<and> n_is_parent (nb t p) \<and>
       ucast (c_rank t) = path_cost s p \<and> (\<forall>q. eligible s q \<longrightarrow> path_cost s p \<le> path_cost s q + LG_RANK_HYSTERESIS))) \<and>
    (\<forall>p<length (c_neigh t). n_is_parent (nb t p) \<longrightarrow> eligible s p) \<and>
    card {p. p < length (c_neigh t) \<and> n_is_parent (nb t p)} \<le> cfg_max_parents (c_cfg s) \<and>
    (\<forall>p q. p < length (c_neigh t) \<and> n_is_parent (nb t p) \<and> eligible s q \<and> \<not> n_is_parent (nb t q) \<longrightarrow>
       path_cost s p \<le> path_cost s q)"
proof -
  let ?L = "best_loop s"
  define B where "B = best_hysteresis s (lg_parent s) ?L"
  note loop = best_loop_props [OF assms(2)]
  note hyst = best_hysteresis_props [OF assms(2), of "lg_parent s", folded B_def]
  note res = recompute_result [OF assms, folded B_def]
  have entry: "e = (RANK_INF32, None) \<or> (\<exists>i. e = (path_cost s i, Some i) \<and> eligible s i)" if "e \<in> set B" for e
    using loop(2) hyst(1) that by simp
  have parent: "n_is_parent (nb t p) \<longleftrightarrow> (path_cost s p, Some p) \<in> set ?L" if "p < length (c_neigh s)" for p
    using res(3) [OF that] hyst(1) loop(2) by force
  have "?L ! 0 \<in> set ?L" using loop(1) assms(2) by simp
  note first = loop(2) [OF this]
  have none: "\<not> eligible s q" if "snd (B ! 0) = None" for q
    using hyst(2) loop(3) that by auto
  have some: "c_rank t \<noteq> LG_RANK_INFINITE \<and> ucast (c_rank t) = path_cost s p \<and> eligible s p \<and> n_is_parent (nb t p) \<and>
      (\<forall>q. eligible s q \<longrightarrow> path_cost s p \<le> path_cost s q + LG_RANK_HYSTERESIS)"
    if p: "snd (B ! 0) = Some p" for p
  proof -
    have B0: "B ! 0 = (path_cost s p, Some p)" "eligible s p" using entry [OF hyst(3)] p by auto
    then have c: "path_cost s p < RANK_INF32" "p < length (c_neigh s)" by (simp_all add: eligible_def)
    have par: "n_is_parent (nb t p)" using parent [OF c(2)] hyst(1,3) B0 by simp
    have "path_cost s p \<le> path_cost s q + LG_RANK_HYSTERESIS" if q: "eligible s q" for q
    proof (rule within_margin [OF _ loop(4) [OF q]])
      show "path_cost s q < RANK_INF32" using q by (simp add: eligible_def)
      show "path_cost s p \<le> fst (?L ! 0) + LG_RANK_HYSTERESIS"
        using hyst(2)
      proof
        assume "B ! 0 = ?L ! 0"
        with B0 have "fst (?L ! 0) = path_cost s p" by (metis fst_conv)
        with le_plus_margin [OF c(1)] show ?thesis by simp
      next
        assume "fst (B ! 0) \<le> fst (?L ! 0) + LG_RANK_HYSTERESIS \<and> snd (B ! 0) \<noteq> None \<and> snd (?L ! 0) \<noteq> None"
        with B0 show ?thesis by simp
      qed
    qed
    with rank_word [OF c(1)] B0 res(1) par show ?thesis by simp
  qed
  have 1: "c_rank t = LG_RANK_INFINITE \<longleftrightarrow> (\<forall>q. \<not> eligible s q)"
  proof (cases "snd (B ! 0)")
    case None
    with none res(1) show ?thesis by (simp add: best_rank_def)
  next
    case (Some p)
    with some [OF Some] show ?thesis by blast
  qed
  have 2: "\<exists>p. eligible s p \<and> n_is_parent (nb t p) \<and> ucast (c_rank t) = path_cost s p \<and>
      (\<forall>q. eligible s q \<longrightarrow> path_cost s p \<le> path_cost s q + LG_RANK_HYSTERESIS)"
    if "c_rank t \<noteq> LG_RANK_INFINITE"
  proof (cases "snd (B ! 0)")
    case None
    with res(1) that show ?thesis by (simp add: best_rank_def)
  next
    case (Some p)
    with some [OF Some] show ?thesis by blast
  qed
  have parent_in: "(path_cost s p, Some p) \<in> set ?L" if "p < length (c_neigh t)" "n_is_parent (nb t p)" for p
    using parent [of p] res(2) that by simp
  have 3: "\<forall>p<length (c_neigh t). n_is_parent (nb t p) \<longrightarrow> eligible s p"
  proof (intro allI impI)
    fix p
    assume "p < length (c_neigh t)" "n_is_parent (nb t p)"
    then have "(path_cost s p, Some p) \<in> set ?L" by (rule parent_in)
    from loop(2) [OF this] show "eligible s p" by auto
  qed
  let ?P = "{p. p < length (c_neigh t) \<and> n_is_parent (nb t p)}"
  have sub: "(\<lambda>p. (path_cost s p, Some p)) ` ?P \<subseteq> set ?L"
    by (rule image_subsetI, elim CollectE conjE) (rule parent_in)
  have inj: "inj_on (\<lambda>p. (path_cost s p, Some p)) ?P" by (simp add: inj_on_def)
  have "card ?P \<le> card (set ?L)" by (rule card_inj_on_le [OF inj sub]) simp
  with card_length [of ?L] loop(1) have 4: "card ?P \<le> cfg_max_parents (c_cfg s)" by simp
  have 5: "path_cost s p \<le> path_cost s q"
    if "p < length (c_neigh t)" "n_is_parent (nb t p)" "eligible s q" "\<not> n_is_parent (nb t q)" for p q
  proof -
    have "q < length (c_neigh s)" using that(3) by (simp add: eligible_def)
    then have "(path_cost s q, Some q) \<notin> set ?L" using parent that(4) by simp
    moreover have "(path_cost s p, Some p) \<in> set ?L" by (rule parent_in [OF that(1,2)])
    ultimately have "fst (path_cost s p, Some p) \<le> path_cost s q" by (rule loop(5) [OF that(3)])
    then show ?thesis by simp
  qed
  from 1 2 3 4 5 show ?thesis by blast
qed

text \<open>A table of five neighbours: four linked at costs 52, 30, 30 and 40, and one only heard.\<close>

definition demo_linked :: "u16 \<Rightarrow> u16 \<Rightarrow> u16 \<Rightarrow> neigh" where
  "demo_linked addr rank cost = (neigh_fresh addr)\<lparr>n_state := LG_NS_LINKED, n_peer_rank := rank, n_link_cost := cost\<rparr>"

definition demo_mesh :: ctx where
  "demo_mesh = demo_node\<lparr>c_addr := 5, c_rank := LG_RANK_INFINITE, c_neigh := [demo_linked 21 36 16, demo_linked 22 14 16,
     neigh_fresh 23, demo_linked 24 14 16, demo_linked 25 20 20] @ replicate 3 neigh_zero\<rparr>"

theorem parents_are_cheapest_witness:
  "c_rank (snd (lg_route_recompute demo_mesh)) = 30 \<and>
   map n_is_parent (c_neigh (snd (lg_route_recompute demo_mesh))) = [False, True, False, True, False, False, False, False] \<and>
   card {p. p < length (c_neigh (snd (lg_route_recompute demo_mesh))) \<and>
     n_is_parent (nb (snd (lg_route_recompute demo_mesh)) p)} \<le> 2"
proof -
  have h: "c_role demo_mesh \<noteq> LG_ROLE_BACKHAUL" "1 \<le> cfg_max_parents (c_cfg demo_mesh)"
    and k: "cfg_max_parents (c_cfg demo_mesh) = 2"
    and v: "c_rank (snd (lg_route_recompute demo_mesh)) = 30"
      "map n_is_parent (c_neigh (snd (lg_route_recompute demo_mesh))) = [False, True, False, True, False, False, False, False]"
    by code_simp+
  have "lg_route_recompute demo_mesh = (fst (lg_route_recompute demo_mesh), snd (lg_route_recompute demo_mesh))"
    by (simp only: prod.collapse)
  note t = parents_are_cheapest [OF h this, THEN conjunct2, THEN conjunct2, THEN conjunct2, THEN conjunct1, unfolded k]
  from v t show ?thesis by (intro conjI)
qed

lemma eligible_iff:
  assumes "\<forall>n\<in>set (c_neigh s). n_link_cost n \<noteq> 0"
  shows "eligible s i \<longleftrightarrow> i < length (c_neigh s) \<and> path_cost s i < RANK_INF32"
proof -
  have "ucast (n_peer_rank (nb s i)) < path_cost s i" if i: "i < length (c_neigh s)" "path_cost s i < RANK_INF32"
  proof -
    have cost: "path_cost s i = ucast (n_peer_rank (nb s i)) + ucast (n_link_cost (nb s i))"
      using i(2) by (auto simp: path_cost_def rank_through_def Let_def split: if_splits)
    have "n_link_cost (nb s i) \<noteq> 0" using assms i(1) by simp
    then have "0 < unat (n_link_cost (nb s i))" by (simp add: unat_gt_0)
    moreover have "unat (n_peer_rank (nb s i)) < 2 ^ 16" "unat (n_link_cost (nb s i)) < 2 ^ 16"
      using unsigned_less [of "n_peer_rank (nb s i)"] unsigned_less [of "n_link_cost (nb s i)"] by simp_all
    ultimately show ?thesis unfolding cost by (simp add: word_less_nat_alt unat_word_ariths unat_ucast_up)
  qed
  then show ?thesis by (auto simp: eligible_def)
qed

text \<open>The test meant to keep the tree acyclic (\<open>peer_rank >= cost\<close>) never rejects a neighbour:
  the cost through a neighbour is its rank plus a link cost of at least one, so every linked
  neighbour under the rank ceiling is eligible, a child of this node included.\<close>

theorem acyclicity_test_vacuous:
  assumes "\<forall>n\<in>set (c_neigh s). n_link_cost n \<noteq> 0"
  shows "eligible s i \<longleftrightarrow> i < length (c_neigh s) \<and> n_state (nb s i) = LG_NS_LINKED \<and>
    n_peer_rank (nb s i) \<noteq> LG_RANK_INFINITE \<and>
    ucast (n_peer_rank (nb s i)) + ucast (n_link_cost (nb s i)) < min (cfg_max_rank (c_cfg s)) RANK_INF32"
  unfolding eligible_iff [OF assms]
  by (auto simp: path_cost_def rank_through_def Let_def not_le)

text \<open>Node 5 has lost its backhaul and hears its child 6, whose rank is 16 over its own old rank.\<close>

definition demo_orphan :: ctx where
  "demo_orphan = demo_node\<lparr>c_addr := 5, c_role := LG_ROLE_ROUTER, c_rank := 16,
     c_neigh := demo_linked 6 32 16 # replicate 7 (neigh_fresh 0)\<rparr>"

theorem acyclicity_test_vacuous_witness:
  "eligible demo_orphan 0 \<and> lg_parent (snd (lg_route_recompute demo_orphan)) = 6 \<and>
   c_rank (snd (lg_route_recompute demo_orphan)) = 48"
proof -
  have nz: "\<forall>n\<in>set (c_neigh demo_orphan). n_link_cost n \<noteq> 0"
    by (auto simp: demo_orphan_def demo_linked_def neigh_fresh_def LG_RANK_INFINITE_def)
  have "0 < length (c_neigh demo_orphan) \<and> n_state (nb demo_orphan 0) = LG_NS_LINKED \<and>
    n_peer_rank (nb demo_orphan 0) \<noteq> LG_RANK_INFINITE \<and>
    ucast (n_peer_rank (nb demo_orphan 0)) + ucast (n_link_cost (nb demo_orphan 0)) <
      min (cfg_max_rank (c_cfg demo_orphan)) RANK_INF32"
    by (intro conjI) code_simp+
  then have "eligible demo_orphan 0" by (rule acyclicity_test_vacuous [OF nz, THEN iffD2])
  moreover have "lg_parent (snd (lg_route_recompute demo_orphan)) = 6"
   "c_rank (snd (lg_route_recompute demo_orphan)) = 48" by code_simp+
  ultimately show ?thesis by blast
qed

text \<open>With room for one parent only, the hysteresis never applies: the search for the
  incumbent starts at slot 1, so the node always moves to the cheapest neighbour, however small
  the gain.\<close>

theorem no_hysteresis_with_one_parent:
  assumes "cfg_max_parents (c_cfg s) = 1" "c_role s \<noteq> LG_ROLE_BACKHAUL" "lg_route_recompute s = (ch, t)" "eligible s q"
  shows "best_hysteresis s old (best_loop s) = best_loop s \<and>
    c_rank t \<noteq> LG_RANK_INFINITE \<and> ucast (c_rank t) \<le> path_cost s q"
proof -
  have k: "1 \<le> cfg_max_parents (c_cfg s)" using assms(1) by simp
  note loop = best_loop_props [OF k]
  obtain e where e: "best_loop s = [e]" using loop(1) assms(1) by (auto simp: length_Suc_conv)
  then have same: "best_hysteresis s old' (best_loop s) = best_loop s" for old'
    by (auto simp: best_hysteresis_def best_swap_def Let_def split: option.splits)
  obtain i where i: "e = (path_cost s i, Some i)" "eligible s i"
    using loop(2) [of e] loop(3) [of q] assms(4) e by auto
  then have "c_rank t = best_rank (path_cost s i, Some i)" "path_cost s i < RANK_INF32"
    using recompute_result(1) [OF assms(2) k assms(3)] same e by (simp_all add: eligible_def)
  moreover have "path_cost s i \<le> path_cost s q" using loop(4) [OF assms(4)] e i by simp
  ultimately show ?thesis using same rank_word [of "path_cost s i" i] by simp
qed

theorem no_hysteresis_with_one_parent_witness:
  "\<exists>s. cfg_max_parents (c_cfg s) = 1 \<and> cfg_ok (c_cfg s) \<and> lg_parent s = 22 \<and> path_cost s 1 = 31 \<and> path_cost s 3 = 30 \<and>
     ucast (c_rank (snd (lg_route_recompute s))) \<le> path_cost s 3 \<and> lg_parent (snd (lg_route_recompute s)) = 24"
proof -
  let ?s = "demo_mesh\<lparr>c_cfg := default_cfg\<lparr>cfg_max_parents := 1\<rparr>,
    c_neigh := (c_neigh demo_mesh)[1 := (demo_linked 22 15 16)\<lparr>n_is_parent := True\<rparr>]\<rparr>"
  have h: "cfg_max_parents (c_cfg ?s) = 1" "c_role ?s \<noteq> LG_ROLE_BACKHAUL" "eligible ?s 3"
    and v: "cfg_ok (c_cfg ?s)" "lg_parent ?s = 22" "path_cost ?s 1 = 31" "path_cost ?s 3 = 30"
      "lg_parent (snd (lg_route_recompute ?s)) = 24" by code_simp+
  have "lg_route_recompute ?s = (fst (lg_route_recompute ?s), snd (lg_route_recompute ?s))"
    by (simp only: prod.collapse)
  from no_hysteresis_with_one_parent [OF h(1,2) this h(3)] have "ucast (c_rank (snd (lg_route_recompute ?s))) \<le> path_cost ?s 3"
    by blast
  with h v show ?thesis by (intro exI [of _ ?s] conjI)
qed

section \<open>The next hop and the routing table\<close>

lemma linked_addr_iff: "linked_addr a s \<longleftrightarrow> (\<exists>i. lg_neigh_find a s = Some i \<and> n_state (nb s i) = LG_NS_LINKED)"
  by (simp add: linked_addr_def split: option.splits)

lemma linked_addrD: "linked_addr a s \<Longrightarrow> \<exists>n\<in>set (c_neigh s). n_state n = LG_NS_LINKED \<and> n_addr n = a"
  by (auto simp: linked_addr_iff dest!: neigh_find_SomeD)

lemma lg_parent_cases:
  "lg_parent s = LG_ADDR_INVALID \<or>
   (\<exists>n\<in>set (c_neigh s). n_state n = LG_NS_LINKED \<and> n_is_parent n \<and> n_addr n = lg_parent s)"
proof (cases "find_idx (\<lambda>n. n_is_parent n \<and> n_state n = LG_NS_LINKED) (c_neigh s)")
  case (Some i)
  with find_idx_SomeD [OF Some] show ?thesis by (auto simp: lg_parent_def)
qed (simp add: lg_parent_def)

text \<open>Two states that differ only in routes cleared because their next hop has no link.\<close>

definition routes_pruned :: "ctx \<Rightarrow> ctx \<Rightarrow> bool" where
  "routes_pruned s t \<longleftrightarrow> (\<exists>rs. t = s\<lparr>c_routes := rs\<rparr> \<and> length rs = length (c_routes s) \<and>
     (\<forall>i<length rs. rs ! i \<noteq> c_routes s ! i \<longrightarrow> rs ! i = route_zero \<and> \<not> linked_addr (rt_next_hop (c_routes s ! i)) s))"

lemma routes_pruned_refl: "routes_pruned s s"
  unfolding routes_pruned_def by (rule exI [of _ "c_routes s"]) simp

lemma routes_pruned_clear:
  "\<not> linked_addr (rt_next_hop (c_routes s ! i)) s \<Longrightarrow> routes_pruned s (s\<lparr>c_routes := (c_routes s)[i := route_zero]\<rparr>)"
  unfolding routes_pruned_def
proof (intro exI conjI allI impI)
  fix k
  assume "\<not> linked_addr (rt_next_hop (c_routes s ! i)) s" "k < length ((c_routes s)[i := route_zero])"
    "(c_routes s)[i := route_zero] ! k \<noteq> c_routes s ! k"
  then show "(c_routes s)[i := route_zero] ! k = route_zero" "\<not> linked_addr (rt_next_hop (c_routes s ! k)) s"
    by (cases "k = i"; simp)+
qed simp_all

lemma next_hop_cases:
  assumes "lg_route_next_hop final flags s = (hop, t)"
  obtains (up) "hop = lg_parent s" "routes_pruned s t" "has_flag flags LG_DATA_F_UPWARD \<or> \<not> linked_addr final s"
  | (direct) "hop = final" "t = s" "\<not> has_flag flags LG_DATA_F_UPWARD" "linked_addr final s"
  | (via) r where "r \<in> set (c_routes s)" "rt_dst r = final" "rt_next_hop r = hop" "c_now s < rt_expiry_us r"
      "linked_addr hop s" "t = s" "\<not> has_flag flags LG_DATA_F_UPWARD" "\<not> linked_addr final s"
proof (cases "has_flag flags LG_DATA_F_UPWARD")
  case True
  with assms have "hop = lg_parent s" "t = s" by (auto simp: lg_route_next_hop_def)
  with True show thesis by (intro up) (simp_all add: routes_pruned_refl)
next
  case noup: False
  show thesis
  proof (cases "linked_addr final s")
    case True
    with assms noup show thesis by (intro direct) (simp_all add: lg_route_next_hop_def)
  next
    case nolink: False
    show thesis
    proof (cases "route_find final s")
      case None
      with assms noup nolink have "hop = lg_parent s" "t = s" by (auto simp: lg_route_next_hop_def)
      with nolink show thesis by (intro up) (simp_all add: routes_pruned_refl)
    next
      case (Some i)
      let ?r = "c_routes s ! i"
      have i: "i < length (c_routes s)" "rt_dst ?r = final"
        using find_idx_SomeD [OF Some [unfolded route_find_def]] by simp_all
      consider "c_now s < rt_expiry_us ?r" "linked_addr (rt_next_hop ?r) s"
        | "c_now s < rt_expiry_us ?r" "\<not> linked_addr (rt_next_hop ?r) s" | "\<not> c_now s < rt_expiry_us ?r" by blast
      then show thesis
      proof cases
        case 1
        with assms noup nolink Some have "hop = rt_next_hop ?r" "t = s" by (auto simp: lg_route_next_hop_def Let_def)
        with 1 i noup nolink nth_mem [OF i(1)] show thesis by (intro via [of ?r]) simp_all
      next
        case 2
        with assms noup nolink Some have "hop = lg_parent s" "t = s\<lparr>c_routes := (c_routes s)[i := route_zero]\<rparr>"
          by (auto simp: lg_route_next_hop_def Let_def)
        with routes_pruned_clear [OF 2(2)] nolink show thesis by (intro up) simp_all
      next
        case 3
        with assms noup nolink Some have "hop = lg_parent s" "t = s" by (auto simp: lg_route_next_hop_def Let_def)
        with nolink show thesis by (intro up) (simp_all add: routes_pruned_refl)
      qed
    qed
  qed
qed

text \<open>The next hop is always the address of a neighbour with a link, or the null address;
  upward traffic takes a parent; a linked neighbour is its own next hop; an expired route is never
  used; and the choice changes nothing but the one route whose neighbour is gone.\<close>

theorem next_hop_linked:
  assumes "lg_route_next_hop final flags s = (hop, t)"
  shows "(hop = LG_ADDR_INVALID \<or> (\<exists>n\<in>set (c_neigh s). n_state n = LG_NS_LINKED \<and> n_addr n = hop)) \<and>
    (has_flag flags LG_DATA_F_UPWARD \<longrightarrow> hop = lg_parent s) \<and>
    (\<not> has_flag flags LG_DATA_F_UPWARD \<and> linked_addr final s \<longrightarrow> hop = final) \<and>
    (hop \<noteq> lg_parent s \<and> hop \<noteq> final \<longrightarrow>
       (\<exists>r\<in>set (c_routes s). rt_dst r = final \<and> rt_next_hop r = hop \<and> c_now s < rt_expiry_us r)) \<and>
    routes_pruned s t"
  using assms
proof (cases rule: next_hop_cases)
  case up
  with lg_parent_cases [of s] show ?thesis by auto
next
  case direct
  with linked_addrD [OF direct(4)] show ?thesis by (simp add: routes_pruned_refl)
next
  case (via r)
  with linked_addrD [OF via(5)] show ?thesis by (simp add: routes_pruned_refl) blast
qed

theorem next_hop_linked_witness:
  "fst (lg_route_next_hop 40 0 (lg_route_add 40 25 1 demo_mesh)) = 25 \<and>
   (\<exists>n\<in>set (c_neigh demo_mesh). n_state n = LG_NS_LINKED \<and> n_addr n = 25)"
proof -
  let ?s = "lg_route_add 40 25 1 demo_mesh"
  have v: "fst (lg_route_next_hop 40 0 ?s) = 25" "(25::u16) \<noteq> LG_ADDR_INVALID" "c_neigh ?s = c_neigh demo_mesh"
    by code_simp+
  have "lg_route_next_hop 40 0 ?s = (25, snd (lg_route_next_hop 40 0 ?s))" using v(1) by (metis prod.collapse)
  from next_hop_linked [OF this, THEN conjunct1] v show ?thesis by (simp only:) blast
qed

section \<open>The routing table is keyed by destination\<close>

abbreviation route_live :: "route \<Rightarrow> bool" where
  "route_live r \<equiv> rt_dst r \<noteq> LG_ADDR_INVALID"

interpretation rtab: keyed_table c_routes route_live rt_dst route_find "\<lambda>a. a \<noteq> LG_ADDR_INVALID"
proof unfold_locales
  fix k :: u16 and s
  assume "k \<noteq> LG_ADDR_INVALID"
  then have "(\<lambda>r. route_live r \<and> rt_dst r = k) = (\<lambda>r. rt_dst r = k)" by auto
  then show "route_find k s = find_idx (\<lambda>r. route_live r \<and> rt_dst r = k) (c_routes s)"
    by (simp only: route_find_def)
qed

definition routes_ok :: "ctx \<Rightarrow> bool" where
  "routes_ok s \<longleftrightarrow> unique_keys route_live rt_dst (c_routes s)"

lemma route_slot_bound: "route_slot now rs = Some i \<Longrightarrow> i < length rs"
  by (auto simp: route_slot_def dest: find_idx_SomeD pick_idx_SomeD split: option.splits)

lemma route_slot_None: "route_slot now rs = None \<longleftrightarrow> rs = []"
  by (auto simp: route_slot_def find_idx_None_iff pick_idx_None_iff split: option.splits)

lemma route_add_effect:
  assumes "dst \<noteq> LG_ADDR_INVALID" "dst \<noteq> c_addr s" "c_routes s \<noteq> []"
  obtains i r where "i < length (c_routes s)" "route_find dst s = None \<or> route_find dst s = Some i"
    "c_routes (lg_route_add dst via hops s) = (c_routes s)[i := r]" "rt_dst r = dst"
    "rt_expiry_us r = c_now s + LG_ROUTE_LIFETIME_US"
    "route_find dst s = None \<Longrightarrow> route_slot (c_now s) (c_routes s) = Some i"
    "rt_next_hop r = via \<and> rt_hops r = hops \<or> (rt_dst (c_routes s ! i) = dst \<and> c_now s < rt_expiry_us (c_routes s ! i) \<and>
       rt_hops (c_routes s ! i) < hops \<and> rt_next_hop r = rt_next_hop (c_routes s ! i) \<and> rt_hops r = rt_hops (c_routes s ! i))"
proof -
  obtain i where i: "(case route_find dst s of Some i \<Rightarrow> Some i | None \<Rightarrow> route_slot (c_now s) (c_routes s)) = Some i"
    "i < length (c_routes s)" "route_find dst s = None \<or> route_find dst s = Some i"
    "route_find dst s = None \<Longrightarrow> route_slot (c_now s) (c_routes s) = Some i"
  proof (cases "route_find dst s")
    case None
    with assms(3) obtain i where "route_slot (c_now s) (c_routes s) = Some i"
      by (cases "route_slot (c_now s) (c_routes s)") (auto simp: route_slot_None)
    with None route_slot_bound that show thesis by simp
  next
    case (Some i)
    with rtab.lookup_SomeD [OF assms(1) Some] that show thesis by simp
  qed
  let ?r = "c_routes s ! i"
  show thesis
  proof (cases "rt_dst ?r = dst \<and> c_now s < rt_expiry_us ?r \<and> rt_hops ?r < hops")
    case True
    with i assms that [of i "?r\<lparr>rt_expiry_us := c_now s + LG_ROUTE_LIFETIME_US\<rparr>"] show thesis
      by (simp add: lg_route_add_def Let_def)
  next
    case False
    with i assms that [of i "?r\<lparr>rt_dst := dst, rt_next_hop := via, rt_hops := hops, rt_expiry_us := c_now s + LG_ROUTE_LIFETIME_US\<rparr>"]
    show thesis by (simp add: lg_route_add_def Let_def)
  qed
qed

text \<open>Adding a route keeps one entry per destination; the destination is then found, fresh for
  a full lifetime, through the new neighbour unless a live shorter route was kept (whose expiry the
  longer claim renews as well); a live route to another destination is given up only when the table
  holds no free or expired slot.\<close>

theorem route_add_keyed:
  fixes via :: u16 and hops :: u8
  assumes "routes_ok s" "dst \<noteq> LG_ADDR_INVALID" "dst \<noteq> c_addr s" "c_routes s \<noteq> []"
  defines "t \<equiv> lg_route_add dst via hops s"
  shows "routes_ok t \<and>
    (\<exists>i. route_find dst t = Some i \<and> rt_expiry_us (c_routes t ! i) = c_now s + LG_ROUTE_LIFETIME_US \<and>
       (rt_next_hop (c_routes t ! i) = via \<or>
        (rt_expiry_us (c_routes s ! i) > c_now s \<and> rt_hops (c_routes s ! i) < hops \<and>
         rt_next_hop (c_routes t ! i) = rt_next_hop (c_routes s ! i)))) \<and>
    ((\<exists>r\<in>set (c_routes s). rt_dst r = LG_ADDR_INVALID \<or> rt_expiry_us r \<le> c_now s) \<longrightarrow>
       (\<forall>d i. d \<noteq> dst \<and> d \<noteq> LG_ADDR_INVALID \<and> route_find d s = Some i \<and> c_now s < rt_expiry_us (c_routes s ! i) \<longrightarrow>
          route_find d t = Some i))"
proof (rule route_add_effect [OF assms(2-4), of via hops])
  fix i r
  assume i: "i < length (c_routes s)" "route_find dst s = None \<or> route_find dst s = Some i"
    and t: "c_routes (lg_route_add dst via hops s) = (c_routes s)[i := r]"
    and r: "rt_dst r = dst" "rt_expiry_us r = c_now s + LG_ROUTE_LIFETIME_US"
    and slot: "route_find dst s = None \<Longrightarrow> route_slot (c_now s) (c_routes s) = Some i"
    and kept: "rt_next_hop r = via \<and> rt_hops r = hops \<or> (rt_dst (c_routes s ! i) = dst \<and> c_now s < rt_expiry_us (c_routes s ! i) \<and>
       rt_hops (c_routes s ! i) < hops \<and> rt_next_hop r = rt_next_hop (c_routes s ! i) \<and> rt_hops r = rt_hops (c_routes s ! i))"
  have u: "unique_keys route_live rt_dst (c_routes s)" using assms(1) by (simp add: routes_ok_def)
  have tt: "c_routes t = (c_routes s)[i := r]" using t by (simp add: t_def)
  have ok: "routes_ok t" unfolding routes_ok_def by (rule rtab.unique_insert [OF u assms(2) i(2) tt r(1)])
  have found: "route_find dst t = Some i"
    using rtab.lookup_insert_same [OF u assms(2) i(2) tt r(1) _ i(1)] r(1) assms(2) by simp
  have "route_find d t = Some k"
    if stale: "\<exists>r\<in>set (c_routes s). rt_dst r = LG_ADDR_INVALID \<or> rt_expiry_us r \<le> c_now s"
      and d: "d \<noteq> dst" "d \<noteq> LG_ADDR_INVALID" "route_find d s = Some k" "c_now s < rt_expiry_us (c_routes s ! k)" for d k
  proof -
    have k: "k < length (c_routes s)" "rt_dst (c_routes s ! k) = d" using rtab.lookup_SomeD [OF d(2,3)] by simp_all
    have "i \<noteq> k"
    proof (cases "route_find dst s")
      case None
      have "find_idx (\<lambda>r. rt_dst r = LG_ADDR_INVALID \<or> rt_expiry_us r \<le> c_now s) (c_routes s) \<noteq> None"
        using stale unfolding find_idx_None_iff by blast
      then obtain i' where i': "find_idx (\<lambda>r. rt_dst r = LG_ADDR_INVALID \<or> rt_expiry_us r \<le> c_now s) (c_routes s) = Some i'"
        by blast
      with slot [OF None] have "i' = i" by (simp add: route_slot_def)
      with find_idx_SomeD [OF i'] d(2,4) k(2) show ?thesis by auto
    next
      case (Some j)
      with i(2) rtab.lookup_SomeD [OF assms(2) Some] d(1) k(2) show ?thesis by auto
    qed
    then have "c_routes t ! k = c_routes s ! k" "k < length (c_routes t)" using tt k by simp_all
    with rtab.lookup_unique [OF ok [unfolded routes_ok_def] d(2), of k] k d(2) show ?thesis by simp
  qed
  with ok found tt i(1) r(2) kept show ?thesis by auto
qed

theorem route_add_keyed_witness:
  "route_find 40 (lg_route_add 40 25 2 (lg_route_add 40 22 1 demo_mesh)) = Some 0 \<and>
   rt_next_hop (c_routes (lg_route_add 40 25 2 (lg_route_add 40 22 1 demo_mesh)) ! 0) = 22 \<and>
   routes_ok (lg_route_add 40 25 1 demo_mesh)"
proof -
  have "routes_ok demo_mesh"
    by (simp add: routes_ok_def unique_keys_def demo_mesh_def demo_node_def node_zero_def route_zero_def LG_ADDR_INVALID_def)
  moreover have n: "(40::u16) \<noteq> LG_ADDR_INVALID" "40 \<noteq> c_addr demo_mesh" "c_routes demo_mesh \<noteq> []" by code_simp+
  ultimately have "routes_ok (lg_route_add 40 25 1 demo_mesh)" using route_add_keyed by blast
  moreover have "route_find 40 (lg_route_add 40 25 2 (lg_route_add 40 22 1 demo_mesh)) = Some 0"
   "rt_next_hop (c_routes (lg_route_add 40 25 2 (lg_route_add 40 22 1 demo_mesh)) ! 0) = 22" by code_simp+
  ultimately show ?thesis by blast
qed

section \<open>The duplicate cache\<close>

text \<open>The specification: the last sixteen messages recorded, newest first.\<close>

definition dup_recent :: "ctx \<Rightarrow> (u16 \<times> u16) list" where
  "dup_recent s = rev (rotate (c_dup_next s) (c_dup_cache s))"

text \<open>A message is called a duplicate exactly when it is among the last sixteen recorded; a
  new one is recorded, and forgotten only after sixteen others.\<close>

theorem duplicate_is_recent:
  assumes "length (c_dup_cache s) = LG_DUP_CACHE_SIZE" "c_dup_next s < LG_DUP_CACHE_SIZE"
    and "lg_route_is_duplicate origin msg_id s = (dup, t)"
  shows "(dup \<longleftrightarrow> (origin, msg_id) \<in> set (dup_recent s)) \<and>
    dup_recent t = (if dup then dup_recent s else (origin, msg_id) # butlast (dup_recent s)) \<and>
    length (c_dup_cache t) = LG_DUP_CACHE_SIZE \<and> c_dup_next t < LG_DUP_CACHE_SIZE"
proof (cases "(origin, msg_id) \<in> set (c_dup_cache s)")
  case True
  with assms show ?thesis by (auto simp: lg_route_is_duplicate_def dup_recent_def)
next
  case False
  let ?x = "(origin, msg_id)" and ?c = "c_dup_cache s" and ?n = "c_dup_next s"
  have t: "dup = False" "c_dup_cache t = ?c[?n := ?x]" "c_dup_next t = Suc ?n mod 16"
    using assms(3) False by (auto simp: lg_route_is_duplicate_def)
  have split: "?c = take ?n ?c @ ?c ! ?n # drop (Suc ?n) ?c"
    using assms(1,2) by (simp add: id_take_nth_drop)
  have old: "rotate ?n ?c = ?c ! ?n # drop (Suc ?n) ?c @ take ?n ?c"
    using assms(1,2) by (simp add: rotate_drop_take Cons_nth_drop_Suc [symmetric])
  have "rotate (Suc ?n mod 16) (?c[?n := ?x]) = rotate (Suc ?n) (?c[?n := ?x])"
    using rotate_conv_mod [of "Suc ?n" "?c[?n := ?x]"] assms(1) by simp
  also have "\<dots> = rotate1 (rotate ?n (?c[?n := ?x]))" by simp
  also have "rotate ?n (?c[?n := ?x]) = ?x # drop (Suc ?n) ?c @ take ?n ?c"
    using assms(1,2) by (simp add: rotate_drop_take drop_update_swap Cons_nth_drop_Suc [symmetric])
  finally have "rotate (Suc ?n mod 16) (?c[?n := ?x]) = drop (Suc ?n) ?c @ take ?n ?c @ [?x]" by simp
  then have "dup_recent t = ?x # rev (drop (Suc ?n) ?c @ take ?n ?c)" using t by (simp add: dup_recent_def)
  moreover have "butlast (dup_recent s) = rev (drop (Suc ?n) ?c @ take ?n ?c)"
    by (simp add: dup_recent_def old butlast_append)
  ultimately show ?thesis using t assms(1) False by (simp add: dup_recent_def)
qed

theorem duplicate_is_recent_witness:
  "dup_recent (snd (lg_route_is_duplicate 9 4 demo_node)) = (9, 4) # butlast (dup_recent demo_node) \<and>
   fst (lg_route_is_duplicate 9 4 (snd (lg_route_is_duplicate 9 4 demo_node)))"
proof -
  have h: "length (c_dup_cache demo_node) = LG_DUP_CACHE_SIZE" "c_dup_next demo_node < LG_DUP_CACHE_SIZE"
    and v: "\<not> fst (lg_route_is_duplicate 9 4 demo_node)"
      "fst (lg_route_is_duplicate 9 4 (snd (lg_route_is_duplicate 9 4 demo_node)))" by code_simp+
  have "lg_route_is_duplicate 9 4 demo_node = (False, snd (lg_route_is_duplicate 9 4 demo_node))"
    using v(1) by (metis prod.collapse)
  from duplicate_is_recent [OF h this] v(2) show ?thesis by simp
qed

section \<open>Advertisements survive the air\<close>

definition adv_entry :: "neigh \<Rightarrow> u16 \<times> u16" where
  "adv_entry n = (n_addr n, n_link_cost n)"

definition linked_neighs :: "neigh list \<Rightarrow> neigh list" where
  "linked_neighs xs = filter (\<lambda>n. n_state n = LG_NS_LINKED) xs"

lemma get_le16_take: "off + 2 \<le> m \<Longrightarrow> take m b = take m b' \<Longrightarrow> lg_get_le16 b off = lg_get_le16 b' off"
proof -
  assume "off + 2 \<le> m" and eq: "take m b = take m b'"
  then have "b ! off = b' ! off" "b ! (off + 1) = b' ! (off + 1)"
    using nth_take [of off m b] nth_take [of off m b'] nth_take [of "off + 1" m b] nth_take [of "off + 1" m b'] by simp_all
  then show ?thesis by (simp add: lg_get_le16_def)
qed

lemma adv_put:
  fixes a c :: u16
  assumes "off + 4 \<le> length buf"
  defines "b \<equiv> lg_put_le16 (lg_put_le16 buf off a) (off + 2) c"
  shows "lg_get_le16 b off = a" "lg_get_le16 b (off + 2) = c" "length b = length buf" "take off b = take off buf"
proof -
  have l: "length (lg_put_le16 buf off a) = length buf" using assms(1) by simp
  show "length b = length buf" "lg_get_le16 b (off + 2) = c" using l assms(1) by (simp_all add: b_def get_put_le16)
  have "lg_get_le16 b off = lg_get_le16 (lg_put_le16 buf off a) off"
    unfolding b_def lg_put_le16_def [of "lg_put_le16 buf off a"] using l assms(1) by (intro get_le16_blit) simp_all
  with assms(1) show "lg_get_le16 b off = a" by (simp add: get_put_le16)
  show "take off b = take off buf" using l assms(1) by (simp add: b_def lg_put_le16_def)
qed

lemma adv_loop_spec:
  "adv_loop xs cap buf off n = (b, off', n') \<Longrightarrow> cap \<le> length buf \<Longrightarrow> off \<le> cap \<Longrightarrow> n \<le> LG_ADV_MAX_ENTRIES \<Longrightarrow>
   n \<le> n' \<and> n' \<le> LG_ADV_MAX_ENTRIES \<and> off' = off + 4 * (n' - n) \<and> off' \<le> cap \<and> length b = length buf \<and>
   take off b = take off buf \<and>
   adv_entries (n' - n) b off off' = map adv_entry (take (n' - n) (linked_neighs xs)) \<and>
   (n' - n < length (linked_neighs xs) \<longrightarrow> n' = LG_ADV_MAX_ENTRIES \<or> cap < off' + 4) \<and>
   n' - n \<le> length (linked_neighs xs)"
proof (induction xs arbitrary: buf off n)
  case Nil
  then show ?case by (auto simp: linked_neighs_def)
next
  case (Cons x xs)
  show ?case
  proof (cases "LG_ADV_MAX_ENTRIES \<le> n")
    case True
    with Cons.prems show ?thesis by auto
  next
    case room: False
    show ?thesis
    proof (cases "n_state x = LG_NS_LINKED")
      case False
      then have eq: "linked_neighs (x # xs) = linked_neighs xs" by (simp add: linked_neighs_def)
      have "adv_loop xs cap buf off n = (b, off', n')" using Cons.prems(1) room False by simp
      from Cons.IH [OF this Cons.prems(2-4)] show ?thesis unfolding eq .
    next
      case linked: True
      show ?thesis
      proof (cases "cap < off + 4")
        case True
        with Cons.prems room linked show ?thesis by auto
      next
        case False
        let ?buf = "lg_put_le16 (lg_put_le16 buf off (n_addr x)) (off + 2) (n_link_cost x)"
        have fits: "off + 4 \<le> length buf" using False Cons.prems(2) by simp
        note put = adv_put [OF fits, of "n_addr x" "n_link_cost x"]
        have run: "adv_loop xs cap ?buf (off + 4) (n + 1) = (b, off', n')"
          using Cons.prems(1) room linked False by simp
        note ih = Cons.IH [OF run, unfolded put(3)]
        have ih': "n + 1 \<le> n'" "n' \<le> 6" "off' = off + 4 + 4 * (n' - (n + 1))" "off' \<le> cap" "length b = length buf"
          "take (off + 4) b = take (off + 4) ?buf"
          "adv_entries (n' - (n + 1)) b (off + 4) off' = map adv_entry (take (n' - (n + 1)) (linked_neighs xs))"
          "n' - (n + 1) < length (linked_neighs xs) \<longrightarrow> n' = 6 \<or> cap < off' + 4" "n' - (n + 1) \<le> length (linked_neighs xs)"
          using ih False Cons.prems(2,4) room by auto
        obtain k where k: "n' - n = Suc k" "n' - (n + 1) = k" using ih'(1) by (cases "n' - n") auto
        have "lg_get_le16 b off = n_addr x" "lg_get_le16 b (off + 2) = n_link_cost x"
          using get_le16_take [OF _ ih'(6), of off] get_le16_take [OF _ ih'(6), of "off + 2"] put(1,2) by simp_all
        moreover have "take off b = take off buf"
        proof -
          have "take off (take (off + 4) b) = take off (take (off + 4) ?buf)" by (simp only: ih'(6))
          with put(4) show ?thesis by simp
        qed
        ultimately show ?thesis
          using ih' k linked by (auto simp: linked_neighs_def adv_entry_def)
      qed
    qed
  qed
qed

text \<open>An advertisement built in a buffer of at least five bytes fits it, and a receiver reads
  from it the sender's rank and role and the addresses and link costs of its linked neighbours in
  table order: all of them, or as many as six entries or the buffer allow.\<close>

theorem advertisement_roundtrip:
  assumes "5 \<le> cap" "cap \<le> length buf" "lg_route_build_adv buf cap s = (adv, len)"
  defines "m \<equiv> unat (adv ! 4)"
  shows "len \<le> cap \<and> len = 5 + 4 * m \<and> length adv = length buf \<and>
    adv ! 0 = LG_CTRL_ROUTE_ADV \<and> lg_get_le16 adv 1 = c_rank s \<and> adv ! 3 = role_u8 (c_role s) \<and>
    adv_entries m adv 5 len = map adv_entry (take m (linked_neighs (c_neigh s))) \<and>
    m \<le> LG_ADV_MAX_ENTRIES \<and>
    (m < length (linked_neighs (c_neigh s)) \<longrightarrow> m = LG_ADV_MAX_ENTRIES \<or> cap < len + 4)"
proof -
  let ?b1 = "(lg_put_le16 (buf[0 := LG_CTRL_ROUTE_ADV]) 1 (c_rank s))[3 := role_u8 (c_role s)]"
  obtain b2 off n where loop: "adv_loop (c_neigh s) cap ?b1 5 0 = (b2, off, n)"
    by (cases "adv_loop (c_neigh s) cap ?b1 5 0") auto
  have adv: "adv = b2[4 := of_nat n]" "len = off"
    using assms(1,3) loop by (auto simp: lg_route_build_adv_def Let_def)
  have lb: "length ?b1 = length buf" using assms(1,2) by simp
  have sp: "n \<le> 6" "off = 5 + 4 * n" "off \<le> cap" "length b2 = length buf" "take 5 b2 = take 5 ?b1"
    "adv_entries n b2 5 off = map adv_entry (take n (linked_neighs (c_neigh s)))"
    "n < length (linked_neighs (c_neigh s)) \<longrightarrow> n = 6 \<or> cap < off + 4"
    using adv_loop_spec [OF loop, unfolded lb minus_nat.diff_0, OF assms(2,1)] by blast+
  have same: "adv_entries k (b2[4 := v]) o' l = adv_entries k b2 o' l" if "5 \<le> o'" for k v o' l
    using that by (induction k arbitrary: o') (auto simp: lg_get_le16_def)
  have m: "m = n" using sp(1,4) assms(1,2) by (simp add: m_def adv(1) unat_of_nat_small)
  have at: "b2 ! i = ?b1 ! i" if "i < 5" for i using sp(5) nth_take [OF that, of b2] nth_take [OF that, of ?b1] by simp
  have pos: "0 < length buf" using assms(1,2) by linarith
  have "adv ! 0 = LG_CTRL_ROUTE_ADV" "adv ! 3 = role_u8 (c_role s)"
    using at [of 0] at [of 3] assms(1,2) nth_list_update_eq [OF pos, of LG_CTRL_ROUTE_ADV] by (simp_all add: adv(1) lg_put_le16_def nth_blit_before)
  moreover have "lg_get_le16 adv 1 = c_rank s"
  proof -
    have "lg_get_le16 adv 1 = lg_get_le16 (lg_put_le16 (buf[0 := LG_CTRL_ROUTE_ADV]) 1 (c_rank s)) 1"
      using at [of 1] at [of "Suc 1"] by (simp add: adv(1) lg_get_le16_def)
    with assms(1,2) show ?thesis by (simp add: get_put_le16)
  qed
  ultimately show ?thesis using sp adv same [of 5 n "of_nat n" len] by (simp add: m)
qed

theorem advertisement_roundtrip_witness:
  "adv_entries 4 (fst (lg_route_build_adv (replicate 40 0) 40 demo_mesh)) 5 21 =
     [(21, 16), (22, 16), (24, 16), (25, 20)] \<and> snd (lg_route_build_adv (replicate 40 0) 40 demo_mesh) = 21"
proof -
  let ?r = "lg_route_build_adv (replicate 40 0) 40 demo_mesh"
  have v: "snd ?r = 21" "unat (fst ?r ! 4) = 4"
    "map adv_entry (take 4 (linked_neighs (c_neigh demo_mesh))) = [(21, 16), (22, 16), (24, 16), (25, 20)]"
    by code_simp+
  then have "?r = (fst ?r, 21)" by (metis prod.collapse)
  from advertisement_roundtrip [OF _ _ this] have "adv_entries 4 (fst ?r) 5 21 =
      map adv_entry (take 4 (linked_neighs (c_neigh demo_mesh)))" by (simp add: v(2))
  with v show ?thesis by simp
qed

end
