(* ===== verification/LG_Disc.thy ===== *)
theory LG_Disc
  imports LG_Env LG_Route
begin

text \<open>
  Discovery (\<open>lg_disc.c\<close>): when to beacon, scan and track, the staging and transmission of the three
  beacon copies, and the handlers of the beacon, scan and tracking events. The reception of a beacon
  starts handshakes and is in \<open>LG_Join\<close>.
\<close>

abbreviation (input) LG_RDV_SLOTS :: nat where "LG_RDV_SLOTS \<equiv> 3"
abbreviation (input) LG_BEACON_COPY_GAP_US :: u32 where "LG_BEACON_COPY_GAP_US \<equiv> 600"
abbreviation (input) LG_JOIN_OFFSET_US :: u32 where "LG_JOIN_OFFSET_US \<equiv> 5000"
abbreviation (input) LG_JOIN_TRAIN_US :: u32 where "LG_JOIN_TRAIN_US \<equiv> 9500"
abbreviation (input) LG_JOIN_CONTEND_SLOTS :: u32 where "LG_JOIN_CONTEND_SLOTS \<equiv> 4"
abbreviation (input) LG_TRACK_MARGIN_US :: u64 where "LG_TRACK_MARGIN_US \<equiv> 1500"
abbreviation (input) LG_JOINER_HINT_LIFETIME_US :: u64 where "LG_JOINER_HINT_LIFETIME_US \<equiv> 5000000"
abbreviation (input) LG_JOIN_OFFER_GRACE_US :: u64 where "LG_JOIN_OFFER_GRACE_US \<equiv> 90000000"

definition LG_JOIN_WINDOW_US :: u32 where
  "LG_JOIN_WINDOW_US = LG_JOIN_CONTEND_SLOTS * LG_JOIN_TRAIN_US + 2000"

section \<open>Rendezvous channels and jitter\<close>

definition lg_disc_rdv_chan :: "nat \<Rightarrow> ctx \<Rightarrow> u8" where
  "lg_disc_rdv_chan slot s = [15, 20, 25, 26] ! unat ((c_network_id s + of_nat slot) AND 3)"

definition jitter :: "u32 \<Rightarrow> ctx \<Rightarrow> u32 \<times> ctx" where
  "jitter nominal s =
    (let span = nominal div 2
     in if span = 0 then (nominal, s)
        else let (r, s1) = sys_rand32_get s in (nominal - span div 2 + r mod span, s1))"

section \<open>What to do next\<close>

definition should_beacon :: "ctx \<Rightarrow> bool" where
  "should_beacon s \<longleftrightarrow> c_role s \<noteq> LG_ROLE_LEAF \<or> \<not> lg_has_route s"

definition short_of_links :: "ctx \<Rightarrow> bool" where
  "short_of_links s \<longleftrightarrow> lg_neigh_linked_count s < cfg_min_links_target (c_cfg s)"

definition worth_tracking :: "ctx \<Rightarrow> neigh \<Rightarrow> bool" where
  "worth_tracking s n \<longleftrightarrow>
     \<not> (n_next_beacon_us n = 0 \<or> n_state n = LG_NS_LINKED \<or> n_state n = LG_NS_JOINING) \<and>
     \<not> 3 \<le> n_join_retries n \<and>
     (\<not> lg_has_route s \<or> short_of_links s \<or>
      (n_peer_rank n \<noteq> LG_RANK_INFINITE \<and> unat (n_peer_rank n) + 4 < unat (c_rank s)))"

definition tracking_someone :: "ctx \<Rightarrow> bool" where
  "tracking_someone s \<longleftrightarrow> list_ex (worth_tracking s) (c_neigh s)"

definition scan_interval_us :: "ctx \<Rightarrow> u32" where
  "scan_interval_us s =
    (if c_want_addr s \<noteq> LG_ADDR_INVALID \<and> c_now s < c_want_until_us s then tn_scan_unattached_us (c_tune s)
     else if tracking_someone s then tn_scan_seeking_us (c_tune s)
     else if \<not> lg_has_route s then tn_scan_unattached_us (c_tune s)
     else if short_of_links s then tn_scan_seeking_us (c_tune s)
     else tn_scan_attached_us (c_tune s))"

definition lg_disc_init :: "ctx \<Rightarrow> ctx" where
  "lg_disc_init s =
    (let now = c_now s;
         (j1, s1) = jitter 20000 s;
         s2 = s1\<lparr>c_next_scan_us := now + ucast j1\<rparr>;
         s3 = (if should_beacon s2
               then let (j2, s') = jitter (tn_beacon_interval_us (c_tune s2)) s2
                    in s'\<lparr>c_next_beacon_us := now + ucast j2\<rparr>
               else s2\<lparr>c_next_beacon_us := UINT64_MAX\<rparr>)
     in s3\<lparr>c_scan_chan_idx := 0, c_beacons_heard := 0, c_join_win_us := 0, c_last_join_window_us := 0,
           c_link_change_us := now, c_beacon_epoch := 0, c_beacon_copy_idx := 0\<rparr>)"

definition lg_disc_retune :: "ctx \<Rightarrow> ctx" where
  "lg_disc_retune s =
    (let now = c_now s;
         interval = scan_interval_us s;
         s1 = (if now + ucast interval < c_next_scan_us s
               then let (j, s') = jitter interval s in s'\<lparr>c_next_scan_us := now + ucast j\<rparr>
               else s);
         s2 = (if \<not> should_beacon s1 then s1\<lparr>c_next_beacon_us := UINT64_MAX\<rparr>
               else if c_next_beacon_us s1 = UINT64_MAX
               then let (j, s') = jitter (tn_beacon_interval_us (c_tune s1)) s1
                    in s'\<lparr>c_next_beacon_us := now + ucast j\<rparr>
               else s1)
     in if c_want_addr s2 \<noteq> LG_ADDR_INVALID \<and> c_want_until_us s2 \<le> now
        then s2\<lparr>c_want_addr := LG_ADDR_INVALID\<rparr> else s2)"

definition lg_disc_next_beacon_us :: "ctx \<Rightarrow> u64" where
  "lg_disc_next_beacon_us s = (if \<not> should_beacon s then UINT64_MAX else c_next_beacon_us s)"

definition lg_disc_next_scan_us :: "ctx \<Rightarrow> u64" where
  "lg_disc_next_scan_us s = c_next_scan_us s"

text \<open>One round of the loop: the best time, whose it is, and the state (stale predictions cleared).\<close>

definition next_track_step :: "u64 \<times> nat option \<times> ctx \<Rightarrow> nat \<Rightarrow> u64 \<times> nat option \<times> ctx" where
  "next_track_step acc i =
    (case acc of (best, out, s) \<Rightarrow>
       let n = nb s i
       in if \<not> worth_tracking s n then (best, out, s)
          else if n_next_beacon_us n < c_now s then (best, out, upd_neigh i (\<lambda>n. n\<lparr>n_next_beacon_us := 0\<rparr>) s)
          else if n_next_beacon_us n < best then (n_next_beacon_us n, Some i, s)
          else (best, out, s))"

definition lg_disc_next_track_us :: "ctx \<Rightarrow> u64 \<times> nat option \<times> ctx" where
  "lg_disc_next_track_us s = foldl next_track_step (UINT64_MAX, None, s) [0..<length (c_neigh s)]"

definition lg_disc_track_result :: "nat option \<Rightarrow> bool \<Rightarrow> ctx \<Rightarrow> ctx" where
  "lg_disc_track_result ni heard s =
    (case ni of
       None \<Rightarrow> s
     | Some i \<Rightarrow>
         if heard then upd_neigh i (\<lambda>n. n\<lparr>n_track_misses := 0\<rparr>) s
         else upd_neigh i (\<lambda>n.
           let n1 = n\<lparr>n_track_misses := n_track_misses n + 1\<rparr>
           in if 3 \<le> n_track_misses n1 then n1\<lparr>n_next_beacon_us := 0, n_track_misses := 0\<rparr>
              else n1\<lparr>n_next_beacon_us := 0\<rparr>) s)"

section \<open>Beacons\<close>

definition join_window_worthwhile :: "ctx \<Rightarrow> bool" where
  "join_window_worthwhile s \<longleftrightarrow>
    (if c_joiner_hint_us s \<noteq> 0 \<and> c_now s - c_joiner_hint_us s < LG_JOINER_HINT_LIFETIME_US then True
     else if \<not> lg_has_route s then False
     else if short_of_links s \<and> c_now s - c_link_change_us s < LG_JOIN_OFFER_GRACE_US then True
     else ucast (tn_join_window_floor_us (c_tune s)) \<le> c_now s - c_last_join_window_us s)"

definition beacon_air_us :: u32 where
  "beacon_air_us = LG_AIRTIME_US (of_nat (LG_HDR_LEN + LG_BEACON_SIZE + LG_BEACON_MIC_LEN))"

text \<open>Start of copy \<open>i\<close> after the first, and the air time from there to the end of the last copy.\<close>

definition beacon_copy_off :: "nat \<Rightarrow> u32" where
  "beacon_copy_off i = of_nat i * (beacon_air_us + LG_BEACON_COPY_GAP_US)"

definition beacon_air_left :: "nat \<Rightarrow> u32" where
  "beacon_air_left i = foldl (\<lambda>t j. let t1 = t + beacon_air_us
      in if j < LG_RDV_SLOTS - 1 then t1 + LG_BEACON_COPY_GAP_US else t1) 0 [i..<LG_RDV_SLOTS]"

definition beacon_body :: "ctx \<Rightarrow> u8 \<Rightarrow> bool \<Rightarrow> nat \<Rightarrow> lg_beacon" where
  "beacon_body s linked offers i = \<lparr>b_network_id = c_network_id s,
     b_epoch = c_beacon_epoch s, b_rank = c_rank s, b_chan_map = c_chan_map s,
     b_role = role_u8 (c_role s), b_link_count = linked,
     b_link_capacity = (if linked < cfg_max_links (c_cfg s) then cfg_max_links (c_cfg s) - linked else 0),
     b_join_offset_us = ucast (beacon_air_left i + LG_JOIN_OFFSET_US),
     b_join_window_us = (if offers then ucast LG_JOIN_WINDOW_US else 0),
     b_next_beacon_offset_us = ucast (c_beacon_planned_us s - (c_next_beacon_us s + ucast (beacon_copy_off i)))\<rparr>"

text \<open>One round of the staging loop; \<open>lg_sec_beacon_seal\<close> leaves the network state alone.\<close>

definition beacon_stage_copy :: "(nat \<Rightarrow> lg_beacon) \<Rightarrow> ctx \<Rightarrow> nat \<Rightarrow> ctx" where
  "beacon_stage_copy b s i =
    (let (pdu, len0, chan) = c_beacon_copy s ! i;
         (pdu1, hdr_len) = lg_frame_hdr_put pdu (c_netid16 s) LG_FT_BEACON 0 LG_ADDR_BROADCAST (c_addr s);
         pdu2 = blit pdu1 hdr_len (beacon_bytes (b i))
     in case lg_sec_beacon_seal s pdu2 (hdr_len + LG_BEACON_SIZE) of
          (Inl _, pdu3) \<Rightarrow> s\<lparr>c_beacon_copy := (c_beacon_copy s)[i := (pdu3, 0, chan)]\<rparr>
        | (Inr len, pdu3) \<Rightarrow> s\<lparr>c_beacon_copy := (c_beacon_copy s)[i := (pdu3, len, lg_disc_rdv_chan i s)]\<rparr>)"

definition beacon_stage :: "ctx \<Rightarrow> ctx" where
  "beacon_stage s =
    (let linked = lg_neigh_linked_count s;
         s1 = s\<lparr>c_beacon_epoch := c_beacon_epoch s + 1\<rparr>;
         offers = (linked < cfg_max_links (c_cfg s) \<and> join_window_worthwhile s1);
         s2 = s1\<lparr>c_beacon_offers_join := offers\<rparr>
     in foldl (beacon_stage_copy (beacon_body s linked offers)) s2 [0..<LG_RDV_SLOTS])"

definition beacon_urgent :: "ctx \<Rightarrow> bool" where
  "beacon_urgent s \<longleftrightarrow>
    (if \<not> lg_has_route s \<or> short_of_links s then True
     else c_joiner_hint_us s \<noteq> 0 \<and> c_now s - c_joiner_hint_us s < LG_JOINER_HINT_LIFETIME_US)"

definition beacon_interval_us :: "ctx \<Rightarrow> u32" where
  "beacon_interval_us s =
    (let nominal = tn_beacon_interval_us (c_tune s)
     in if beacon_urgent s then nominal else nominal * ucast (tn_beacon_idle_factor (c_tune s)))"

definition lg_disc_beacon_finish :: "ctx \<Rightarrow> ctx" where
  "lg_disc_beacon_finish s =
    (let interval = beacon_interval_us s; now = c_now s;
         s1 = (if now + 2000 < c_beacon_planned_us s then s\<lparr>c_next_beacon_us := c_beacon_planned_us s\<rparr>
               else let (j, s') = jitter interval s in s'\<lparr>c_next_beacon_us := now + ucast j\<rparr>);
         (j2, s2) = jitter interval s1;
         s3 = s2\<lparr>c_beacon_planned_us := c_next_beacon_us s2 + ucast j2\<rparr>
     in beacon_stage (s3\<lparr>c_beacons_heard := 0\<rparr>))"

text \<open>Sending copy \<open>i\<close>, when it was staged: whether the driver took it.\<close>

definition send_copy :: "nat \<Rightarrow> u64 \<Rightarrow> ctx \<Rightarrow> bool \<times> ctx" where
  "send_copy i at_us s =
    (case c_beacon_copy s ! i of (pdu, len, chan) \<Rightarrow>
       if len = 0 then (False, s) else lg_phy_tx_at at_us chan pdu len s)"

definition beacon_start :: "ctx \<Rightarrow> ctx" where
  "beacon_start s =
    (let s1 = (lg_power_activity LG_PWR_ACT_BEACON s)\<lparr>c_beacon_copy_idx := 0\<rparr>
     in if cfg_beacon_suppress_threshold (c_cfg s1) \<le> c_beacons_heard s1
        then lg_sched_event_done (s1\<lparr>c_beacons_heard := 0\<rparr>)
        else case send_copy 0 (ev_anchor_us (c_ev s1)) s1 of
               (True, s2) \<Rightarrow> s2 | (False, s2) \<Rightarrow> lg_sched_event_done s2)"

definition beacon_close :: "u64 \<Rightarrow> ctx \<Rightarrow> ctx" where
  "beacon_close air_end_us s =
    lg_sched_event_done (if c_beacon_offers_join s
      then s\<lparr>c_join_win_us := air_end_us + ucast LG_JOIN_OFFSET_US, c_last_join_window_us := c_now s\<rparr> else s)"

definition beacon_tx_done :: "u64 \<Rightarrow> ctx \<Rightarrow> ctx" where
  "beacon_tx_done air_end_us s =
    (let s1 = upd_stats (\<lambda>st. st\<lparr>st_beacons_tx := st_beacons_tx st + 1\<rparr>)
               (s\<lparr>c_beacon_copy_idx := c_beacon_copy_idx s + 1\<rparr>);
         k = unat (c_beacon_copy_idx s1)
     in if k < LG_RDV_SLOTS
        then case send_copy k (air_end_us + ucast LG_BEACON_COPY_GAP_US) s1 of
               (True, s2) \<Rightarrow> s2 | (False, s2) \<Rightarrow> beacon_close air_end_us s2
        else beacon_close air_end_us s1)"

definition beacon_rx_fail :: "phy_rx_fail \<Rightarrow> ctx \<Rightarrow> ctx" where
  "beacon_rx_fail reason s = lg_sched_event_done s"

definition beacon_aborted :: "ctx \<Rightarrow> ctx" where
  "beacon_aborted s = s"

section \<open>Scanning\<close>

definition scan_start :: "ctx \<Rightarrow> ctx" where
  "scan_start s =
    (let s1 = upd_stats (\<lambda>st. st\<lparr>st_scans := st_scans st + 1\<rparr>) (lg_power_activity LG_PWR_ACT_SCAN s);
         ev = c_ev s1
     in case lg_phy_rx_window (ev_anchor_us ev) (ev_close_us ev) (ev_chan ev) s1 of
          (True, s2) \<Rightarrow> s2 | (False, s2) \<Rightarrow> lg_sched_event_done s2)"

text \<open>Keep listening until the window closes, or finish the event.\<close>

definition scan_continue :: "ctx \<Rightarrow> ctx" where
  "scan_continue s =
    (let ev = c_ev s
     in if c_now s + LG_SYNC_WINDOW_US < ev_close_us ev
        then case lg_phy_rx_window (c_now s + ucast LG_RAMPUP_US + 20) (ev_close_us ev) (ev_chan ev) s of
               (True, s1) \<Rightarrow> s1 | (False, s1) \<Rightarrow> lg_sched_event_done s1
        else lg_sched_event_done s)"

definition scan_rx_done :: "phy_rx \<Rightarrow> ctx \<Rightarrow> ctx" where
  "scan_rx_done rx s =
    (let s1 = lg_rx_post (px_pdu rx) (px_len rx) (px_rssi rx) (ev_chan (c_ev s)) (px_air_start_us rx) s
     in if c_want_addr s1 \<noteq> LG_ADDR_INVALID \<and> lg_get_le16 (px_pdu rx) LG_OFF_SRC = c_want_addr s1
        then lg_sched_event_done (s1\<lparr>c_want_addr := LG_ADDR_INVALID\<rparr>)
        else scan_continue s1)"

definition scan_rx_fail :: "phy_rx_fail \<Rightarrow> ctx \<Rightarrow> ctx" where
  "scan_rx_fail reason s = (if reason \<noteq> LG_PHY_RX_TIMEOUT then scan_continue s else lg_sched_event_done s)"

definition scan_aborted :: "ctx \<Rightarrow> ctx" where
  "scan_aborted s = s"

definition lg_disc_scan_finish :: "ctx \<Rightarrow> ctx" where
  "lg_disc_scan_finish s =
    (let s1 = s\<lparr>c_scan_chan_idx := (c_scan_chan_idx s + 1) mod of_nat LG_RDV_SLOTS\<rparr>;
         (j, s2) = jitter (scan_interval_us s1) s1
     in s2\<lparr>c_next_scan_us := c_now s2 + ucast j\<rparr>)"

section \<open>Tracking one router\<close>

definition track_start :: "ctx \<Rightarrow> ctx" where
  "track_start s =
    (let s1 = upd_stats (\<lambda>st. st\<lparr>st_tracked_beacons := st_tracked_beacons st + 1\<rparr>) (lg_power_activity LG_PWR_ACT_SCAN s);
         ev = c_ev s1
     in case lg_phy_rx_window (ev_anchor_us ev - LG_TRACK_MARGIN_US) (ev_close_us ev) (ev_chan ev) s1 of
          (True, s2) \<Rightarrow> s2 | (False, s2) \<Rightarrow> lg_sched_event_done s2)"

definition track_rx_done :: "phy_rx \<Rightarrow> ctx \<Rightarrow> ctx" where
  "track_rx_done rx s =
    (let s1 = lg_rx_post (px_pdu rx) (px_len rx) (px_rssi rx) (ev_chan (c_ev s)) (px_air_start_us rx) s
     in lg_sched_event_done (lg_disc_track_result (ev_neigh (c_ev s1)) True s1))"

definition track_rx_fail :: "phy_rx_fail \<Rightarrow> ctx \<Rightarrow> ctx" where
  "track_rx_fail reason s = lg_sched_event_done (lg_disc_track_result (ev_neigh (c_ev s)) False s)"

definition track_aborted :: "ctx \<Rightarrow> ctx" where
  "track_aborted s = lg_disc_track_result (ev_neigh (c_ev s)) False s"

section \<open>Who initiates\<close>

definition candidate_is_useful :: "ctx \<Rightarrow> lg_beacon \<Rightarrow> u16 \<Rightarrow> int \<Rightarrow> bool" where
  "candidate_is_useful s b src rssi \<longleftrightarrow>
    (if b_role b = role_u8 LG_ROLE_LEAF \<or> b_link_capacity b = 0 then False
     else if rssi < cfg_chan_noise_floor_dbm (c_cfg s) - 10 then False
     else if b_rank b = LG_RANK_INFINITE then False
     else if c_role s = LG_ROLE_BACKHAUL then False
     else if \<not> lg_has_route s then True
     else if short_of_links s
     then (if b_rank b = c_rank s then src < c_addr s else b_rank b < c_rank s)
     else unat (b_rank b) + 4 < unat (c_rank s))"

section \<open>Properties\<close>

lemma jitter_bounds:
  assumes "jitter nominal s = (j, t)" "unat nominal \<le> 3000000000"
  shows "unat nominal - unat nominal div 4 \<le> unat j" "unat j \<le> unat nominal + unat nominal div 4"
proof -
  let ?n = "unat nominal" and ?span = "unat nominal div 2" and ?r = "unat (c_rng s (c_rng_n s))"
  have span: "unat (nominal div 2) = ?span" by (simp add: unat_div)
  have "?n - ?n div 4 \<le> unat j \<and> unat j \<le> ?n + ?n div 4"
  proof (cases "nominal div 2 = 0")
    case True
    with assms(1) show ?thesis by (simp add: jitter_def)
  next
    case False
    then have pos: "0 < ?span" using span by (metis unat_gt_0)
    let ?m = "?r mod ?span"
    have m: "?m < ?span" using pos by simp
    have j: "j = nominal - nominal div 2 div 2 + c_rng s (c_rng_n s) mod (nominal div 2)"
      using assms(1) False by (simp add: jitter_def Let_def sys_rand32_get_def)
    have d: "unat (nominal div 2 div 2) = ?n div 4" by (simp add: unat_div div_mult2_eq [symmetric])
    then have a: "unat (nominal - nominal div 2 div 2) = ?n - ?n div 4"
      by (subst unat_sub) (simp_all add: word_le_nat_alt)
    have b: "unat (c_rng s (c_rng_n s) mod (nominal div 2)) = ?m" by (simp add: unat_mod span)
    have "unat j = ?n - ?n div 4 + ?m"
      unfolding j by (subst unat_add_small) (use a b m assms(2) in simp_all)
    with m show ?thesis by (simp; linarith)
  qed
  then show "?n - ?n div 4 \<le> unat j" "unat j \<le> ?n + ?n div 4" by simp_all
qed

text \<open>The three copies of a beacon, sent back to back as the event sends them, all name the
  same moment for the join window, the one the router opens it at; and all predict the next beacon
  at the moment planned for it, when that is less than 71 minutes ahead.\<close>

theorem beacon_copies_agree:
  fixes s :: ctx
  assumes "i < LG_RDV_SLOTS"
  defines "start \<equiv> c_next_beacon_us s + ucast (beacon_copy_off i)"
    and "last_end \<equiv> c_next_beacon_us s + ucast (beacon_copy_off 2) + ucast beacon_air_us"
  shows "start + ucast (b_join_offset_us (beacon_body s linked offers i)) =
      c_join_win_us (beacon_close last_end (s\<lparr>c_beacon_offers_join := True\<rparr>)) \<and>
    (Suc i < LG_RDV_SLOTS \<longrightarrow> start + ucast beacon_air_us + ucast LG_BEACON_COPY_GAP_US =
      c_next_beacon_us s + ucast (beacon_copy_off (Suc i))) \<and>
    (c_beacon_planned_us s - start < 2 ^ 32 \<longrightarrow>
      start + ucast (b_next_beacon_offset_us (beacon_body s linked offers i)) = c_beacon_planned_us s)"
proof -
  have win: "c_join_win_us (beacon_close last_end (s\<lparr>c_beacon_offers_join := True\<rparr>)) = last_end + 5000"
    by (simp add: beacon_close_def lg_sched_event_done_def lg_phy_stop_def lg_ts_release_def upd_ts_def Let_def)
  have air: "beacon_air_us = 1376" by code_simp
  have off: "beacon_copy_off 0 = 0" "beacon_copy_off (Suc 0) = 1976" "beacon_copy_off 2 = 3952"
    "beacon_copy_off (Suc (Suc 0)) = 3952"
    by (simp_all add: beacon_copy_off_def air)
  have left: "beacon_air_left 0 = 5328" "beacon_air_left (Suc 0) = 3352" "beacon_air_left 2 = 1376"
    by code_simp+
  have i: "i = 0 \<or> i = Suc 0 \<or> i = 2" using assms(1) by linarith
  have "(ucast (ucast d :: u32) :: u64) = d" if "d < 2 ^ 32" for d :: u64
    using that by (intro word_unat_eq_iff [THEN iffD2])
      (simp add: unat_ucast_up unat_ucast_small word_less_nat_alt)
  then have "c_beacon_planned_us s - start < 2 ^ 32 \<longrightarrow>
      start + ucast (b_next_beacon_offset_us (beacon_body s linked offers i)) = c_beacon_planned_us s"
    by (simp add: beacon_body_def start_def)
  with i show ?thesis unfolding win
    by (elim disjE) (simp_all add: beacon_body_def start_def last_end_def off left air)
qed

theorem beacon_copies_agree_witness:
  "c_next_beacon_us demo_node + ucast (beacon_copy_off 1) + ucast (b_join_offset_us (beacon_body demo_node 2 True 1)) =
   c_join_win_us (beacon_close (c_next_beacon_us demo_node + ucast (beacon_copy_off 2) + ucast beacon_air_us)
     (demo_node\<lparr>c_beacon_offers_join := True\<rparr>))"
  using beacon_copies_agree [of 1 demo_node 2 True] by simp

text \<open>Of two nodes hearing each other's current beacons, at most one considers starting the
  handshake, whatever their links and signal strengths, so neither is ever the joiner and the
  router at once.\<close>

theorem candidate_antisymmetric:
  assumes "candidate_is_useful s (beacon_body t lt ot i) (c_addr t) rssi_s"
  shows "\<not> candidate_is_useful t (beacon_body s ls os j) (c_addr s) rssi_t"
proof -
  have rank: "b_rank (beacon_body q l o' k) = c_rank q" for q l o' k by (simp add: beacon_body_def)
  have order: "c_rank q \<noteq> LG_RANK_INFINITE \<and> (c_rank q < c_rank p \<or> c_rank p = LG_RANK_INFINITE \<or>
      (c_rank q = c_rank p \<and> c_addr q < c_addr p))" if "candidate_is_useful p (beacon_body q l o' k) (c_addr q) r" for p q l o' k r
    using that by (auto simp: candidate_is_useful_def rank lg_has_route_def word_less_nat_alt split: if_splits)
  from order [OF assms] order [of t s ls os j rssi_t] show ?thesis by auto
qed

definition demo_router :: "u16 \<Rightarrow> u16 \<Rightarrow> ctx" where
  "demo_router addr rank = demo_node\<lparr>c_addr := addr, c_role := LG_ROLE_ROUTER, c_rank := rank\<rparr>"

theorem candidate_antisymmetric_witness:
  "candidate_is_useful (demo_router 9 30) (beacon_body (demo_router 5 30) 1 True 0) 5 (-60) \<and>
   \<not> candidate_is_useful (demo_router 5 30) (beacon_body (demo_router 9 30) 1 True 0) 9 (-60)"
proof -
  have c: "candidate_is_useful (demo_router 9 30) (beacon_body (demo_router 5 30) 1 True 0) (c_addr (demo_router 5 30)) (-60)"
    and a: "c_addr (demo_router 9 30) = 9" "c_addr (demo_router 5 30) = 5" by code_simp+
  from candidate_antisymmetric [OF c, of 1 True 0 "-60"] c show ?thesis unfolding a by (rule conjI [rotated])
qed

text \<open>The interval product is not bounded: these settings, which \<open>lg_tuning_set\<close> accepts, make it 0.\<close>

lemma beacon_interval_can_wrap:
  assumes "\<not> beacon_urgent s" "tn_beacon_interval_us (c_tune s) = 0x4000000" "tn_beacon_idle_factor (c_tune s) = 64"
  shows "beacon_interval_us s = 0"
  using assms by (simp add: beacon_interval_us_def Let_def)

end
