(* ===== verification/LG_Tuning.thy ===== *)
theory LG_Tuning
  imports LG_Disc
begin

text \<open>
  Run-time tuning (\<open>lg_core.c\<close>): the ceiling on the subrate factor, the defaults, and the
  validation of what the application sets.
\<close>

definition lg_subrate_ceiling :: "u32 \<Rightarrow> u32 \<Rightarrow> u8" where
  "lg_subrate_ceiling interval_us sup_timeout_us =
    (if interval_us = 0 \<or> sup_timeout_us = 0 then 1
     else let mx = sup_timeout_us div (interval_us * 3);
              mx1 = (if mx < 1 then 1 else mx)
          in ucast (min mx1 32))"

definition lg_tuning_init :: "ctx \<Rightarrow> ctx" where
  "lg_tuning_init s =
    (let c = c_cfg s;
         t = \<lparr>tn_conn_interval_us = cfg_conn_interval_ms c * 1000, tn_subrate_max = cfg_subrate_max c,
              tn_sup_timeout_us = cfg_supervision_timeout_ms c * 1000,
              tn_scan_unattached_us = cfg_scan_interval_unattached_ms c * 1000,
              tn_scan_seeking_us = cfg_scan_interval_seeking_ms c * 1000,
              tn_scan_attached_us = cfg_scan_interval_attached_ms c * 1000,
              tn_scan_window_us = cfg_scan_window_us c,
              tn_beacon_interval_us = cfg_beacon_interval_ms c * 1000,
              tn_beacon_idle_factor = cfg_beacon_idle_factor c,
              tn_join_window_floor_us = cfg_join_window_floor_ms c * 1000\<rparr>
     in s\<lparr>c_tune := t\<lparr>tn_subrate_max := min (tn_subrate_max t)
            (lg_subrate_ceiling (tn_conn_interval_us t) (tn_sup_timeout_us t))\<rparr>\<rparr>)"

definition lg_tuning_get :: "ctx \<Rightarrow> tuning" where
  "lg_tuning_get s = c_tune s"

text \<open>The copy \<open>n\<close> that \<open>lg_tuning_set\<close> brings into range.\<close>

definition tuning_clamp :: "config \<Rightarrow> tuning \<Rightarrow> tuning" where
  "tuning_clamp c t0 =
    (let t1 = t0\<lparr>tn_conn_interval_us := CLAMP (tn_conn_interval_us t0)
                  (cfg_conn_interval_min_ms c * 1000) (cfg_conn_interval_max_ms c * 1000)\<rparr>;
         t2 = t1\<lparr>tn_sup_timeout_us := max (tn_sup_timeout_us t1) (tn_conn_interval_us t1 * 4)\<rparr>;
         t3 = t2\<lparr>tn_subrate_max := max 1 (min (tn_subrate_max t2)
                  (lg_subrate_ceiling (tn_conn_interval_us t2) (tn_sup_timeout_us t2)))\<rparr>;
         t4 = t3\<lparr>tn_scan_window_us := max (tn_scan_window_us t3) 2000\<rparr>;
         t5 = t4\<lparr>tn_scan_unattached_us := max (tn_scan_unattached_us t4) (tn_scan_window_us t4)\<rparr>;
         t6 = t5\<lparr>tn_scan_seeking_us := max (tn_scan_seeking_us t5) (tn_scan_window_us t5)\<rparr>;
         t7 = t6\<lparr>tn_scan_attached_us := max (tn_scan_attached_us t6) (tn_scan_window_us t6)\<rparr>;
         t8 = t7\<lparr>tn_beacon_interval_us := max (tn_beacon_interval_us t7) 100000\<rparr>
     in t8\<lparr>tn_beacon_idle_factor := max 1 (tn_beacon_idle_factor t8)\<rparr>)"

definition lg_tuning_set :: "tuning option \<Rightarrow> ctx \<Rightarrow> (errno + unit) \<times> ctx" where
  "lg_tuning_set t s =
    (case t of
       None \<Rightarrow> (Inl EINVAL, s)
     | Some t0 \<Rightarrow> (Inr (), lg_sched_kick (lg_disc_retune (s\<lparr>c_tune := tuning_clamp (c_cfg s) t0\<rparr>))))"

section \<open>Three events fit in the supervision timeout\<close>

lemma ceiling_room:
  assumes "0 < unat interval" "3 * unat interval < 2 ^ 32" "3 * unat interval \<le> unat sv"
  shows "unat (lg_subrate_ceiling interval sv) * (3 * unat interval) \<le> unat sv"
    "1 \<le> unat (lg_subrate_ceiling interval sv)" "unat (lg_subrate_ceiling interval sv) \<le> 32"
proof -
  have ne: "interval \<noteq> 0" "sv \<noteq> 0" using assms by (auto simp: unat_gt_0 [symmetric])
  have m3: "unat (interval * 3) = 3 * unat interval"
    using assms(2) by (subst unat_mult_small) (simp_all add: mult.commute)
  let ?q = "sv div (interval * 3)"
  have q: "unat ?q = unat sv div (3 * unat interval)" by (simp only: unat_div m3)
  have q1: "1 \<le> unat ?q" using assms(1,3) by (simp add: q div_greater_zero_iff Suc_le_eq)
  then have n1: "\<not> ?q < 1" by (simp add: word_less_nat_alt)
  have mn: "unat (min ?q 32) = min (unat ?q) 32"
    by (simp add: min_def word_le_nat_alt)
  then have v: "unat (lg_subrate_ceiling interval sv) = min (unat ?q) 32"
    using ne n1 by (simp add: lg_subrate_ceiling_def Let_def unat_ucast_small)
  show "1 \<le> unat (lg_subrate_ceiling interval sv)" "unat (lg_subrate_ceiling interval sv) \<le> 32"
    using q1 by (simp_all add: v)
  have "min (unat ?q) 32 * (3 * unat interval) \<le> unat ?q * (3 * unat interval)" by simp
  also have "\<dots> \<le> unat sv" by (simp only: q div_times_less_eq_dividend)
  finally show "unat (lg_subrate_ceiling interval sv) * (3 * unat interval) \<le> unat sv" by (simp only: v)
qed

text \<open>Retuning writes four fields; whatever does not depend on them is unchanged.\<close>

lemma jitter_field:
  assumes "\<And>u k. f (u\<lparr>c_rng_n := k\<rparr>) = f u" "jitter n s = (j, t)"
  shows "f t = f s"
  using assms(2) by (auto simp: jitter_def sys_rand32_get_def Let_def assms(1) split: if_splits)

lemma retune_field:
  assumes "\<And>u x. f (u\<lparr>c_rng_n := x\<rparr>) = f u" "\<And>u x. f (u\<lparr>c_next_scan_us := x\<rparr>) = f u"
    "\<And>u x. f (u\<lparr>c_next_beacon_us := x\<rparr>) = f u" "\<And>u x. f (u\<lparr>c_want_addr := x\<rparr>) = f u"
  shows "f (lg_disc_retune s) = f s"
proof -
  have j: "jitter n u = (k, v) \<Longrightarrow> f v = f u" for n u k v
    by (rule jitter_field [OF assms(1)])
  show ?thesis
    by (cases "jitter (scan_interval_us s) s")
      (auto simp: lg_disc_retune_def Let_def assms split: prod.splits dest!: j)
qed

lemma kick_field: "(\<And>u x. f (u\<lparr>c_work_sched := x\<rparr>) = f u) \<Longrightarrow> f (lg_sched_kick s) = f s"
  by (simp add: lg_sched_kick_def)

lemma tune_set_result: "c_tune (snd (lg_tuning_set (Some t0) s)) = tuning_clamp (c_cfg s) t0"
  by (simp add: lg_tuning_set_def kick_field [of c_tune] retune_field [of c_tune])

lemma CLAMP_between: "lo \<le> hi \<Longrightarrow> lo \<le> CLAMP v lo hi \<and> CLAMP v lo hi \<le> hi"
  by (auto simp: CLAMP_def)

text \<open>C40: whatever the application sets, the tuning that takes effect keeps the connection interval
  inside the configured range and the largest subrate low enough that an idle link still wakes at
  least three times within the supervision timeout, and every scan interval holds a scan window.\<close>

theorem tuning_keeps_supervision:
  fixes s :: ctx and t0 :: tuning
  assumes "cfg_ok (c_cfg s)"
  defines "t \<equiv> c_tune (snd (lg_tuning_set (Some t0) s))"
  shows "cfg_conn_interval_min_ms (c_cfg s) * 1000 \<le> tn_conn_interval_us t \<and>
    tn_conn_interval_us t \<le> cfg_conn_interval_max_ms (c_cfg s) * 1000 \<and>
    1 \<le> unat (tn_subrate_max t) \<and> unat (tn_subrate_max t) \<le> 32 \<and>
    unat (tn_subrate_max t) * (3 * unat (tn_conn_interval_us t)) \<le> unat (tn_sup_timeout_us t) \<and>
    tn_scan_window_us t \<le> min (tn_scan_unattached_us t) (min (tn_scan_seeking_us t) (tn_scan_attached_us t))"
proof -
  let ?c = "c_cfg s" and ?i = "tn_conn_interval_us t" and ?sv = "tn_sup_timeout_us t"
  have t: "t = tuning_clamp ?c t0" by (simp add: t_def tune_set_result)
  have mn: "10 \<le> unat (cfg_conn_interval_min_ms ?c)" "unat (cfg_conn_interval_max_ms ?c) \<le> 32000"
    "unat (cfg_conn_interval_min_ms ?c) \<le> unat (cfg_conn_interval_max_ms ?c)"
    using assms(1) by (simp_all add: cfg_ok_def word_le_nat_alt)
  then have w: "unat (cfg_conn_interval_min_ms ?c * 1000) = unat (cfg_conn_interval_min_ms ?c) * 1000"
    "unat (cfg_conn_interval_max_ms ?c * 1000) = unat (cfg_conn_interval_max_ms ?c) * 1000"
    by (simp_all add: unat_mult_small)
  then have le: "cfg_conn_interval_min_ms ?c * 1000 \<le> cfg_conn_interval_max_ms ?c * 1000"
    using mn by (simp add: word_le_nat_alt)
  have iv: "?i = CLAMP (tn_conn_interval_us t0) (cfg_conn_interval_min_ms ?c * 1000) (cfg_conn_interval_max_ms ?c * 1000)"
    and sv: "?sv = max (tn_sup_timeout_us t0) (?i * 4)"
    and sr: "tn_subrate_max t = max 1 (min (tn_subrate_max t0) (lg_subrate_ceiling ?i ?sv))"
    and sc: "tn_scan_window_us t \<le> min (tn_scan_unattached_us t) (min (tn_scan_seeking_us t) (tn_scan_attached_us t))"
    by (simp_all add: t tuning_clamp_def Let_def)
  have range: "cfg_conn_interval_min_ms ?c * 1000 \<le> ?i" "?i \<le> cfg_conn_interval_max_ms ?c * 1000"
    using CLAMP_between [OF le] by (simp_all add: iv)
  then have i: "0 < unat ?i" "unat ?i \<le> 32000000" using w mn by (simp_all add: word_le_nat_alt)
  then have "unat (?i * 4) = unat ?i * 4" by (simp add: unat_mult_small)
  then have s4: "unat ?i * 4 \<le> unat ?sv" unfolding sv by (simp add: max_def word_le_nat_alt)
  note room = ceiling_room [of ?i ?sv]
  have c: "unat (lg_subrate_ceiling ?i ?sv) * (3 * unat ?i) \<le> unat ?sv"
    "1 \<le> unat (lg_subrate_ceiling ?i ?sv)" "unat (lg_subrate_ceiling ?i ?sv) \<le> 32"
    using room i s4 by simp_all
  have "unat (tn_subrate_max t) \<le> unat (lg_subrate_ceiling ?i ?sv)" "1 \<le> unat (tn_subrate_max t)"
    unfolding sr using c(2) by (auto simp: max_def min_def word_le_nat_alt)
  moreover from this(1) have "unat (tn_subrate_max t) * (3 * unat ?i) \<le> unat (lg_subrate_ceiling ?i ?sv) * (3 * unat ?i)"
    by (rule mult_le_mono1)
  ultimately show ?thesis using range c sc by linarith
qed

theorem tuning_keeps_supervision_witness:
  "unat (tn_subrate_max (c_tune (snd (lg_tuning_set (Some tuning_zero) demo_node)))) \<le> 32"
  using tuning_keeps_supervision [of demo_node tuning_zero]
  by (simp add: demo_node_def node_zero_def cfg_ok_default)

end
