(* ===== verification/LG_Role.thy ===== *)
theory LG_Role
  imports LG_Disc
begin

text \<open>
  The role a node takes (\<open>lg_role.c\<close>), and the handling of received route advertisements and
  registrations with the gossip they carry (\<open>lg_route.c\<close>).
\<close>

abbreviation (input) LG_UNROUTED_LIFETIME_US :: u64 where "LG_UNROUTED_LIFETIME_US \<equiv> 20000000"
abbreviation (input) LG_ROLE_DWELL_US :: u64 where "LG_ROLE_DWELL_US \<equiv> 15000000"
abbreviation (input) LG_WANT_TIMEOUT_US :: u64 where "LG_WANT_TIMEOUT_US \<equiv> 20000000"
abbreviation (input) LG_GOSSIP_SEEK_MARGIN :: nat where "LG_GOSSIP_SEEK_MARGIN \<equiv> 8"

section \<open>Roles\<close>

definition routers_heard :: "ctx \<Rightarrow> u8" where
  "routers_heard s = of_nat (length (filter (\<lambda>n. n_state n \<noteq> LG_NS_FREE \<and>
     \<not> (n_role n = role_u8 LG_ROLE_LEAF \<or> n_peer_rank n = LG_RANK_INFINITE)) (c_neigh s)))"

definition has_children :: "ctx \<Rightarrow> bool" where
  "has_children s \<longleftrightarrow> list_ex (\<lambda>r. rt_dst r \<noteq> LG_ADDR_INVALID \<and> c_now s < rt_expiry_us r) (c_routes s)"

definition unrouted_nearby :: "ctx \<Rightarrow> bool" where
  "unrouted_nearby s \<longleftrightarrow> c_unrouted_seen_us s \<noteq> 0 \<and> c_now s - c_unrouted_seen_us s < LG_UNROUTED_LIFETIME_US"

definition role_apply :: "role \<Rightarrow> ctx \<Rightarrow> ctx" where
  "role_apply want s =
    (if want = c_role s then s
     else
       let s1 = upd_stats (\<lambda>st. st\<lparr>st_role_changes := st_role_changes st + 1\<rparr>)
                  (s\<lparr>c_role := want, c_role_changed_us := c_now s\<rparr>);
           s2 = snd (lg_route_recompute s1)
       in lg_notify LG_EVT_ROLE_CHANGED (c_addr s2) (lg_sched_kick (lg_disc_retune s2)))"

definition lg_role_init :: "ctx \<Rightarrow> ctx" where
  "lg_role_init s =
    (let s1 = s\<lparr>c_unrouted_seen_us := 0, c_role_changed_us := 0\<rparr>
     in if c_backhaul_active s1 then s1\<lparr>c_role := LG_ROLE_BACKHAUL, c_rank := 0\<rparr>
        else s1\<lparr>c_role := LG_ROLE_LEAF, c_rank := LG_RANK_INFINITE\<rparr>)"

definition in_dwell :: "ctx \<Rightarrow> bool" where
  "in_dwell s \<longleftrightarrow> c_role_changed_us s \<noteq> 0 \<and> c_now s - c_role_changed_us s < LG_ROLE_DWELL_US"

definition lg_role_evaluate :: "ctx \<Rightarrow> ctx" where
  "lg_role_evaluate s =
    (if \<not> c_started s then s
     else if c_backhaul_active s then role_apply LG_ROLE_BACKHAUL s
     else if c_role s = LG_ROLE_BACKHAUL then role_apply LG_ROLE_ROUTER s
     else if in_dwell s then s
     else if c_role s = LG_ROLE_LEAF
     then if \<not> lg_has_route s then s
          else if unrouted_nearby s then role_apply LG_ROLE_ROUTER s
          else if routers_heard s < cfg_router_density_target (c_cfg s) then role_apply LG_ROLE_ROUTER s
          else s
     else if has_children s \<or> unrouted_nearby s then s
     else if cfg_router_density_target (c_cfg s) < routers_heard s then role_apply LG_ROLE_LEAF s
     else s)"

definition lg_role_note_unrouted :: "ctx \<Rightarrow> ctx" where
  "lg_role_note_unrouted s = s\<lparr>c_unrouted_seen_us := c_now s\<rparr>"

definition lg_backhaul_set :: "bool \<Rightarrow> ctx \<Rightarrow> ctx" where
  "lg_backhaul_set uplink_up s =
    (if c_backhaul_active s = uplink_up then s
     else let s1 = s\<lparr>c_backhaul_active := uplink_up\<rparr>
          in if c_started s1 then lg_role_evaluate (s1\<lparr>c_role_changed_us := 0\<rparr>) else s1)"

section \<open>Hearsay\<close>

fun gossip_slot :: "u16 \<Rightarrow> gossip list \<Rightarrow> nat list \<Rightarrow> nat option \<Rightarrow> nat option" where
  "gossip_slot addr gs [] slot = slot"
| "gossip_slot addr gs (i # is) slot =
     (if gs_addr (gs ! i) = addr then Some i
      else if gs_addr (gs ! i) = LG_ADDR_INVALID then gossip_slot addr gs is (Some i)
      else if (case slot of None \<Rightarrow> True | Some k \<Rightarrow> gs_heard_us (gs ! i) < gs_heard_us (gs ! k))
      then gossip_slot addr gs is (Some i)
      else gossip_slot addr gs is slot)"

definition gossip_record :: "u16 \<Rightarrow> u16 \<Rightarrow> ctx \<Rightarrow> ctx" where
  "gossip_record addr rank s =
    (if addr = c_addr s \<or> addr = LG_ADDR_INVALID \<or> lg_neigh_find addr s \<noteq> None then s
     else case gossip_slot addr (c_gossip s) [0..<length (c_gossip s)] None of
            None \<Rightarrow> s
          | Some k \<Rightarrow> s\<lparr>c_gossip := (c_gossip s)[k := \<lparr>gs_addr = addr, gs_rank = rank, gs_heard_us = c_now s\<rparr>]\<rparr>)"

definition worth_seeking :: "ctx \<Rightarrow> gossip \<Rightarrow> bool" where
  "worth_seeking s g \<longleftrightarrow> gs_addr g \<noteq> LG_ADDR_INVALID \<and>
     \<not> (gs_rank g = LG_RANK_INFINITE \<or> lg_neigh_find (gs_addr g) s \<noteq> None) \<and>
     \<not> (c_rank s \<noteq> LG_RANK_INFINITE \<and> unat (c_rank s) \<le> unat (gs_rank g) + LG_GOSSIP_SEEK_MARGIN)"

definition gossip_consider_seeking :: "ctx \<Rightarrow> ctx" where
  "gossip_consider_seeking s =
    (if c_want_addr s \<noteq> LG_ADDR_INVALID \<and> c_now s < c_want_until_us s then s
     else case pick_idx (worth_seeking s) (\<lambda>x y. gs_rank x < gs_rank y) (c_gossip s) of
            None \<Rightarrow> s
          | Some k \<Rightarrow> lg_disc_retune (s\<lparr>c_want_addr := gs_addr (c_gossip s ! k),
                        c_want_until_us := c_now s + LG_WANT_TIMEOUT_US\<rparr>))"

section \<open>Advertisements and registrations\<close>

definition adv_entry_step :: "nat \<Rightarrow> u16 \<Rightarrow> u16 \<times> u16 \<Rightarrow> ctx \<Rightarrow> ctx" where
  "adv_entry_step i peer_rank e s =
    (case e of (addr, cost) \<Rightarrow>
       let s1 = (if peer_rank \<noteq> LG_RANK_INFINITE
                 then gossip_record addr (ucast (min ((ucast peer_rank :: u32) + ucast cost) (RANK_INF32 - 1))) s
                 else s)
       in if c_rank s1 < peer_rank \<and> c_rank s1 \<noteq> LG_RANK_INFINITE
          then lg_route_add addr (n_addr (nb s1 i)) 2 s1 else s1)"

definition lg_route_handle_adv :: "nat \<Rightarrow> u8 list \<Rightarrow> nat \<Rightarrow> ctx \<Rightarrow> ctx" where
  "lg_route_handle_adv i buf len s =
    (if len < 5 then s
     else
       let peer_rank = lg_get_le16 buf 1;
           s1 = upd_neigh i (\<lambda>n. n\<lparr>n_role := buf ! 3, n_peer_rank := peer_rank, n_route_adv_us := c_now s\<rparr>) s;
           s2 = fold (adv_entry_step i peer_rank) (adv_entries (unat (buf ! 4)) buf 5 len) s1;
           (changed, s3) = lg_route_recompute s2;
           s4 = (if changed then lg_notify LG_EVT_PARENT_CHANGED (lg_parent s3) s3 else s3)
       in gossip_consider_seeking s4)"

fun reg_entries :: "nat \<Rightarrow> u8 list \<Rightarrow> nat \<Rightarrow> nat \<Rightarrow> u16 list" where
  "reg_entries 0 buf off len = []"
| "reg_entries (Suc k) buf off len =
     (if off + 2 \<le> len then lg_get_le16 buf off # reg_entries k buf (off + 2) len else [])"

definition lg_route_handle_reg :: "nat \<Rightarrow> u8 list \<Rightarrow> nat \<Rightarrow> ctx \<Rightarrow> ctx" where
  "lg_route_handle_reg i buf len s =
    (if len < 2 then s
     else fold (\<lambda>a s. lg_route_add a (n_addr (nb s i)) 1 s) (reg_entries (unat (buf ! 1)) buf 2 len) s)"

section \<open>What role changes leave alone\<close>

text \<open>The fields the role logic reads and writes.\<close>

definition role_view :: "ctx \<Rightarrow> role \<times> bool \<times> bool \<times> u64" where
  "role_view s = (c_role s, c_backhaul_active s, c_started s, c_role_changed_us s)"

lemma jitter_view: "role_view (snd (jitter n s)) = role_view s"
  by (simp add: jitter_def sys_rand32_get_def Let_def role_view_def)

lemma retune_view [simp]: "role_view (lg_disc_retune s) = role_view s"
proof -
  have j: "jitter n u = (k, v) \<Longrightarrow> role_view v = role_view u" for n u k v
    using jitter_view [of n u] by simp
  show ?thesis
    by (cases "jitter (scan_interval_us s) s")
      (auto simp: lg_disc_retune_def Let_def split: prod.splits dest!: j simp: role_view_def)
qed

lemma kick_view [simp]: "role_view (lg_sched_kick s) = role_view s"
  by (simp add: lg_sched_kick_def role_view_def)

lemma notify_view [simp]: "role_view (lg_notify e a s) = role_view s"
  by (simp add: lg_notify_def role_view_def)

lemma mark_view [simp]: "role_view (mark_parent s e) = role_view s"
  by (cases e; cases "snd e") (simp_all add: mark_parent_def upd_neigh_def role_view_def)

lemma mark_fold_view [simp]: "role_view (foldl mark_parent s es) = role_view s"
  by (induction es arbitrary: s) simp_all

lemma recompute_view [simp]: "role_view (snd (lg_route_recompute s)) = role_view s"
  using mark_fold_view [of "clear_parents s" "best_hysteresis s (lg_parent s) (best_loop s)"]
  by (simp add: lg_route_recompute_def Let_def clear_parents_def upd_stats_def role_view_def lg_notify_def)

lemma role_apply_view:
  "role_view (role_apply want s) = (if want = c_role s then role_view s
     else (want, c_backhaul_active s, c_started s, c_now s))"
proof (cases "want = c_role s")
  case False
  let ?s1 = "upd_stats (\<lambda>st. st\<lparr>st_role_changes := st_role_changes st + 1\<rparr>) (s\<lparr>c_role := want, c_role_changed_us := c_now s\<rparr>)"
  have "role_view (role_apply want s) = role_view (snd (lg_route_recompute ?s1))"
    using False by (simp add: role_apply_def Let_def)
  with False show ?thesis by (simp, simp add: role_view_def upd_stats_def)
qed (simp add: role_apply_def)

lemma role_apply_role: "c_role (role_apply w s) = w"
  using role_apply_view [of w s] by (auto simp: role_view_def split: if_splits)

lemma evaluate_rule: "P s \<Longrightarrow> (\<And>w. P (role_apply w s)) \<Longrightarrow> P (lg_role_evaluate s)"
  by (simp add: lg_role_evaluate_def)

lemma evaluate_view:
  assumes "c_started s"
  shows "role_view (lg_role_evaluate s) = role_view s \<or>
    role_view (lg_role_evaluate s) = (c_role (lg_role_evaluate s), c_backhaul_active s, True, c_now s)"
    "c_role (lg_role_evaluate s) = LG_ROLE_BACKHAUL \<longleftrightarrow> c_backhaul_active s"
    "c_role (lg_role_evaluate s) \<noteq> c_role s \<Longrightarrow> c_backhaul_active s \<or> c_role s = LG_ROLE_BACKHAUL \<or> \<not> in_dwell s"
proof -
  show "role_view (lg_role_evaluate s) = role_view s \<or>
    role_view (lg_role_evaluate s) = (c_role (lg_role_evaluate s), c_backhaul_active s, True, c_now s)"
    by (rule evaluate_rule [where P = "\<lambda>t. role_view t = role_view s \<or>
          role_view t = (c_role t, c_backhaul_active s, True, c_now s)"])
      (use assms in \<open>simp_all add: role_apply_view role_apply_role\<close>)
  show "c_role (lg_role_evaluate s) = LG_ROLE_BACKHAUL \<longleftrightarrow> c_backhaul_active s"
    using assms by (auto simp: lg_role_evaluate_def role_apply_role)
  show "c_role (lg_role_evaluate s) \<noteq> c_role s \<Longrightarrow> c_backhaul_active s \<or> c_role s = LG_ROLE_BACKHAUL \<or> \<not> in_dwell s"
    using assms by (auto simp: lg_role_evaluate_def split: if_splits)
qed

section \<open>The life of a role\<close>

text \<open>
  A started node, with the instants at which it changed role since the uplink last came or went,
  newest first. The rest of the node moves freely between the role decisions, forward in time,
  and touches none of the fields of \<open>role_view\<close>.
\<close>

inductive role_reach :: "ctx \<Rightarrow> u64 list \<Rightarrow> bool" where
  role_start: "\<not> c_started s \<Longrightarrow> 0 < c_now s \<Longrightarrow> role_reach (lg_role_init s\<lparr>c_started := True\<rparr>) []"
| role_other: "role_reach s ts \<Longrightarrow> role_view t = role_view s \<Longrightarrow> c_now s \<le> c_now t \<Longrightarrow> role_reach t ts"
| role_decide: "role_reach s ts \<Longrightarrow> t = lg_role_evaluate s \<Longrightarrow> c_now t = c_now s \<Longrightarrow>
    role_reach t (if c_role t = c_role s then ts else c_now s # ts)"
| role_uplink: "role_reach s ts \<Longrightarrow> t = lg_backhaul_set up s \<Longrightarrow> c_now t = c_now s \<Longrightarrow>
    role_reach t (if c_backhaul_active s = up then ts else [c_now s])"

inductive_cases role_reach_startE: "role_reach s []"

definition role_inv :: "ctx \<Rightarrow> u64 list \<Rightarrow> bool" where
  "role_inv s ts \<longleftrightarrow> c_started s \<and> 0 < c_now s \<and> c_role_changed_us s \<le> c_now s \<and>
     (c_role s = LG_ROLE_BACKHAUL \<longleftrightarrow> c_backhaul_active s) \<and>
     c_role_changed_us s = (if ts = [] then 0 else hd ts) \<and> 0 \<notin> set ts \<and>
     successively (\<lambda>new old. old \<le> new \<and> LG_ROLE_DWELL_US \<le> new - old) ts"

lemma role_inv_decide:
  assumes inv: "role_inv s ts" and now: "c_now (lg_role_evaluate s) = c_now s"
  shows "role_inv (lg_role_evaluate s) (if c_role (lg_role_evaluate s) = c_role s then ts else c_now s # ts)"
proof (cases "c_role (lg_role_evaluate s) = c_role s")
  case True
  have "role_view (lg_role_evaluate s) = role_view s"
    using True unfolding lg_role_evaluate_def by (auto simp: role_apply_role role_apply_view split: if_splits)
  with inv now True show ?thesis by (cases ts) (simp_all add: role_inv_def role_view_def)
next
  case False
  let ?t = "lg_role_evaluate s"
  from inv have st: "c_started s" by (simp add: role_inv_def)
  note ev = evaluate_view [OF st]
  from ev(1) False have v: "role_view ?t = (c_role ?t, c_backhaul_active s, True, c_now s)"
    by (auto simp: role_view_def)
  have "\<not> in_dwell s" using ev(2) ev(3) [OF False] False inv by (cases "c_role s"; cases "c_role ?t") (auto simp: role_inv_def)
  with inv have "ts = [] \<or> LG_ROLE_DWELL_US \<le> c_now s - hd ts"
    by (cases ts) (auto simp: in_dwell_def role_inv_def)
  then show ?thesis using inv v ev(2) now False
    by (cases ts) (auto simp: role_inv_def role_view_def)
qed

lemma role_inv_uplink:
  assumes inv: "role_inv s ts" and now: "c_now (lg_backhaul_set up s) = c_now s"
  shows "role_inv (lg_backhaul_set up s) (if c_backhaul_active s = up then ts else [c_now s])"
proof (cases "c_backhaul_active s = up")
  case True
  with inv show ?thesis by (simp add: lg_backhaul_set_def)
next
  case False
  let ?s = "s\<lparr>c_backhaul_active := up, c_role_changed_us := 0\<rparr>"
  have t: "lg_backhaul_set up s = lg_role_evaluate ?s" "c_started ?s"
    using False inv by (simp_all add: lg_backhaul_set_def role_inv_def)
  have "c_role (lg_role_evaluate ?s) \<noteq> c_role ?s"
    using evaluate_view(2) [OF t(2)] inv False by (auto simp: role_inv_def)
  then have "role_view (lg_role_evaluate ?s) = (c_role (lg_role_evaluate ?s), up, True, c_now s)"
    using evaluate_view(1) [OF t(2)] by (auto simp: role_view_def)
  then show ?thesis using evaluate_view(2) [OF t(2)] inv now False unfolding t(1)
    by (simp add: role_inv_def role_view_def word_gt_0)
qed

lemma role_reach_inv: "role_reach s ts \<Longrightarrow> role_inv s ts"
proof (induction rule: role_reach.induct)
  case (role_start s)
  then show ?case by (simp add: role_inv_def lg_role_init_def Let_def)
next
  case (role_other s ts t)
  then show ?case by (auto simp: role_inv_def role_view_def)
next
  case (role_decide s ts t)
  then show ?case using role_inv_decide by simp
next
  case (role_uplink s ts t up)
  then show ?case using role_inv_uplink by simp
qed

text \<open>C39: however role decisions, uplink changes and everything else interleave, a started node is
  backhaul exactly while it has an uplink, and between two uplink changes its role changes are at
  least the 15 seconds of the dwell time apart, so two nodes cannot chase each other's role.\<close>

theorem role_never_flaps:
  assumes "role_reach s ts"
  shows "(c_role s = LG_ROLE_BACKHAUL \<longleftrightarrow> c_backhaul_active s) \<and>
    successively (\<lambda>new old. old \<le> new \<and> LG_ROLE_DWELL_US \<le> new - old) ts"
  using role_reach_inv [OF assms] by (simp add: role_inv_def)

definition demo_start :: ctx where
  "demo_start = lg_role_init (demo_node\<lparr>c_now := 5\<rparr>)\<lparr>c_started := True\<rparr>"

definition demo_uplink :: ctx where
  "demo_uplink = lg_backhaul_set True demo_start"

theorem role_never_flaps_witness: "c_role demo_uplink = LG_ROLE_BACKHAUL"
proof -
  have start: "role_reach demo_start []"
    unfolding demo_start_def by (rule role_start) (simp_all add: demo_node_def node_zero_def)
  have same: "c_now demo_uplink = 5" "c_backhaul_active demo_uplink" "c_now demo_start = 5" by code_simp+
  have "c_now demo_uplink = c_now demo_start" using same by simp
  then have "role_reach demo_uplink (if c_backhaul_active demo_start = True then [] else [c_now demo_start])"
    by (rule role_uplink [OF start demo_uplink_def])
  from role_never_flaps [OF this, THEN conjunct1] same show ?thesis by blast
qed

end
