(* ===== verification/LG_Queue.thy ===== *)
theory LG_Queue
  imports LG_Tuning LG_Role
begin

text \<open>
  The transmit queue (\<open>lg_core.c\<close>): which queued message a link sends next, the queueing of new and
  forwarded messages, and the expediting of an event (\<open>lg_link.c\<close>).
\<close>

abbreviation (input) LG_EXPEDITE_LEAD_US :: u64 where "LG_EXPEDITE_LEAD_US \<equiv> 3000"

definition LG_TX_URGENT :: u8 where "LG_TX_URGENT = 2"

section \<open>The queue\<close>

definition msg_next_hop :: "txmsg \<Rightarrow> ctx \<Rightarrow> u16 \<times> ctx" where
  "msg_next_hop m s =
    (if has_flag (m_flags m) LG_DATA_F_BROADCAST then (m_final m, s)
     else lg_route_next_hop (m_final m) (m_flags m) s)"

definition peek_step :: "u16 \<Rightarrow> nat option \<times> ctx \<Rightarrow> nat \<Rightarrow> nat option \<times> ctx" where
  "peek_step peer acc i =
    (case acc of (oldest, s) \<Rightarrow>
       let m = c_txq s ! i
       in if \<not> m_used m then (oldest, s)
          else case msg_next_hop m s of (hop, s1) \<Rightarrow>
            if hop \<noteq> peer then (oldest, s1)
            else if (case oldest of None \<Rightarrow> True | Some k \<Rightarrow> m_enqueued_us m < m_enqueued_us (c_txq s ! k))
            then (Some i, s1) else (oldest, s1))"

definition lg_txq_peek :: "u16 \<Rightarrow> ctx \<Rightarrow> nat option \<times> ctx" where
  "lg_txq_peek peer s = foldl (peek_step peer) (None, s) [0..<length (c_txq s)]"

definition lg_txq_pending :: "u16 \<Rightarrow> ctx \<Rightarrow> bool \<times> ctx" where
  "lg_txq_pending peer s = (case lg_txq_peek peer s of (m, t) \<Rightarrow> (m \<noteq> None, t))"

definition lg_txq_free :: "nat \<Rightarrow> ctx \<Rightarrow> ctx" where
  "lg_txq_free i s = s\<lparr>c_txq := (c_txq s)[i := txmsg_zero]\<rparr>"

definition txq_alloc :: "ctx \<Rightarrow> nat option" where
  "txq_alloc s = find_idx (\<lambda>m. \<not> m_used m) (c_txq s)"

section \<open>Sending\<close>

definition lg_sched_expedite :: "nat \<Rightarrow> ctx \<Rightarrow> ctx" where
  "lg_sched_expedite i s =
    (if n_state (nb s i) \<noteq> LG_NS_LINKED then s
     else if \<not> n_initiator (nb s i) then s
     else let soon = c_now s + LG_EXPEDITE_LEAD_US
          in if soon < n_anchor_us (nb s i)
             then lg_sched_kick (upd_neigh i (\<lambda>n. n\<lparr>n_anchor_us := soon, n_subrate := 1\<rparr>) s)
             else s)"

text \<open>Filling the slot \<open>m\<close>.\<close>

definition txq_fill :: "nat \<Rightarrow> u16 \<Rightarrow> u16 \<Rightarrow> u8 \<Rightarrow> u8 list \<Rightarrow> nat \<Rightarrow> u8 \<Rightarrow> u8 \<Rightarrow> u16 \<Rightarrow> ctx \<Rightarrow> ctx" where
  "txq_fill i origin final port buf len flags hops msg_id s =
    s\<lparr>c_txq := (c_txq s)[i := (c_txq s ! i)\<lparr>m_used := True, m_origin := origin, m_final := final,
        m_flags := flags, m_port := port, m_hops := hops, m_msg_id := msg_id, m_len := len,
        m_enqueued_us := c_now s, m_payload := blit (m_payload (c_txq s ! i)) 0 (take len buf)\<rparr>]\<rparr>"

text \<open>The broadcast loop over the neighbours, with the number of copies queued.\<close>

fun broadcast_loop :: "u16 \<Rightarrow> u8 \<Rightarrow> u8 list \<Rightarrow> nat \<Rightarrow> u8 \<Rightarrow> u8 \<Rightarrow> u16 \<Rightarrow> nat list \<Rightarrow> nat \<Rightarrow> ctx \<Rightarrow> nat \<times> ctx" where
  "broadcast_loop origin port buf len flags hops msg_id [] sent s = (sent, s)"
| "broadcast_loop origin port buf len flags hops msg_id (i # is) sent s =
     (if n_state (nb s i) \<noteq> LG_NS_LINKED then broadcast_loop origin port buf len flags hops msg_id is sent s
      else case txq_alloc s of
        None \<Rightarrow> (sent, s)
      | Some k \<Rightarrow> broadcast_loop origin port buf len flags hops msg_id is (sent + 1)
          (lg_sched_expedite i (txq_fill k origin (n_addr (nb s i)) port buf len flags hops msg_id s)))"

definition lg_send_forward ::
    "u16 \<Rightarrow> u16 \<Rightarrow> u8 \<Rightarrow> u8 list \<Rightarrow> nat \<Rightarrow> u8 \<Rightarrow> u8 \<Rightarrow> u16 \<Rightarrow> ctx \<Rightarrow> (errno + unit) \<times> ctx" where
  "lg_send_forward origin final port buf len flags hops msg_id s =
    (if LG_PAYLOAD_MAX < len then (Inl EMSGSIZE, s)
     else if \<not> c_started s then (Inl EAGAIN, s)
     else if has_flag flags LG_DATA_F_BROADCAST
     then case broadcast_loop origin port buf len flags hops msg_id [0..<length (c_neigh s)] 0 s of
            (sent, t) \<Rightarrow> (if sent \<noteq> 0 then Inr () else Inl ENOTCONN, t)
     else case lg_route_next_hop final flags s of (hop, s1) \<Rightarrow>
       if hop = LG_ADDR_INVALID then (Inl ENOTCONN, s1)
       else case txq_alloc s1 of
         None \<Rightarrow> (Inl ENOMEM, s1)
       | Some k \<Rightarrow> (Inr (), txq_fill k origin final port buf len flags hops msg_id s1))"

definition lg_send :: "u16 \<Rightarrow> u8 \<Rightarrow> u8 list \<Rightarrow> nat \<Rightarrow> u8 \<Rightarrow> ctx \<Rightarrow> (errno + unit) \<times> ctx" where
  "lg_send dst port buf len flags s =
    (let dflags = (if dst = LG_ADDR_BACKHAUL then LG_DATA_F_UPWARD
                   else if dst = LG_ADDR_BROADCAST then LG_DATA_F_BROADCAST else 0)
     in case lg_send_forward (c_addr s) dst port buf len dflags 0 (c_msg_id_next s)
               (s\<lparr>c_msg_id_next := c_msg_id_next s + 1\<rparr>) of
          (Inl e, t) \<Rightarrow> (Inl e, t)
        | (Inr _, t) \<Rightarrow>
            let t1 = (if has_flag flags LG_TX_URGENT
                      then case lg_neigh_find (if has_flag dflags LG_DATA_F_UPWARD then lg_parent t else dst) t of
                             None \<Rightarrow> t
                           | Some i \<Rightarrow> lg_sched_expedite i t
                      else t)
            in (Inr (), lg_sched_kick t1))"

section \<open>Next hops do not depend on the order they are asked in\<close>

text \<open>A free slot of the routing table is blank.\<close>

definition routes_wf :: "ctx \<Rightarrow> bool" where
  "routes_wf s \<longleftrightarrow> routes_ok s \<and> (\<forall>r\<in>set (c_routes s). rt_dst r = LG_ADDR_INVALID \<longrightarrow> rt_expiry_us r = 0)"

lemma pruned_same:
  assumes "routes_pruned s t"
  shows "c_neigh t = c_neigh s" "c_txq t = c_txq s" "c_now t = c_now s" "linked_addr a t = linked_addr a s"
    "lg_parent t = lg_parent s" "length (c_routes t) = length (c_routes s)"
proof -
  from assms obtain rs where rs: "t = s\<lparr>c_routes := rs\<rparr>" "length rs = length (c_routes s)"
    by (auto simp: routes_pruned_def)
  then show "c_neigh t = c_neigh s" "c_txq t = c_txq s" "c_now t = c_now s"
    "lg_parent t = lg_parent s" "length (c_routes t) = length (c_routes s)"
    by (simp_all add: lg_parent_def cong: option.case_cong)
  show "linked_addr a t = linked_addr a s"
    by (simp add: rs linked_addr_def lg_neigh_find_def split: option.splits)
qed

lemma pruned_entry:
  assumes "routes_pruned s t" "i < length (c_routes t)"
  shows "c_routes t ! i = c_routes s ! i \<or>
    c_routes t ! i = route_zero \<and> \<not> linked_addr (rt_next_hop (c_routes s ! i)) s"
  using assms by (auto simp: routes_pruned_def)

lemma route_zero_sel [simp]: "rt_dst route_zero = LG_ADDR_INVALID" "rt_expiry_us route_zero = 0"
  by (simp_all add: route_zero_def LG_ADDR_INVALID_def)

lemma pruned_trans:
  assumes "routes_pruned s t" "routes_pruned t u"
  shows "routes_pruned s u"
proof -
  have "u = s\<lparr>c_routes := c_routes u\<rparr>"
    using assms by (auto simp: routes_pruned_def)
  moreover have "\<forall>i<length (c_routes u). c_routes u ! i \<noteq> c_routes s ! i \<longrightarrow>
      c_routes u ! i = route_zero \<and> \<not> linked_addr (rt_next_hop (c_routes s ! i)) s"
    using pruned_entry [OF assms(1)] pruned_entry [OF assms(2)] pruned_same(4,6) [OF assms(1)]
      pruned_same(6) [OF assms(2)] by metis
  ultimately show ?thesis unfolding routes_pruned_def
    using pruned_same(6) [OF assms(1)] pruned_same(6) [OF assms(2)] by (intro exI [of _ "c_routes u"]) simp
qed

lemma pruned_wf:
  assumes "routes_wf s" "routes_pruned s t"
  shows "routes_wf t"
proof -
  note e = pruned_entry [OF assms(2)] and l = pruned_same(6) [OF assms(2)]
  have "unique_keys route_live rt_dst (c_routes t)"
    using assms(1) unfolding routes_wf_def routes_ok_def unique_keys_def
    by (metis e l route_zero_sel(1))
  moreover have "rt_dst (c_routes t ! i) = LG_ADDR_INVALID \<longrightarrow> rt_expiry_us (c_routes t ! i) = 0"
    if "i < length (c_routes t)" for i
    using e [OF that] assms(1) l that by (auto simp: routes_wf_def)
  ultimately show ?thesis by (auto simp: routes_wf_def routes_ok_def in_set_conv_nth)
qed

lemma hop_eq:
  "fst (lg_route_next_hop final flags s) =
    (if has_flag flags LG_DATA_F_UPWARD then lg_parent s
     else if linked_addr final s then final
     else case route_find final s of
            None \<Rightarrow> lg_parent s
          | Some i \<Rightarrow> if c_now s < rt_expiry_us (c_routes s ! i) \<and> linked_addr (rt_next_hop (c_routes s ! i)) s
                      then rt_next_hop (c_routes s ! i) else lg_parent s)"
  by (simp add: lg_route_next_hop_def Let_def split: option.splits)

lemma hop_parent:
  assumes "\<not> has_flag flags LG_DATA_F_UPWARD" "\<not> linked_addr final s"
    and "\<And>i. i < length (c_routes s) \<Longrightarrow> rt_dst (c_routes s ! i) = final \<Longrightarrow>
      \<not> (c_now s < rt_expiry_us (c_routes s ! i) \<and> linked_addr (rt_next_hop (c_routes s ! i)) s)"
  shows "fst (lg_route_next_hop final flags s) = lg_parent s"
  using assms unfolding hop_eq route_find_def by (auto split: option.splits dest!: find_idx_SomeD)

lemma hop_route:
  assumes "\<not> has_flag flags LG_DATA_F_UPWARD" "\<not> linked_addr final s" "routes_wf s" "i < length (c_routes s)"
    and "rt_dst (c_routes s ! i) = final" "c_now s < rt_expiry_us (c_routes s ! i)"
    and "linked_addr (rt_next_hop (c_routes s ! i)) s"
  shows "fst (lg_route_next_hop final flags s) = rt_next_hop (c_routes s ! i)"
proof -
  have "final \<noteq> LG_ADDR_INVALID"
    using assms(3,5,6) nth_mem [OF assms(4)] by (auto simp: routes_wf_def)
  then have "route_find final s = Some i"
    using assms(3-5) by (intro rtab.lookup_unique) (simp_all add: routes_wf_def routes_ok_def)
  with assms show ?thesis by (simp add: hop_eq)
qed

lemma hop_stable:
  assumes "routes_wf s" "routes_pruned s t"
  shows "fst (lg_route_next_hop final flags t) = fst (lg_route_next_hop final flags s)"
proof (cases "has_flag flags LG_DATA_F_UPWARD \<or> linked_addr final s")
  case True
  then show ?thesis by (auto simp: hop_eq pruned_same [OF assms(2)])
next
  case False
  note same = pruned_same [OF assms(2)] and e = pruned_entry [OF assms(2)]
  let ?good = "\<lambda>u i. c_now u < rt_expiry_us (c_routes u ! i) \<and> linked_addr (rt_next_hop (c_routes u ! i)) u"
  show ?thesis
  proof (cases "\<exists>i<length (c_routes s). rt_dst (c_routes s ! i) = final \<and> ?good s i")
    case True
    then obtain i where i: "i < length (c_routes s)" "rt_dst (c_routes s ! i) = final" "?good s i" by blast
    with e [of i] same have keep: "c_routes t ! i = c_routes s ! i" by auto
    have "fst (lg_route_next_hop final flags s) = rt_next_hop (c_routes s ! i)"
      using False i assms(1) by (intro hop_route) auto
    moreover have "fst (lg_route_next_hop final flags t) = rt_next_hop (c_routes t ! i)"
      using False i pruned_wf [OF assms] keep same by (intro hop_route) auto
    ultimately show ?thesis by (simp add: keep)
  next
    case none: False
    then have "fst (lg_route_next_hop final flags s) = lg_parent s"
      using False by (intro hop_parent) auto
    moreover have "fst (lg_route_next_hop final flags t) = lg_parent t"
    proof (rule hop_parent)
      fix i
      assume i: "i < length (c_routes t)" "rt_dst (c_routes t ! i) = final"
      from e [OF i(1)] show "\<not> ?good t i"
        using none i same by (elim disjE) auto
    qed (use False same in auto)
    ultimately show ?thesis by (simp add: same)
  qed
qed

section \<open>The oldest message for a neighbour\<close>

definition waiting_for :: "ctx \<Rightarrow> u16 \<Rightarrow> txmsg \<Rightarrow> bool" where
  "waiting_for s peer m \<longleftrightarrow> m_used m \<and> fst (msg_next_hop m s) = peer"

lemma msg_hop_pruned:
  assumes "routes_wf s" "routes_pruned s t"
  shows "fst (msg_next_hop m t) = fst (msg_next_hop m s)" "routes_pruned s (snd (msg_next_hop m t))"
proof -
  show "fst (msg_next_hop m t) = fst (msg_next_hop m s)"
    by (simp add: msg_next_hop_def hop_stable [OF assms])
  have "routes_pruned t (snd (msg_next_hop m t))"
    by (cases "lg_route_next_hop (m_final m) (m_flags m) t")
      (auto simp: msg_next_hop_def routes_pruned_refl elim: next_hop_cases)
  with assms(2) show "routes_pruned s (snd (msg_next_hop m t))" by (rule pruned_trans)
qed

lemma peek_fold:
  assumes "routes_wf s"
  shows "\<exists>t. foldl (peek_step peer) (None, s) [0..<n] =
      (foldl (pick_step (waiting_for s peer) (\<lambda>x y. m_enqueued_us x < m_enqueued_us y) (c_txq s)) None [0..<n], t) \<and>
    routes_pruned s t"
proof (induction n)
  case 0
  show ?case by (simp add: routes_pruned_refl)
next
  case (Suc n)
  then obtain b t where b: "foldl (peek_step peer) (None, s) [0..<n] = (b, t)" "routes_pruned s t"
    "foldl (pick_step (waiting_for s peer) (\<lambda>x y. m_enqueued_us x < m_enqueued_us y) (c_txq s)) None [0..<n] = b" by blast
  let ?m = "c_txq s ! n"
  have q: "c_txq t = c_txq s" by (rule pruned_same [OF b(2)])
  note h = msg_hop_pruned [OF assms b(2), of ?m]
  obtain hop u where hu: "msg_next_hop ?m t = (hop, u)" by (cases "msg_next_hop ?m t")
  with h q have u: "routes_pruned s u" "hop = fst (msg_next_hop ?m s)" by simp_all
  let ?pick = "pick_step (waiting_for s peer) (\<lambda>x y. m_enqueued_us x < m_enqueued_us y) (c_txq s)"
  have "peek_step peer (b, t) n = (?pick b n, if m_used ?m then u else t)"
    using u(2) by (cases b) (simp_all add: peek_step_def pick_step_def waiting_for_def Let_def q hu)
  then show ?case using b u(1)
    by (intro exI [of _ "if m_used ?m then u else t"]) simp
qed

lemma peek_is:
  assumes "routes_wf s"
  shows "fst (lg_txq_peek peer s) = pick_idx (waiting_for s peer) (\<lambda>x y. m_enqueued_us x < m_enqueued_us y) (c_txq s)"
    "routes_pruned s (snd (lg_txq_peek peer s))"
  using peek_fold [OF assms, of peer "length (c_txq s)"] by (auto simp: lg_txq_peek_def pick_idx_def)

text \<open>A link is offered the message that has waited longest among those whose next hop is its
  neighbour, and none exactly when no message goes there; choosing only ever drops routes through
  neighbours that are gone, and it changes no message's next hop.\<close>

theorem txq_peek_oldest:
  assumes "routes_wf s" "lg_txq_peek peer s = (r, t)"
  shows "(case r of
      None \<Rightarrow> \<forall>m\<in>set (c_txq s). \<not> (m_used m \<and> fst (msg_next_hop m s) = peer)
    | Some i \<Rightarrow> i < length (c_txq s) \<and> m_used (c_txq s ! i) \<and> fst (msg_next_hop (c_txq s ! i) s) = peer \<and>
        (\<forall>m\<in>set (c_txq s). m_used m \<and> fst (msg_next_hop m s) = peer \<longrightarrow> m_enqueued_us (c_txq s ! i) \<le> m_enqueued_us m)) \<and>
    routes_pruned s t \<and> c_txq t = c_txq s \<and> (\<forall>m. fst (msg_next_hop m t) = fst (msg_next_hop m s))"
proof -
  note p = peek_is [OF assms(1), of peer, unfolded assms(2) fst_conv snd_conv]
  have "case r of
      None \<Rightarrow> \<forall>m\<in>set (c_txq s). \<not> waiting_for s peer m
    | Some i \<Rightarrow> i < length (c_txq s) \<and> waiting_for s peer (c_txq s ! i) \<and>
        (\<forall>m\<in>set (c_txq s). waiting_for s peer m \<longrightarrow> m_enqueued_us (c_txq s ! i) \<le> m_enqueued_us m)"
    using p(1) by (auto simp: pick_idx_None_iff dest: pick_idx_SomeD pick_idx_min split: option.split)
  with p(2) pruned_same(2) [OF p(2)] msg_hop_pruned(1) [OF assms(1) p(2)] show ?thesis
    by (simp add: waiting_for_def split: option.splits)
qed

definition demo_queue :: ctx where
  "demo_queue = snd (lg_send_forward 9 22 3 [1, 2] 2 0 1 7
     ((snd (lg_send_forward 5 22 3 [7] 1 0 0 6 (demo_mesh\<lparr>c_started := True, c_now := 10\<rparr>)))\<lparr>c_now := 30\<rparr>))"

theorem txq_peek_oldest_witness:
  "routes_wf demo_queue \<and> fst (lg_txq_peek 22 demo_queue) = Some 0 \<and> m_used (c_txq demo_queue ! 0) \<and>
   fst (msg_next_hop (c_txq demo_queue ! 0) demo_queue) = 22"
proof -
  have z: "c_routes demo_queue = replicate 16 route_zero" by code_simp
  have wf: "routes_wf demo_queue"
    by (simp add: routes_wf_def routes_ok_def z unique_keys_def)
  have v: "fst (lg_txq_peek 22 demo_queue) = Some 0" by code_simp
  have eq: "lg_txq_peek 22 demo_queue = (Some 0, snd (lg_txq_peek 22 demo_queue))"
    using v by (metis prod.collapse)
  from txq_peek_oldest [OF wf eq, THEN conjunct1] wf v show ?thesis by (simp only: option.case)
qed

section \<open>Accepting a message\<close>

definition message :: "u16 \<Rightarrow> u16 \<Rightarrow> u8 \<Rightarrow> u8 list \<Rightarrow> u8 \<Rightarrow> u8 \<Rightarrow> u16 \<Rightarrow> u64 \<Rightarrow> txmsg \<Rightarrow> bool" where
  "message origin final port payload flags hops msg_id at m \<longleftrightarrow>
     m_used m \<and> m_origin m = origin \<and> m_final m = final \<and> m_port m = port \<and> m_flags m = flags \<and>
     m_hops m = hops \<and> m_msg_id m = msg_id \<and> m_enqueued_us m = at \<and> m_len m = length payload \<and>
     take (m_len m) (m_payload m) = payload"

text \<open>A unicast message is refused for exactly one of four reasons - too long, not started, no
  next hop, queue full, tested in this order - and then the queue is unchanged; otherwise exactly
  one free slot takes it, with its payload, and every queued message stays as it was.\<close>

theorem send_forward_queues:
  assumes "\<not> has_flag flags LG_DATA_F_BROADCAST" "len = length buf"
    and "lg_send_forward origin final port buf len flags hops msg_id s = (r, t)"
  shows "(r = Inl EMSGSIZE \<longleftrightarrow> LG_PAYLOAD_MAX < len) \<and>
    (r = Inl EAGAIN \<longleftrightarrow> len \<le> LG_PAYLOAD_MAX \<and> \<not> c_started s) \<and>
    (r = Inl ENOTCONN \<longleftrightarrow> len \<le> LG_PAYLOAD_MAX \<and> c_started s \<and>
       fst (lg_route_next_hop final flags s) = LG_ADDR_INVALID) \<and>
    (r = Inl ENOMEM \<longleftrightarrow> len \<le> LG_PAYLOAD_MAX \<and> c_started s \<and>
       fst (lg_route_next_hop final flags s) \<noteq> LG_ADDR_INVALID \<and> (\<forall>m\<in>set (c_txq s). m_used m)) \<and>
    (case r of
       Inl e \<Rightarrow> e \<in> {EMSGSIZE, EAGAIN, ENOTCONN, ENOMEM} \<and> c_txq t = c_txq s
     | Inr _ \<Rightarrow> \<exists>k<length (c_txq s). \<exists>m. \<not> m_used (c_txq s ! k) \<and> c_txq t = (c_txq s)[k := m] \<and>
         message origin final port buf flags hops msg_id (c_now s) m)"
proof -
  obtain hop u where hu: "lg_route_next_hop final flags s = (hop, u)" by (cases "lg_route_next_hop final flags s")
  then have pr: "routes_pruned s u" by (auto elim: next_hop_cases simp: routes_pruned_refl)
  note same = pruned_same [OF pr]
  have eq: "(r, t) = (if LG_PAYLOAD_MAX < len then (Inl EMSGSIZE, s) else if \<not> c_started s then (Inl EAGAIN, s)
      else if hop = LG_ADDR_INVALID then (Inl ENOTCONN, u)
      else case txq_alloc u of None \<Rightarrow> (Inl ENOMEM, u)
      | Some k \<Rightarrow> (Inr (), txq_fill k origin final port buf len flags hops msg_id u))"
    unfolding assms(3) [symmetric] lg_send_forward_def hu prod.case using assms(1) by simp
  show ?thesis
  proof (cases "LG_PAYLOAD_MAX < len \<or> \<not> c_started s \<or> hop = LG_ADDR_INVALID")
    case True
    with eq hu same(2) show ?thesis by (simp split: if_splits)
  next
    case go: False
    show ?thesis
    proof (cases "txq_alloc u")
      case None
      then have "\<forall>m\<in>set (c_txq s). m_used m" by (auto simp: txq_alloc_def find_idx_None_iff same)
      with go None eq hu same(2) show ?thesis by simp
    next
      case (Some k)
      then have k: "k < length (c_txq s)" "\<not> m_used (c_txq s ! k)"
        using find_idx_SomeD [of _ "c_txq u" k] by (auto simp: txq_alloc_def same)
      let ?m = "(c_txq s ! k)\<lparr>m_used := True, m_origin := origin, m_final := final, m_flags := flags,
        m_port := port, m_hops := hops, m_msg_id := msg_id, m_len := len, m_enqueued_us := c_now s,
        m_payload := blit (m_payload (c_txq s ! k)) 0 (take len buf)\<rparr>"
      have "r = Inr ()" "c_txq t = (c_txq s)[k := ?m]"
        using go Some eq same by (simp_all add: txq_fill_def)
      moreover have "message origin final port buf flags hops msg_id (c_now s) ?m"
        using assms(2) by (simp add: message_def blit_def)
      moreover have "\<not> (\<forall>m\<in>set (c_txq s). m_used m)" using k nth_mem by blast
      ultimately show ?thesis using go hu k by auto
    qed
  qed
qed

theorem send_forward_queues_witness:
  "fst (lg_send_forward 9 22 3 [1, 2] 2 0 1 7 (demo_mesh\<lparr>c_started := True\<rparr>)) = Inr () \<and>
   fst (lg_send_forward 9 22 3 [1, 2] 2 0 1 7 demo_mesh) = Inl EAGAIN"
proof -
  let ?r = "lg_send_forward 9 22 3 [1, 2] 2 0 1 7 demo_mesh"
  have h: "\<not> has_flag 0 LG_DATA_F_BROADCAST" "2 = length [1, 2 :: u8]" by (simp_all add: LG_DATA_F_BROADCAST_def)
  have st: "\<not> c_started demo_mesh" by code_simp
  have v: "fst (lg_send_forward 9 22 3 [1, 2] 2 0 1 7 (demo_mesh\<lparr>c_started := True\<rparr>)) = Inr ()" by code_simp
  have "fst ?r = Inl EAGAIN"
    using send_forward_queues [OF h, of 9 22 3 1 7 demo_mesh "fst ?r" "snd ?r", THEN conjunct2, THEN conjunct1] st by simp
  with v show ?thesis by simp
qed

end
