(* ===== verification/LG_Anchor.thy ===== *)
theory LG_Anchor
  imports LG_Queue
begin

text \<open>
  The schedule arithmetic of a link (\<open>lg_link.c\<close>): the receive window, the event counter derived
  from time, subrating, and catching up with the clock. The catch-up loop need not end, so it is
  partial: \<open>None\<close> is a loop that never returns.
\<close>

abbreviation (input) LG_WINDOW_JITTER_US :: u64 where "LG_WINDOW_JITTER_US \<equiv> 40"
abbreviation (input) LG_SCHED_LEAD_US :: u32 where "LG_SCHED_LEAD_US \<equiv> 100"

definition window_of :: "config \<Rightarrow> u64 \<Rightarrow> neigh \<Rightarrow> u32 \<times> neigh" where
  "window_of cfg now n =
    (if n_initiator n then (cfg_rx_window_min_us cfg div 2, n)
     else
       let elapsed = (if n_last_sync_us n \<noteq> 0 \<and> n_last_sync_us n < now then now - n_last_sync_us n else 0);
           combined_ppm = cfg_clock_accuracy_ppm cfg + ucast (n_peer_sca_ppm n);
           drift_us = elapsed * ucast combined_ppm div 1000000;
           half = ucast (min (drift_us + LG_WINDOW_JITTER_US + ucast (cfg_rx_window_min_us cfg div 2))
                             (ucast (cfg_rx_window_max_us cfg) div 2)) :: u32
       in (half, n\<lparr>n_rx_window_us := half * 2\<rparr>))"

definition lg_link_window_us :: "nat \<Rightarrow> ctx \<Rightarrow> u32 \<times> ctx" where
  "lg_link_window_us i s =
    (case window_of (c_cfg s) (c_now s) (nb s i) of (w, n) \<Rightarrow> (w, upd_neigh i (\<lambda>_. n) s))"

definition counter_of :: "neigh \<Rightarrow> u16" where
  "counter_of n =
    (if n_interval_us n = 0 \<or> n_anchor_us n < n_epoch_us n then 0
     else ucast ((n_anchor_us n - n_epoch_us n + ucast (n_interval_us n div 2)) div ucast (n_interval_us n)))"

definition anchor_set :: "u16 \<Rightarrow> neigh \<Rightarrow> neigh" where
  "anchor_set target n = n\<lparr>n_anchor_us := n_epoch_us n + ucast target * ucast (n_interval_us n), n_counter := target\<rparr>"

definition next_active :: "neigh \<Rightarrow> u16 \<Rightarrow> u16" where
  "next_active n after =
    (let step = max (ucast (n_subrate n)) 1 :: u16
     in ucast ((ucast (after div step) + 1 :: u32) * ucast step))"

text \<open>The \<open>while\<close> loop, with the statistics counter it increments.\<close>

partial_function (option) catch_loop :: "u64 \<Rightarrow> neigh \<Rightarrow> u32 \<Rightarrow> (neigh \<times> u32) option" where
  [code]: "catch_loop until n skipped =
    (if n_anchor_us n < until
     then catch_loop until (anchor_set (next_active n (counter_of n)) n) (skipped + 1)
     else Some (n, skipped))"

definition anchor_catch_up :: "nat \<Rightarrow> ctx \<Rightarrow> ctx option" where
  "anchor_catch_up i s =
    (case lg_link_window_us i s of (w, s1) \<Rightarrow>
       let lead = ucast (LG_SCHED_LEAD_US + w + 200) :: u64;
           step = max (ucast (n_subrate (nb s1 i))) 1 :: u16
       in if n_interval_us (nb s1 i) = 0 then Some s1
          else
            let n = nb s1 i;
                n1 = (if counter_of n mod step \<noteq> 0 then anchor_set (next_active n (counter_of n)) n else n)
            in case catch_loop (c_now s1 + lead) n1 (st_link_events_skipped (c_stats s1)) of
                 None \<Rightarrow> None
               | Some (n2, k) \<Rightarrow> Some (upd_stats (\<lambda>st. st\<lparr>st_link_events_skipped := k\<rparr>) (upd_neigh i (\<lambda>_. n2) s1)))"

definition lg_link_next_event_us :: "nat \<Rightarrow> ctx \<Rightarrow> (u64 \<times> ctx) option" where
  "lg_link_next_event_us i s =
    (if n_state (nb s i) \<noteq> LG_NS_LINKED \<or> n_interval_us (nb s i) = 0 then Some (UINT64_MAX, s)
     else case anchor_catch_up i s of None \<Rightarrow> None | Some t \<Rightarrow> Some (n_anchor_us (nb t i), t))"

definition link_next_chan :: "neigh \<Rightarrow> u8" where
  "link_next_chan n = lg_chan_hop (n_chan_map n) (n_hop_seed n) (counter_of n)"

definition lg_link_next_chan :: "nat \<Rightarrow> ctx \<Rightarrow> u8" where
  "lg_link_next_chan i s = link_next_chan (nb s i)"

text \<open>Advancing an entry past its event, and the change of parameters at the agreed instant.\<close>

definition link_advance :: "neigh \<Rightarrow> neigh" where
  "link_advance n0 =
    (let n = anchor_set (next_active n0 (counter_of n0)) n0
     in if n_pending_ctrl n \<noteq> 0 \<and> n_instant n \<le> n_counter n
        then let n1 = (if \<not> n_initiator n \<or> n_ctrl_acked n
                       then let a = (if n_pending_ctrl n AND BIT 0 \<noteq> 0 then n\<lparr>n_chan_map := n_pending_chan_map n\<rparr> else n)
                            in if n_pending_ctrl a AND BIT 1 \<noteq> 0
                               then a\<lparr>n_subrate := max (n_pending_subrate a) 1\<rparr> else a
                       else n)
             in n1\<lparr>n_pending_ctrl := 0, n_ctrl_acked := False\<rparr>
        else n)"

definition lg_link_advance :: "nat \<Rightarrow> ctx \<Rightarrow> ctx" where
  "lg_link_advance i s = upd_neigh i link_advance s"

section \<open>Events on the grid of the link\<close>

text \<open>The subrate step, and an entry whose anchor is exactly event \<open>c\<close> of its link.\<close>

definition step_of :: "neigh \<Rightarrow> nat" where
  "step_of n = max (unat (n_subrate n)) 1"

definition on_grid :: "neigh \<Rightarrow> nat \<Rightarrow> bool" where
  "on_grid n c \<longleftrightarrow> c < 65536 \<and> n_interval_us n \<noteq> 0 \<and>
     unat (n_epoch_us n) + 65536 * unat (n_interval_us n) < 2 ^ 64 \<and>
     unat (n_anchor_us n) = unat (n_epoch_us n) + c * unat (n_interval_us n)"

lemma step_pos [simp]: "0 < step_of n"
  by (simp add: step_of_def)

lemma step_word: "unat (max (ucast (n_subrate n)) 1 :: u16) = step_of n"
  by (simp add: step_of_def max_def word_le_nat_alt unat_ucast_up)

lemma counter_on_grid:
  assumes "on_grid n c"
  shows "unat (counter_of n) = c"
proof -
  let ?i = "unat (n_interval_us n)"
  have i: "0 < ?i" and c: "c < 65536" and w: "unat (n_epoch_us n) + 65536 * ?i < 2 ^ 64"
    and a: "unat (n_anchor_us n) = unat (n_epoch_us n) + c * ?i"
    using assms by (auto simp: on_grid_def unat_gt_0)
  have ge: "\<not> n_anchor_us n < n_epoch_us n" by (simp add: word_less_nat_alt a)
  have d: "unat (n_anchor_us n - n_epoch_us n) = c * ?i"
    using ge a by (simp add: unat_sub word_le_nat_alt)
  have half: "unat (ucast (n_interval_us n div 2) :: u64) = ?i div 2"
    by (simp add: unat_ucast_up unat_div)
  have "c * ?i + ?i div 2 \<le> Suc c * ?i" by simp
  also have "\<dots> \<le> 65536 * ?i" using c by (intro mult_le_mono1) simp
  finally have "c * ?i + ?i div 2 \<le> 65536 * ?i" .
  then have s: "unat (n_anchor_us n - n_epoch_us n + ucast (n_interval_us n div 2)) = c * ?i + ?i div 2"
    using w d half by (subst unat_add_small) simp_all
  have q: "(c * ?i + ?i div 2) div ?i = c" using i by simp
  show ?thesis
    using i c ge unfolding counter_of_def
    by (cases "n_interval_us n = 0", simp)
      (simp, subst unat_ucast_small; simp add: unat_div s q unat_ucast_up)
qed

lemma next_active_word:
  assumes "(c div step_of n + 1) * step_of n < 65536" "unat after = c"
  shows "unat (next_active n after) = (c div step_of n + 1) * step_of n"
proof -
  let ?p = "step_of n"
  have w: "unat (ucast (max (ucast (n_subrate n)) 1 :: u16) :: u32) = ?p"
    by (subst unat_ucast_up) (simp_all only: step_word, simp)
  have d: "unat (after div max (ucast (n_subrate n)) 1) = c div ?p"
    by (simp add: unat_div step_word assms(2))
  have "c div ?p + 1 \<le> (c div ?p + 1) * ?p" using step_pos [of n] by (cases "?p") simp_all
  then have "c div ?p + 1 < 65536" using assms(1) by (rule le_less_trans)
  then have c1: "unat (ucast (after div max (ucast (n_subrate n)) 1) + 1 :: u32) = c div ?p + 1"
    using d by (subst unat_add_small) (simp_all add: unat_ucast_up)
  have "unat ((ucast (after div max (ucast (n_subrate n)) 1) + 1 :: u32) * ucast (max (ucast (n_subrate n)) 1 :: u16)) =
      (c div ?p + 1) * ?p"
    using assms(1) by (subst unat_mult_small) (simp_all only: c1 w, simp_all)
  then show ?thesis using assms(1) unfolding next_active_def Let_def
    by (subst unat_ucast_small) simp_all
qed

lemma next_on_grid:
  assumes "step_of n dvd c" "c + step_of n < 65536" "unat after = c"
  shows "unat (next_active n after) = c + step_of n"
  using next_active_word [of c n after] assms by (simp add: algebra_simps)

lemma anchor_set_grid:
  assumes "on_grid n c" "unat t < 65536"
  shows "on_grid (anchor_set t n) (unat t)"
proof -
  have w: "unat (n_epoch_us n) + 65536 * unat (n_interval_us n) < 2 ^ 64"
    using assms(1) by (simp add: on_grid_def)
  have le: "unat t * unat (n_interval_us n) \<le> 65536 * unat (n_interval_us n)"
    using assms(2) by (intro mult_le_mono1) simp
  have lt: "unat t * unat (n_interval_us n) < 2 ^ 64"
    "unat (n_epoch_us n) + unat t * unat (n_interval_us n) < 2 ^ 64" using w le by linarith+
  then have m: "unat (ucast t * ucast (n_interval_us n) :: u64) = unat t * unat (n_interval_us n)"
    by (subst unat_mult_small) (simp_all add: unat_ucast_up)
  have "unat (n_epoch_us n + ucast t * ucast (n_interval_us n)) = unat (n_epoch_us n) + unat t * unat (n_interval_us n)"
    using lt m by (subst unat_add_small) simp_all
  with assms w show ?thesis by (simp add: on_grid_def anchor_set_def)
qed

section \<open>Catching up\<close>

text \<open>Rounding up, and the first active event from \<open>c\<close> on that is not before \<open>until\<close>.\<close>

definition div_up :: "nat \<Rightarrow> nat \<Rightarrow> nat" where
  "div_up x y = (x + y - 1) div y"

definition landing :: "neigh \<Rightarrow> nat \<Rightarrow> u64 \<Rightarrow> nat" where
  "landing n c until = step_of n * max (div_up c (step_of n))
     (div_up (unat until - unat (n_epoch_us n)) (step_of n * unat (n_interval_us n)))"

lemma div_up_le_iff: "0 < y \<Longrightarrow> div_up x y \<le> k \<longleftrightarrow> x \<le> k * y"
proof
  assume y: "0 < y" and le: "div_up x y \<le> k"
  have "x + y - 1 < (div_up x y + 1) * y"
    using y unfolding div_up_def by (simp add: dividend_less_div_times)
  also have "\<dots> \<le> (k + 1) * y" using le by (intro mult_le_mono1) simp
  finally show "x \<le> k * y" using y by simp
next
  assume y: "0 < y" and le: "x \<le> k * y"
  then have "x + y - 1 < (k + 1) * y" by simp
  with y show "div_up x y \<le> k" unfolding div_up_def by (simp add: less_mult_imp_div_less less_Suc_eq_le [symmetric])
qed

lemma div_up_mult [simp]: "0 < y \<Longrightarrow> div_up (k * y) y = k"
  by (rule antisym) (simp_all add: div_up_le_iff, metis div_up_le_iff le_refl mult_le_cancel2)

lemma landing_cases:
  assumes "0 < unat (n_interval_us n)"
  shows "landing n (k * step_of n) until =
    (if unat until \<le> unat (n_epoch_us n) + k * step_of n * unat (n_interval_us n) then k * step_of n
     else landing n (Suc k * step_of n) until)"
proof -
  let ?y = "step_of n * unat (n_interval_us n)"
  let ?d = "div_up (unat until - unat (n_epoch_us n)) ?y"
  have y: "0 < ?y" using assms by simp
  have le: "?d \<le> k \<longleftrightarrow> unat until \<le> unat (n_epoch_us n) + k * step_of n * unat (n_interval_us n)"
    unfolding div_up_le_iff [OF y] by (simp add: mult.assoc le_diff_conv add.commute)
  show ?thesis unfolding landing_def
    by (simp only: div_up_mult step_pos le [symmetric]) (auto simp: max_def mult.commute)
qed

text \<open>Only the anchor and the counter have moved.\<close>

definition moved :: "neigh \<Rightarrow> neigh \<Rightarrow> bool" where
  "moved n n' \<longleftrightarrow> n'\<lparr>n_anchor_us := 0, n_counter := 0\<rparr> = n\<lparr>n_anchor_us := 0, n_counter := 0\<rparr>"

lemma moved_refl: "moved n n"
  by (simp add: moved_def)

lemma moved_set: "moved n (anchor_set t n)"
  by (auto simp: moved_def anchor_set_def)

lemma moved_trans: "moved n m \<Longrightarrow> moved m k \<Longrightarrow> moved n k"
  by (auto simp: moved_def)

lemma catch_loop_lands:
  assumes "on_grid n (k * step_of n)" "landing n (k * step_of n) until < 65536"
  shows "\<exists>n' m'. catch_loop until n m = Some (n', m') \<and> on_grid n' (landing n (k * step_of n) until) \<and>
    moved n n'"
  using assms
proof (induction "landing n (k * step_of n) until - k * step_of n" arbitrary: n k m rule: less_induct)
  case less
  let ?p = "step_of n" and ?i = "unat (n_interval_us n)"
  let ?L = "landing n (k * step_of n) until"
  have i: "0 < ?i" and c: "k * ?p < 65536" and a: "unat (n_anchor_us n) = unat (n_epoch_us n) + k * ?p * ?i"
    using less.prems(1) by (auto simp: on_grid_def unat_gt_0)
  show ?case
  proof (cases "n_anchor_us n < until")
    case False
    then have "unat until \<le> unat (n_epoch_us n) + k * ?p * ?i" using a by (simp add: word_less_nat_alt)
    then have "?L = k * ?p" using landing_cases [OF i] by simp
    moreover have "catch_loop until n m = Some (n, m)" using False by (subst catch_loop.simps) simp
    ultimately show ?thesis using less.prems(1) moved_refl by auto
  next
    case True
    then have "\<not> unat until \<le> unat (n_epoch_us n) + k * ?p * ?i" using a by (simp add: word_less_nat_alt)
    then have L: "?L = landing n (Suc k * ?p) until" using landing_cases [OF i] by simp
    have ge: "Suc k * ?p \<le> landing n (Suc k * ?p) until"
      unfolding landing_def div_up_mult [OF step_pos]
      by (subst mult.commute) (rule mult_le_mono2, rule max.cobounded1)
    let ?t = "next_active n (counter_of n)"
    let ?n1 = "anchor_set ?t n"
    have t: "unat ?t = Suc k * ?p"
      using next_on_grid [of n "k * ?p" "counter_of n"] counter_on_grid [OF less.prems(1)] ge L less.prems(2) by simp
    have same: "step_of ?n1 = ?p" "landing ?n1 x until = landing n x until" for x
      by (simp_all add: anchor_set_def step_of_def landing_def)
    have g1: "on_grid ?n1 (Suc k * step_of ?n1)"
      using anchor_set_grid [OF less.prems(1), of ?t] t ge L less.prems(2) by (simp add: same)
    have dec: "landing ?n1 (Suc k * step_of ?n1) until - Suc k * step_of ?n1 < ?L - k * ?p"
      unfolding same L
    proof (rule diff_less_mono2)
      show "k * ?p < Suc k * ?p" by simp
      then show "k * ?p < landing n (Suc k * ?p) until" using ge by (rule less_le_trans)
    qed
    from less.hyps [OF dec g1, of "m + 1"] less.prems(2) L obtain n' m' where
      r: "catch_loop until ?n1 (m + 1) = Some (n', m')" "on_grid n' (landing n (Suc k * ?p) until)"
        "moved ?n1 n'" by (auto simp: same)
    have "moved n n'" using moved_set r(3) by (rule moved_trans)
    with r True L show ?thesis by (subst catch_loop.simps) auto
  qed
qed

lemma landing_least:
  assumes "0 < unat (n_interval_us n)"
  shows "step_of n dvd landing n c until" "c \<le> landing n c until"
    "unat until \<le> unat (n_epoch_us n) + landing n c until * unat (n_interval_us n)"
    "c \<le> c' \<Longrightarrow> step_of n dvd c' \<Longrightarrow> unat until \<le> unat (n_epoch_us n) + c' * unat (n_interval_us n) \<Longrightarrow>
      landing n c until \<le> c'"
proof -
  let ?p = "step_of n" and ?i = "unat (n_interval_us n)"
  let ?q = "max (div_up c ?p) (div_up (unat until - unat (n_epoch_us n)) (?p * ?i))"
  have L: "landing n c until = ?p * ?q" by (simp add: landing_def)
  show "step_of n dvd landing n c until" by (simp add: L)
  have pi: "0 < ?p * ?i" using assms by simp
  have "c \<le> ?q * ?p" using div_up_le_iff [OF step_pos, of c n ?q] by simp
  then show "c \<le> landing n c until" by (simp add: L mult.commute)
  have "unat until - unat (n_epoch_us n) \<le> ?q * (?p * ?i)"
    using div_up_le_iff [OF pi, of "unat until - unat (n_epoch_us n)" ?q] by simp
  then show "unat until \<le> unat (n_epoch_us n) + landing n c until * ?i"
    by (simp add: L algebra_simps)
  assume c': "c \<le> c'" "?p dvd c'" "unat until \<le> unat (n_epoch_us n) + c' * ?i"
  then obtain k where k: "c' = k * ?p" by (auto simp: dvd_def mult.commute)
  have "div_up c ?p \<le> k" using c' k div_up_le_iff [OF step_pos, of c n k] by simp
  moreover have "div_up (unat until - unat (n_epoch_us n)) (?p * ?i) \<le> k"
    unfolding div_up_le_iff [OF pi] using c'(3) k by (simp add: mult.assoc le_diff_conv add.commute)
  ultimately show "landing n c until \<le> c'" by (simp add: L k mult.commute)
qed

text \<open>What the window computation leaves in place.\<close>

lemma window_same:
  "step_of (snd (window_of cfg now n)) = step_of n" "n_interval_us (snd (window_of cfg now n)) = n_interval_us n"
  "n_epoch_us (snd (window_of cfg now n)) = n_epoch_us n" "on_grid (snd (window_of cfg now n)) c = on_grid n c"
  "landing (snd (window_of cfg now n)) c until = landing n c until"
  by (simp_all add: window_of_def Let_def step_of_def on_grid_def landing_def)

definition catch_deadline :: "nat \<Rightarrow> ctx \<Rightarrow> u64" where
  "catch_deadline i s = c_now s + ucast (LG_SCHED_LEAD_US + fst (lg_link_window_us i s) + 200)"

lemma catch_up_steps:
  assumes "i < length (c_neigh s)" "n_interval_us (nb s i) \<noteq> 0"
  defines "n \<equiv> snd (window_of (c_cfg s) (c_now s) (nb s i))"
  shows "anchor_catch_up i s =
    (case catch_loop (catch_deadline i s)
        (if counter_of n mod max (ucast (n_subrate n)) 1 \<noteq> 0 then anchor_set (next_active n (counter_of n)) n else n)
        (st_link_events_skipped (c_stats s)) of
      None \<Rightarrow> None
    | Some (n2, k) \<Rightarrow> Some (upd_stats (\<lambda>st. st\<lparr>st_link_events_skipped := k\<rparr>)
        (upd_neigh i (\<lambda>_. n2) s)))"
  using assms(1,2) window_same(2) [of "c_cfg s" "c_now s" "nb s i"]
  by (cases "window_of (c_cfg s) (c_now s) (nb s i)")
    (simp add: anchor_catch_up_def lg_link_window_us_def catch_deadline_def Let_def n_def upd_neigh_def
      split: option.split)

lemma catch_up_pre:
  fixes n :: neigh
  assumes g: "on_grid n c" and L: "landing n c until < 65536"
  defines "m \<equiv> (if counter_of n mod max (ucast (n_subrate n)) 1 \<noteq> 0 then anchor_set (next_active n (counter_of n)) n else n)"
  shows "\<exists>k. on_grid m (k * step_of m) \<and> landing m (k * step_of m) until = landing n c until \<and> moved n m"
proof -
  let ?p = "step_of n"
  have cnt: "unat (counter_of n) = c" by (rule counter_on_grid [OF g])
  have md: "unat (counter_of n mod max (ucast (n_subrate n)) 1) = c mod ?p"
    by (simp add: unat_mod step_word cnt)
  have up: "landing n (div_up c ?p * ?p) until = landing n c until" by (simp add: landing_def)
  have ge: "div_up c ?p * ?p \<le> landing n c until" by (simp add: landing_def mult.commute)
  show ?thesis
  proof (cases "?p dvd c")
    case True
    then have "m = n" using md by (simp add: m_def unat_eq_0 [symmetric] del: unat_eq_zero)
    moreover have "div_up c ?p * ?p = c" using True by (auto simp: dvd_def mult.commute)
    ultimately show ?thesis using g up moved_refl by (intro exI [of _ "div_up c ?p"]) simp
  next
    case False
    then have m: "m = anchor_set (next_active n (counter_of n)) n"
      using md by (auto simp: m_def unat_eq_0 [symmetric] dvd_eq_mod_eq_0 simp del: unat_eq_zero)
    have q: "c div ?p + 1 = div_up c ?p"
    proof (rule antisym)
      have "\<not> div_up c ?p \<le> c div ?p"
        using False unfolding div_up_le_iff [OF step_pos] by (metis dvd_triv_right le_antisym div_times_less_eq_dividend)
      then show "c div ?p + 1 \<le> div_up c ?p" by simp
      show "div_up c ?p \<le> c div ?p + 1"
        unfolding div_up_le_iff [OF step_pos] using dividend_less_div_times [OF step_pos [of n], of c] by simp
    qed
    have "div_up c ?p * ?p < 65536" using ge L by (rule le_less_trans)
    then have t: "unat (next_active n (counter_of n)) = div_up c ?p * ?p"
      by (rule next_active_word [of c n "counter_of n", unfolded q, OF _ cnt])
    have "on_grid m (div_up c ?p * ?p)" using anchor_set_grid [OF g, of "next_active n (counter_of n)"] t ge L by (simp add: m)
    moreover have "step_of m = ?p" "landing m x until = landing n x until" for x
      by (simp_all add: m anchor_set_def step_of_def landing_def)
    ultimately show ?thesis using up moved_set by (intro exI [of _ "div_up c ?p"]) (simp add: m)
  qed
qed


definition demo_link :: "bool \<Rightarrow> u8 \<Rightarrow> u64 \<Rightarrow> neigh" where
  "demo_link initiator subrate anchor = (neigh_fresh 22)\<lparr>n_state := LG_NS_LINKED, n_initiator := initiator,
     n_epoch_us := 1000, n_anchor_us := anchor, n_interval_us := 200000, n_subrate := subrate,
     n_chan_map := 0xFFFF, n_hop_seed := 7\<rparr>"

definition demo_late :: ctx where
  "demo_late = demo_node\<lparr>c_now := 1000000, c_neigh := [demo_link True 4 201000] @ replicate 7 neigh_zero\<rparr>"


section \<open>When the counter runs out\<close>

lemma catch_loop_sound:
  assumes "catch_loop until n k = Some r"
  shows "until \<le> n_anchor_us (fst r) \<and>
    (fst r = n \<or> (\<exists>t. n_anchor_us (fst r) = n_epoch_us n + ucast (t :: u16) * ucast (n_interval_us n)))"
proof (rule catch_loop.raw_induct [where P = "\<lambda>until n k r. until \<le> n_anchor_us (fst r) \<and>
    (fst r = n \<or> (\<exists>t. n_anchor_us (fst r) = n_epoch_us n + ucast (t :: u16) * ucast (n_interval_us n)))", OF _ assms])
  fix f until n k r
  assume ih: "\<And>until n k r. f until n k = Some r \<Longrightarrow> until \<le> n_anchor_us (fst r) \<and>
      (fst r = n \<or> (\<exists>t. n_anchor_us (fst r) = n_epoch_us n + ucast (t :: u16) * ucast (n_interval_us n)))"
    and body: "(if n_anchor_us n < until then f until (anchor_set (next_active n (counter_of n)) n) (k + 1)
      else Some (n, k)) = Some r"
  show "until \<le> n_anchor_us (fst r) \<and>
      (fst r = n \<or> (\<exists>t. n_anchor_us (fst r) = n_epoch_us n + ucast (t :: u16) * ucast (n_interval_us n)))"
  proof (cases "n_anchor_us n < until")
    case True
    with body have "f until (anchor_set (next_active n (counter_of n)) n) (k + 1) = Some r" by simp
    from ih [OF this] show ?thesis by (auto simp: anchor_set_def)
  next
    case False
    with body show ?thesis by auto
  qed
qed

text \<open>C36: the event counter has 16 bits and the epoch never moves on, so from the moment every one of
  the 65536 events the counter can name is too early, the catch-up loop of an established link never
  returns: after 65536 intervals (3.6 hours at the default 200 ms) the scheduler hangs.\<close>

theorem catch_up_hangs:
  fixes s :: ctx and c :: nat
  assumes "i < length (c_neigh s)" "on_grid (nb s i) c"
    and past: "unat (n_epoch_us (nb s i)) + 65535 * unat (n_interval_us (nb s i)) < unat (catch_deadline i s)"
  shows "anchor_catch_up i s = None"
proof (rule ccontr)
  let ?n0 = "nb s i" and ?D = "catch_deadline i s"
  define n where "n = snd (window_of (c_cfg s) (c_now s) ?n0)"
  note same = window_same [of "c_cfg s" "c_now s" ?n0, folded n_def]
  have g: "on_grid n c" using assms(2) same(4) by simp
  have iv: "n_interval_us ?n0 \<noteq> 0" using assms(2) by (simp add: on_grid_def)
  let ?m = "if counter_of n mod max (ucast (n_subrate n)) 1 \<noteq> 0 then anchor_set (next_active n (counter_of n)) n else n"
  assume "anchor_catch_up i s \<noteq> None"
  then have "catch_loop ?D ?m (st_link_events_skipped (c_stats s)) \<noteq> None"
    by (simp only: catch_up_steps [OF assms(1) iv, folded n_def] option.case_eq_if split: if_splits) auto
  then obtain n' k' where r: "catch_loop ?D ?m (st_link_events_skipped (c_stats s)) = Some (n', k')" by auto
  have t: "on_grid (anchor_set x n) (unat x)" for x
    using anchor_set_grid [OF g, of x] unsigned_less [of x] by simp
  have early: "n_anchor_us k < ?D" if "on_grid k d" "n_epoch_us k = n_epoch_us n" "n_interval_us k = n_interval_us n" for k d
  proof -
    have "d * unat (n_interval_us n) \<le> 65535 * unat (n_interval_us n)"
      using that(1) by (intro mult_le_mono1) (simp add: on_grid_def)
    moreover have "unat (n_anchor_us k) = unat (n_epoch_us n) + d * unat (n_interval_us n)"
      using that by (simp add: on_grid_def)
    ultimately show ?thesis using past unfolding word_less_nat_alt same(2,3) by linarith
  qed
  have m: "n_epoch_us ?m = n_epoch_us n" "n_interval_us ?m = n_interval_us n" by (simp_all add: anchor_set_def)
  have late: "?D \<le> n_anchor_us n'"
    and at: "n' = ?m \<or> (\<exists>t. n_anchor_us n' = n_epoch_us n + ucast (t :: u16) * ucast (n_interval_us n))"
    using catch_loop_sound [OF r] unfolding m fst_conv by blast+
  have "n_anchor_us (anchor_set x n) < ?D" for x
    by (rule early [OF t]) (simp_all add: anchor_set_def)
  then have "n_anchor_us n' < ?D"
    using at early [OF g] by (auto simp: anchor_set_def split: if_splits)
  with late show False by simp
qed

definition demo_old :: ctx where
  "demo_old = demo_late\<lparr>c_now := 13107300000\<rparr>"

theorem catch_up_hangs_witness: "anchor_catch_up 0 demo_old = None"
proof (rule catch_up_hangs)
  have n0: "nb demo_old 0 = demo_link True 4 201000" by (simp add: demo_late_def demo_old_def)
  show "0 < length (c_neigh demo_old)" by (simp add: demo_late_def demo_old_def)
  show "on_grid (nb demo_old 0) 1" by (simp add: n0 on_grid_def demo_link_def)
  have d: "catch_deadline 0 demo_old = 13107300400" by code_simp
  show "unat (n_epoch_us (nb demo_old 0)) + 65535 * unat (n_interval_us (nb demo_old 0)) < unat (catch_deadline 0 demo_old)"
    by (simp add: d n0 demo_link_def)
qed

section \<open>Changing parameters at both ends\<close>

text \<open>What decides when and where an end of a link meets the other, and the change it has pending.\<close>

definition schedule :: "neigh \<Rightarrow> u64 \<times> u32 \<times> u64 \<times> u8 \<times> u16 \<times> u16" where
  "schedule n = (n_epoch_us n, n_interval_us n, n_anchor_us n, n_subrate n, n_chan_map n, n_hop_seed n)"

definition pending :: "neigh \<Rightarrow> u8 \<times> u16 \<times> u16 \<times> u8" where
  "pending n = (n_pending_ctrl n, n_instant n, n_pending_chan_map n, n_pending_subrate n)"

lemma counter_cong: "schedule a = schedule b \<Longrightarrow> counter_of a = counter_of b"
  by (simp add: schedule_def counter_of_def)

lemma next_active_cong: "schedule a = schedule b \<Longrightarrow> next_active a c = next_active b c"
  by (simp add: schedule_def next_active_def)

text \<open>An end that holds a confirmed change and the end that received it leave the event with the
  same schedule: same anchor, same subrate, same channel map, so they meet on the same channel.\<close>

theorem confirmed_change_agrees:
  assumes "schedule a = schedule b" "pending a = pending b" "n_initiator a" "n_ctrl_acked a" "\<not> n_initiator b"
  shows "schedule (link_advance a) = schedule (link_advance b) \<and>
    link_next_chan (link_advance a) = link_next_chan (link_advance b)"
proof -
  have s: "schedule (link_advance a) = schedule (link_advance b)"
    using assms counter_cong [OF assms(1)] next_active_cong [OF assms(1)]
    by (simp add: link_advance_def Let_def anchor_set_def schedule_def pending_def)
  then have "link_next_chan (link_advance a) = link_next_chan (link_advance b)"
    using counter_cong [OF s] by (simp add: link_next_chan_def schedule_def)
  with s show ?thesis by simp
qed

definition with_map :: "u16 \<Rightarrow> bool \<Rightarrow> neigh \<Rightarrow> neigh" where
  "with_map m acked n = n\<lparr>n_pending_ctrl := 1, n_pending_chan_map := m, n_instant := 3, n_ctrl_acked := acked\<rparr>"

theorem confirmed_change_agrees_witness:
  "n_chan_map (link_advance (with_map 0xF0 True (demo_link True 1 601000))) = 0xF0 \<and>
   schedule (link_advance (with_map 0xF0 True (demo_link True 1 601000))) =
   schedule (link_advance (with_map 0xF0 False (demo_link False 1 601000)))"
proof -
  have v: "n_chan_map (link_advance (with_map 0xF0 True (demo_link True 1 601000))) = 0xF0" by code_simp
  show ?thesis
    using confirmed_change_agrees [of "with_map 0xF0 True (demo_link True 1 601000)" "with_map 0xF0 False (demo_link False 1 601000)"] v
    by (simp add: schedule_def pending_def with_map_def demo_link_def)
qed

text \<open>When the reply that would confirm a change of the channel map is lost, the end that asked for
  it drops it at the agreed instant while the end that received it adopts it, and neither has
  anything pending: the two are left on different maps for good.\<close>

theorem unconfirmed_change_splits:
  assumes "schedule a = schedule b" "pending a = pending b" "n_initiator a" "\<not> n_ctrl_acked a" "\<not> n_initiator b"
    and "n_pending_ctrl a AND BIT 0 \<noteq> 0" "n_instant a \<le> next_active a (counter_of a)"
  shows "n_chan_map (link_advance a) = n_chan_map a \<and> n_chan_map (link_advance b) = n_pending_chan_map a \<and>
    n_pending_ctrl (link_advance a) = 0 \<and> n_pending_ctrl (link_advance b) = 0"
proof -
  have "n_pending_ctrl a \<noteq> 0" using assms(6) by auto
  then show ?thesis
    using assms counter_cong [OF assms(1)] next_active_cong [OF assms(1)]
    by (simp add: link_advance_def Let_def anchor_set_def schedule_def pending_def)
qed

theorem unconfirmed_change_splits_witness:
  "n_chan_map (link_advance (with_map 0xF0 False (demo_link True 1 601000))) = 0xFFFF \<and>
   n_chan_map (link_advance (with_map 0xF0 False (demo_link False 1 601000))) = 0xF0"
proof -
  let ?a = "with_map 0xF0 False (demo_link True 1 601000)" and ?b = "with_map 0xF0 False (demo_link False 1 601000)"
  have "n_instant ?a \<le> next_active ?a (counter_of ?a)" "n_pending_ctrl ?a AND BIT 0 \<noteq> 0" by code_simp+
  from unconfirmed_change_splits [of ?a ?b, OF _ _ _ _ _ this(2,1)] show ?thesis
    by (simp add: schedule_def pending_def with_map_def demo_link_def)
qed

section \<open>The receive window\<close>

text \<open>The window of a responder is exactly the drift two clocks of the stated accuracies can have
  built up since the last frame, plus the jitter and half the floor, capped at the ceiling; the
  initiator's is always half the floor.\<close>

theorem window_covers_drift:
  assumes "cfg_ok cfg" "n_last_sync_us n \<noteq> 0" "n_last_sync_us n \<le> now" "unat now - unat (n_last_sync_us n) < 2 ^ 40"
  shows "unat (fst (window_of cfg now n)) =
    (if n_initiator n then unat (cfg_rx_window_min_us cfg) div 2
     else min ((unat now - unat (n_last_sync_us n)) * (unat (cfg_clock_accuracy_ppm cfg) + unat (n_peer_sca_ppm n)) div 1000000
                + 40 + unat (cfg_rx_window_min_us cfg) div 2)
              (unat (cfg_rx_window_max_us cfg) div 2))"
proof (cases "n_initiator n")
  case True
  then show ?thesis by (simp add: window_of_def unat_div)
next
  case False
  let ?e = "unat now - unat (n_last_sync_us n)"
  let ?ppm = "unat (cfg_clock_accuracy_ppm cfg) + unat (n_peer_sca_ppm n)"
  have c: "unat (cfg_clock_accuracy_ppm cfg) \<le> 500" "unat (cfg_rx_window_min_us cfg) \<le> 5000"
    "unat (cfg_rx_window_max_us cfg) \<le> 60000"
    using assms(1) by (simp_all add: cfg_ok_def word_le_nat_alt)
  have sca: "unat (n_peer_sca_ppm n) < 65536" using unsigned_less [of "n_peer_sca_ppm n"] by simp
  let ?el = "if n_last_sync_us n \<noteq> 0 \<and> n_last_sync_us n < now then now - n_last_sync_us n else 0"
  have el: "unat ?el = ?e"
    using assms(2,3) by (auto simp: unat_sub word_less_nat_alt word_le_nat_alt)
  have ppm: "unat (cfg_clock_accuracy_ppm cfg + ucast (n_peer_sca_ppm n)) = ?ppm"
    using c(1) sca by (subst unat_add_small) (simp_all add: unat_ucast_up)
  have "?e * ?ppm < 2 ^ 40 * 66036"
    using assms(4) c(1) sca by (intro mult_strict_mono) simp_all
  then have m: "unat (?el * ucast (cfg_clock_accuracy_ppm cfg + ucast (n_peer_sca_ppm n)) :: u64) = ?e * ?ppm"
    by (subst unat_mult_small) (simp_all only: el unat_ucast_up [where 'a = 32 and 'b = 64, simplified] ppm, simp)
  let ?dr = "?el * ucast (cfg_clock_accuracy_ppm cfg + ucast (n_peer_sca_ppm n)) div 1000000 :: u64"
  have d: "unat ?dr = ?e * ?ppm div 1000000" by (simp only: unat_div m) simp
  have "?e * ?ppm div 1000000 \<le> ?e * ?ppm" by simp
  then have db: "?e * ?ppm div 1000000 < 2 ^ 60" using \<open>?e * ?ppm < _\<close> by simp
  have mn: "unat (ucast (cfg_rx_window_min_us cfg div 2) :: u64) = unat (cfg_rx_window_min_us cfg) div 2"
    "unat (ucast (cfg_rx_window_max_us cfg) div 2 :: u64) = unat (cfg_rx_window_max_us cfg) div 2"
    by (simp_all add: unat_ucast_up unat_div)
  have s: "unat (?dr + LG_WINDOW_JITTER_US + ucast (cfg_rx_window_min_us cfg div 2)) =
      ?e * ?ppm div 1000000 + 40 + unat (cfg_rx_window_min_us cfg) div 2"
  proof -
    have a: "unat (?dr + LG_WINDOW_JITTER_US) = ?e * ?ppm div 1000000 + 40"
      using db by (subst unat_add_small) (simp_all only: d, simp_all)
    show ?thesis using db c(2) by (subst unat_add_small) (simp_all only: a mn, simp_all)
  qed
  have mm: "unat (min x y) = min (unat x) (unat y)" for x y :: u64
    by (simp add: min_def word_le_nat_alt)
  have "unat (ucast (min (?dr + LG_WINDOW_JITTER_US + ucast (cfg_rx_window_min_us cfg div 2))
      (ucast (cfg_rx_window_max_us cfg) div 2)) :: u32) =
    min (?e * ?ppm div 1000000 + 40 + unat (cfg_rx_window_min_us cfg) div 2) (unat (cfg_rx_window_max_us cfg) div 2)"
    using c(3) by (subst unat_ucast_small) (simp_all only: mm s mn, simp_all)
  with False show ?thesis by (simp add: window_of_def Let_def)
qed

theorem window_covers_drift_witness:
  "unat (fst (window_of default_cfg 4000000 ((demo_link False 1 0)\<lparr>n_last_sync_us := 1000000, n_peer_sca_ppm := 250\<rparr>))) = 1640"
  using window_covers_drift [of default_cfg "(demo_link False 1 0)\<lparr>n_last_sync_us := 1000000, n_peer_sca_ppm := 250\<rparr>" 4000000]
  by (simp add: cfg_ok_default demo_link_def default_cfg_def [THEN arg_cong [of _ _ cfg_rx_window_min_us]]
      default_cfg_def [THEN arg_cong [of _ _ cfg_rx_window_max_us]] default_cfg_def [THEN arg_cong [of _ _ cfg_clock_accuracy_ppm]])

end
