(* ===== verification/LG_Link.thy ===== *)
theory LG_Link
  imports LG_Anchor
begin

text \<open>
  A link between two authenticated neighbours (\<open>lg_link.c\<close>): establishment and teardown, the frame
  staged for the next event, subrating, the handlers of an event, and the handling of received
  frames. Also \<open>lg_neigh_make_room\<close> of \<open>lg_neigh.c\<close>, which tears a link down. The reason of a
  teardown is only logged and is not an argument here.
\<close>

section \<open>Establishment and teardown\<close>

definition links_changed :: "evt \<Rightarrow> u16 \<Rightarrow> ctx \<Rightarrow> ctx" where
  "links_changed evt addr s =
    (let (changed, s1) = lg_route_recompute s;
         s2 = (if changed then lg_notify LG_EVT_PARENT_CHANGED (lg_parent s1) s1 else s1);
         s3 = lg_notify evt addr (s2\<lparr>c_link_change_us := c_now s2\<rparr>)
     in lg_sched_kick (lg_disc_retune (lg_role_evaluate s3)))"

definition link_establish_neigh :: "ctx \<Rightarrow> lg_link_params \<Rightarrow> bool \<Rightarrow> neigh \<Rightarrow> neigh" where
  "link_establish_neigh s pp initiator n =
    (let interval = CLAMP (pp_interval_us pp) (cfg_conn_interval_min_ms (c_cfg s) * 1000)
                      (cfg_conn_interval_max_ms (c_cfg s) * 1000);
         sup_us = ucast (pp_sup_timeout_cs pp) * 10000 :: u32
     in n\<lparr>n_initiator := initiator, n_interval_us := interval, n_epoch_us := n_anchor_us n, n_counter := 0,
          n_chan_map := (if pp_chan_map pp \<noteq> 0 then pp_chan_map pp else c_chan_map s),
          n_hop_seed := pp_hop_seed pp, n_subrate := 1,
          n_subrate_max := min (pp_subrate_max pp) (min (tn_subrate_max (c_tune s)) (lg_subrate_ceiling interval sup_us)),
          n_peer_sca_ppm := pp_sca_ppm pp, n_sup_timeout_us := sup_us, n_peer_rank := pp_rank pp,
          n_role := pp_role pp, n_pending_ctrl := 0, n_consec_misses := 0, n_tx_pending := False,
          n_last_sync_us := c_now s, n_last_rx_us := c_now s, n_state := LG_NS_LINKED\<rparr>)"

definition lg_link_establish :: "nat \<Rightarrow> lg_link_params \<Rightarrow> bool \<Rightarrow> ctx \<Rightarrow> ctx option" where
  "lg_link_establish i pp initiator s =
    (case anchor_catch_up i (upd_neigh i (link_establish_neigh s pp initiator) s) of
       None \<Rightarrow> None
     | Some s1 \<Rightarrow>
         let s2 = lg_neigh_update_cost i (s1\<lparr>c_link_count := lg_neigh_linked_count s1\<rparr>)
         in Some (links_changed LG_EVT_LINK_UP (n_addr (nb s2 i)) s2))"

definition lg_link_down :: "nat \<Rightarrow> ctx \<Rightarrow> ctx" where
  "lg_link_down i s =
    (let addr = n_addr (nb s i)
     in if n_state (nb s i) \<noteq> LG_NS_LINKED then s
        else
          let s1 = lg_sec_forget_key i (upd_neigh i (\<lambda>n. n\<lparr>n_ltk := n_link_key n, n_has_ltk := True\<rparr>) s);
              s2 = upd_neigh i (\<lambda>n. n\<lparr>n_state := LG_NS_LOST, n_is_parent := False, n_interval_us := 0,
                     n_tx_pending := False, n_join_step := LG_JOIN_IDLE\<rparr>) s1;
              s3 = lg_route_flush_via addr s2
          in links_changed LG_EVT_LINK_DOWN addr (s3\<lparr>c_link_count := lg_neigh_linked_count s3\<rparr>))"

definition lg_link_event_miss :: "nat \<Rightarrow> ctx \<Rightarrow> ctx" where
  "lg_link_event_miss i s =
    (let s1 = lg_neigh_tx_result i False s;
         s2 = lg_chan_result (lg_link_next_chan i s1) False s1;
         n = nb s2 i
     in if n_last_rx_us n \<noteq> 0 \<and> ucast (n_sup_timeout_us n) < c_now s2 - n_last_rx_us n
        then lg_link_down i (upd_stats (\<lambda>st. st\<lparr>st_supervision_timeouts := st_supervision_timeouts st + 1\<rparr>) s2)
        else s2)"

section \<open>Making room in the neighbour table\<close>

definition lg_neigh_make_room :: "u16 \<Rightarrow> ctx \<Rightarrow> nat option \<times> ctx" where
  "lg_neigh_make_room cand_cost s =
    (case find_idx (\<lambda>n. n_state n = LG_NS_FREE) (c_neigh s) of
       Some i \<Rightarrow> (Some i, s)
     | None \<Rightarrow>
         case pick_idx (\<lambda>n. n_state n = LG_NS_HEARD \<or> n_state n = LG_NS_LOST)
                (\<lambda>x y. n_link_cost y < n_link_cost x) (c_neigh s) of
           Some i \<Rightarrow> (Some i, lg_neigh_free i s)
         | None \<Rightarrow>
             case pick_idx (\<lambda>n. \<not> n_is_parent n \<and> unat cand_cost + unat LG_ETX_ONE < unat (n_link_cost n))
                    (\<lambda>x y. n_link_cost y < n_link_cost x) (c_neigh s) of
               Some i \<Rightarrow> (Some i, lg_neigh_free i (lg_link_down i s))
             | None \<Rightarrow> (None, s))"

section \<open>The frame of the next event\<close>

text \<open>Header and body into the entry's buffer; the length so far.\<close>

definition stage_put :: "nat \<Rightarrow> u8 \<Rightarrow> u8 list \<Rightarrow> ctx \<Rightarrow> nat \<times> ctx" where
  "stage_put i ft body s =
    (let n = nb s i;
         (pdu, hdr_len) = lg_frame_hdr_put (n_txbuf n) (c_netid16 s) (LG_FCF_SEC OR ft) (n_tx_seq n) (n_addr n) (c_addr s)
     in (hdr_len + length body,
         upd_neigh i (\<lambda>n. n\<lparr>n_txbuf := blit pdu hdr_len body, n_tx_seq := n_tx_seq n + 1\<rparr>) s))"

definition ctrl_body :: "neigh \<Rightarrow> u8 list" where
  "ctrl_body n =
    (if n_pending_ctrl n = 0 then []
     else if n_pending_ctrl n AND BIT 0 \<noteq> 0
     then [LG_CTRL_CHAN_MAP] @ le16_bytes (n_pending_chan_map n) @ le16_bytes (n_instant n)
     else if n_pending_ctrl n AND BIT 1 \<noteq> 0
     then [LG_CTRL_SUBRATE, n_pending_subrate n] @ le16_bytes (n_instant n)
     else [])"

definition adv_due :: "nat \<Rightarrow> ctx \<Rightarrow> bool" where
  "adv_due i s \<longleftrightarrow> c_adv_urgent s \<and> \<not> n_adv_urgent_done (nb s i) \<or>
     30 * USEC_PER_SEC < c_now s - n_route_adv_us (nb s i)"

definition msg_data_hdr :: "txmsg \<Rightarrow> lg_data_hdr" where
  "msg_data_hdr m = \<lparr>dh_flags = m_flags m, dh_origin = m_origin m, dh_final = m_final m, dh_hops = m_hops m,
     dh_port = m_port m, dh_msg_id = m_msg_id m\<rparr>"

text \<open>A queued message, or a keepalive: the length, whether more is queued, and the state.\<close>

definition stage_data :: "nat \<Rightarrow> ctx \<Rightarrow> nat \<times> bool \<times> ctx" where
  "stage_data i s =
    (case lg_txq_peek (n_addr (nb s i)) s of
       (Some k, s1) \<Rightarrow>
         let m = c_txq s1 ! k;
             (len, s2) = stage_put i LG_FT_DATA (data_hdr_bytes (msg_data_hdr m) @ take (m_len m) (m_payload m)) s1;
             s3 = upd_neigh i (\<lambda>n. n\<lparr>n_tx_needs_ack := True\<rparr>) s2;
             (md, s4) = lg_txq_pending (n_addr (nb s3 i)) s3
         in (len, md, s4)
     | (None, s1) \<Rightarrow>
         let (len, s2) = stage_put i LG_FT_ACK [] s1
         in (len, False, upd_neigh i (\<lambda>n. n\<lparr>n_tx_needs_ack := False\<rparr>) s2))"

definition stage_frame :: "nat \<Rightarrow> ctx \<Rightarrow> nat \<times> bool \<times> ctx" where
  "stage_frame i s =
    (if ctrl_body (nb s i) \<noteq> []
     then let (len, s1) = stage_put i LG_FT_CTRL (ctrl_body (nb s i)) s
          in (len, False, upd_neigh i (\<lambda>n. n\<lparr>n_tx_was_ctrl := True\<rparr>) s1)
     else
       let s0 = upd_neigh i (\<lambda>n. n\<lparr>n_tx_was_ctrl := False\<rparr>) s;
           (body, body_len) = (if adv_due i s0 then lg_route_build_adv (replicate 28 0) 28 s0 else ([], 0))
       in if body_len \<noteq> 0
          then let (len, s1) = stage_put i LG_FT_CTRL (take body_len body) s0;
                   s2 = upd_neigh i (\<lambda>n. n\<lparr>n_route_adv_us := c_now s1, n_adv_urgent_done := True\<rparr>) s1
               in (len, False, s2\<lparr>c_adv_urgent :=
                     list_ex (\<lambda>n. n_state n = LG_NS_LINKED \<and> \<not> n_adv_urgent_done n) (c_neigh s2)\<rparr>)
          else stage_data i s0)"

definition lg_link_stage_tx :: "nat \<Rightarrow> ctx \<Rightarrow> bool \<times> ctx" where
  "lg_link_stage_tx i s =
    (if n_state (nb s i) \<noteq> LG_NS_LINKED \<or> \<not> n_has_key (nb s i) then (False, s)
     else case stage_frame i s of (len, md, s1) \<Rightarrow>
       let s2 = (if md
                 then upd_neigh i (\<lambda>n. n\<lparr>n_txbuf := (n_txbuf n)[LG_OFF_FCF := (n_txbuf n ! LG_OFF_FCF) OR LG_FCF_MD]\<rparr>) s1
                 else s1)
       in case lg_sec_encrypt i (n_txbuf (nb s2 i)) LG_HDR_LEN_SEC len s2 of
            (Inl _, pdu, s3) \<Rightarrow> (False, upd_neigh i (\<lambda>n. n\<lparr>n_txbuf := pdu, n_tx_pending := False\<rparr>) s3)
          | (Inr len', pdu, s3) \<Rightarrow>
              (True, upd_neigh i (\<lambda>n. n\<lparr>n_txbuf := pdu, n_txlen := len', n_tx_pending := True\<rparr>) s3))"

section \<open>Subrating\<close>

definition subrate_update :: "nat \<Rightarrow> ctx \<Rightarrow> ctx" where
  "subrate_update i s =
    (if \<not> n_initiator (nb s i) \<or> n_subrate_max (nb s i) \<le> 1 then s
     else
       let (waiting, s1) = lg_txq_pending (n_addr (nb s i)) s;
           n = nb s1 i;
           want = (if waiting \<or> n_pending_ctrl n \<noteq> 0 then 1
                   else if n_consec_misses n \<noteq> 0 then 1
                   else ucast (min (ucast (n_subrate n) * 2 :: u32) (ucast (n_subrate_max n))) :: u8)
       in if want = n_subrate n \<or> n_pending_ctrl n \<noteq> 0 then s1
          else upd_neigh i (\<lambda>n. n\<lparr>n_pending_subrate := want, n_instant := counter_of n + 6, n_ctrl_acked := False,
                 n_pending_ctrl := n_pending_ctrl n OR BIT 1\<rparr>) s1)"

section \<open>The event, in interrupt context\<close>

definition link_start :: "ctx \<Rightarrow> ctx" where
  "link_start s =
    (case ev_neigh (c_ev s) of
       None \<Rightarrow> s
     | Some i \<Rightarrow>
         let ev = c_ev s; n = nb s i; win = ucast (ev_window_us ev) :: u64;
             s1 = s\<lparr>c_evst := (c_evst s)\<lparr>es_got_rx := False, es_sent_tx := False, es_tx_first := n_initiator n\<rparr>\<rparr>;
             s2 = lg_power_activity LG_PWR_ACT_LINK
                    (upd_stats (\<lambda>st. st\<lparr>st_link_events := st_link_events st + 1\<rparr>) s1)
         in case (if n_initiator n then lg_phy_tx_at (ev_anchor_us ev) (ev_chan ev) (n_txbuf n) (n_txlen n) s2
                  else lg_phy_rx_window (ev_anchor_us ev - win) (ev_anchor_us ev + win + LG_SYNC_WINDOW_US) (ev_chan ev) s2) of
              (True, s3) \<Rightarrow> s3
            | (False, s3) \<Rightarrow> lg_sched_event_done s3)"

definition link_tx_done :: "u64 \<Rightarrow> ctx \<Rightarrow> ctx" where
  "link_tx_done air_end_us s =
    (let s1 = upd_stats (\<lambda>st. st\<lparr>st_frames_tx := st_frames_tx st + 1\<rparr>)
                (s\<lparr>c_evst := (c_evst s)\<lparr>es_sent_tx := True, es_tx_air_end_us := air_end_us\<rparr>\<rparr>)
     in if \<not> es_tx_first (c_evst s1) then lg_sched_event_done s1
        else
          let expect = air_end_us + ucast LG_IFS_US;
              win = ucast (cfg_rx_window_min_us (c_cfg s) div 2) :: u64
          in case lg_phy_rx_window (expect - win) (expect + win + LG_SYNC_WINDOW_US) (ev_chan (c_ev s1)) s1 of
               (True, s2) \<Rightarrow> s2
             | (False, s2) \<Rightarrow> lg_sched_event_done s2)"

text \<open>What the responder takes from a frame it measured; the error is a signed 32-bit difference.\<close>

definition link_resync :: "u64 \<Rightarrow> u64 \<Rightarrow> u64 \<Rightarrow> neigh \<Rightarrow> neigh" where
  "link_resync air_start anchor now n =
    (let err = ucast (air_start - anchor) :: u32
     in n\<lparr>n_sync_err_us := err, n_epoch_us := n_epoch_us n + scast err, n_anchor_us := air_start,
          n_last_sync_us := now, n_consec_misses := 0\<rparr>)"

definition link_rx_done :: "phy_rx \<Rightarrow> ctx \<Rightarrow> ctx" where
  "link_rx_done rx s =
    (case ev_neigh (c_ev s) of
       None \<Rightarrow> s
     | Some i \<Rightarrow>
         let ev = c_ev s; now = c_now s;
             s1 = upd_stats (\<lambda>st. st\<lparr>st_frames_rx := st_frames_rx st + 1\<rparr>)
                    (s\<lparr>c_evst := (c_evst s)\<lparr>es_got_rx := True\<rparr>\<rparr>);
             s2 = upd_neigh i (\<lambda>n. n\<lparr>n_last_rx_us := now\<rparr>) (lg_neigh_rx_rssi i (px_rssi rx) s1);
             s3 = lg_rx_post (px_pdu rx) (px_len rx) (px_rssi rx) (ev_chan ev) (px_air_start_us rx)
                    (lg_chan_result (ev_chan ev) True s2);
             s4 = lg_neigh_tx_result i True s3
         in if es_tx_first (c_evst s4)
            then lg_sched_event_done
                   (if n_tx_was_ctrl (nb s4 i) then upd_neigh i (\<lambda>n. n\<lparr>n_ctrl_acked := True\<rparr>) s4 else s4)
            else
              let s5 = upd_neigh i (link_resync (px_air_start_us rx) (ev_anchor_us ev) now) s4
              in if n_tx_pending (nb s5 i)
                 then case lg_phy_tx_at (px_air_end_us rx + ucast LG_IFS_US) (ev_chan ev) (n_txbuf (nb s5 i)) (n_txlen (nb s5 i)) s5 of
                        (True, s6) \<Rightarrow> s6
                      | (False, s6) \<Rightarrow> lg_sched_event_done s6
                 else lg_sched_event_done s5)"

definition link_rx_fail :: "phy_rx_fail \<Rightarrow> ctx \<Rightarrow> ctx" where
  "link_rx_fail reason s =
    (case ev_neigh (c_ev s) of
       None \<Rightarrow> s
     | Some i \<Rightarrow>
         let chan = ev_chan (c_ev s);
             s1 = (case reason of
                     LG_PHY_RX_CRC \<Rightarrow> lg_chan_result chan False (upd_stats (\<lambda>st. st\<lparr>st_crc_errors := st_crc_errors st + 1\<rparr>) s)
                   | LG_PHY_RX_TIMEOUT \<Rightarrow> lg_chan_result chan False (upd_stats (\<lambda>st. st\<lparr>st_rx_timeouts := st_rx_timeouts st + 1\<rparr>) s)
                   | _ \<Rightarrow> s);
             s2 = (if es_tx_first (c_evst s1) then lg_neigh_tx_result i False s1 else s1)
         in lg_sched_event_done s2)"

definition link_aborted :: "ctx \<Rightarrow> ctx" where
  "link_aborted s = (case ev_neigh (c_ev s) of None \<Rightarrow> s | Some i \<Rightarrow> lg_link_event_miss i s)"

section \<open>Settling the event, on the work queue\<close>

definition lg_link_event_finish :: "nat \<Rightarrow> ctx \<Rightarrow> ctx" where
  "lg_link_event_finish i s =
    (let s1 = (if \<not> es_got_rx (c_evst s) then lg_link_event_miss i s
               else if n_tx_needs_ack (nb s i) \<and> es_sent_tx (c_evst s)
               then let (m, t) = lg_txq_peek (n_addr (nb s i)) s;
                        t1 = (case m of None \<Rightarrow> t | Some k \<Rightarrow> lg_txq_free k t)
                    in upd_neigh i (\<lambda>n. n\<lparr>n_tx_needs_ack := False\<rparr>) t1
               else s)
     in if n_state (nb s1 i) \<noteq> LG_NS_LINKED then s1
        else snd (lg_link_stage_tx i (subrate_update i (lg_link_advance i s1))))"

section \<open>Received frames\<close>

definition handle_ctrl :: "nat \<Rightarrow> u8 list \<Rightarrow> nat \<Rightarrow> ctx \<Rightarrow> ctx" where
  "handle_ctrl i body len s =
    (if len = 0 then s
     else if body ! 0 = LG_CTRL_CHAN_MAP
     then if 5 \<le> len
          then upd_neigh i (\<lambda>n. n\<lparr>n_pending_chan_map := lg_get_le16 body 1, n_instant := lg_get_le16 body 3,
                 n_pending_ctrl := n_pending_ctrl n OR BIT 0\<rparr>) s
          else s
     else if body ! 0 = LG_CTRL_SUBRATE
     then if 4 \<le> len
          then upd_neigh i (\<lambda>n. n\<lparr>n_pending_subrate := body ! 1, n_instant := lg_get_le16 body 2,
                 n_pending_ctrl := n_pending_ctrl n OR BIT 1\<rparr>) s
          else s
     else if body ! 0 = LG_CTRL_INTERVAL
     then if 7 \<le> len
          then upd_neigh i (\<lambda>n. n\<lparr>n_interval_us := CLAMP (lg_get_le32 body 1)
                 (cfg_conn_interval_min_ms (c_cfg s) * 1000) (cfg_conn_interval_max_ms (c_cfg s) * 1000)\<rparr>) s
          else s
     else if body ! 0 = LG_CTRL_ROUTE_ADV then lg_route_handle_adv i body len s
     else if body ! 0 = LG_CTRL_ROUTE_REG then lg_route_handle_reg i body len s
     else if body ! 0 = LG_CTRL_TEARDOWN then lg_link_down i s
     else s)"

text \<open>Passing a message on, after the tests that keep it from circulating.\<close>

definition msg_dropped :: "ctx \<Rightarrow> ctx" where
  "msg_dropped s = upd_stats (\<lambda>st. st\<lparr>st_msgs_dropped_no_route := st_msgs_dropped_no_route st + 1\<rparr>) s"

definition forward_send :: "lg_data_hdr \<Rightarrow> u8 list \<Rightarrow> u8 \<Rightarrow> ctx \<Rightarrow> ctx" where
  "forward_send dh payload flags s =
    (case lg_send_forward (dh_origin dh) (dh_final dh) (dh_port dh) payload (length payload) flags
            (dh_hops dh + 1) (dh_msg_id dh) s of
       (Inr _, t) \<Rightarrow> upd_stats (\<lambda>st. st\<lparr>st_msgs_forwarded := st_msgs_forwarded st + 1\<rparr>) t
     | (Inl _, t) \<Rightarrow> msg_dropped t)"

definition forward_data :: "lg_data_hdr \<Rightarrow> u8 list \<Rightarrow> ctx \<Rightarrow> ctx" where
  "forward_data dh payload s =
    (if c_role s = LG_ROLE_LEAF \<or> LG_HOPS_MAX \<le> dh_hops dh then msg_dropped s
     else if \<not> has_flag (dh_flags dh) LG_DATA_F_UPWARD \<and> dh_final dh \<noteq> LG_ADDR_BACKHAUL
     then case lg_route_next_hop (dh_final dh) 0 s of (hop, s1) \<Rightarrow>
            if hop = LG_ADDR_INVALID then msg_dropped s1
            else forward_send dh payload
                   (if hop \<noteq> lg_parent s1 then dh_flags dh OR LG_DATA_F_DOWNWARD else dh_flags dh) s1
     else forward_send dh payload (dh_flags dh) s)"

definition data_for_us :: "ctx \<Rightarrow> lg_data_hdr \<Rightarrow> bool" where
  "data_for_us s dh \<longleftrightarrow> dh_final dh = c_addr s \<or>
     has_flag (dh_flags dh) LG_DATA_F_UPWARD \<and> c_role s = LG_ROLE_BACKHAUL \<or> has_flag (dh_flags dh) LG_DATA_F_BROADCAST"

definition handle_data :: "nat \<Rightarrow> u8 list \<Rightarrow> nat \<Rightarrow> int \<Rightarrow> ctx \<Rightarrow> ctx" where
  "handle_data i body len rssi s =
    (if len < LG_DATA_HDR_SIZE then s
     else
       let dh = data_hdr_of_bytes body;
           payload_len = len - LG_DATA_HDR_SIZE;
           payload = take payload_len (drop LG_DATA_HDR_SIZE body)
       in if LG_PAYLOAD_MAX < payload_len then s
          else case lg_route_is_duplicate (dh_origin dh) (dh_msg_id dh) s of
            (True, s1) \<Rightarrow> s1
          | (False, s1) \<Rightarrow>
              let info = \<lparr>ri_src = dh_origin dh, ri_prev_hop = n_addr (nb s1 i), ri_port = dh_port dh,
                          ri_rssi = rssi, ri_hops = dh_hops dh\<rparr>;
                  s2 = (if data_for_us s1 dh \<and> c_cb_rx s1 then s1\<lparr>c_app := c_app s1 @ [AppRx info payload]\<rparr> else s1)
              in if data_for_us s1 dh \<and> (\<not> has_flag (dh_flags dh) LG_DATA_F_BROADCAST \<or> dh_final dh = c_addr s1)
                 then s2 else forward_data dh payload s2)"

definition lg_link_rx_frame :: "nat \<Rightarrow> u8 \<Rightarrow> u8 list \<Rightarrow> nat \<Rightarrow> int \<Rightarrow> ctx \<Rightarrow> ctx" where
  "lg_link_rx_frame i fcf payload len rssi s =
    (let s1 = (if fcf AND LG_FCF_TYPE_MASK = LG_FT_DATA then handle_data i payload len rssi s
               else if fcf AND LG_FCF_TYPE_MASK = LG_FT_CTRL then handle_ctrl i payload len s
               else s)
     in if has_flag fcf LG_FCF_MD then lg_sched_expedite i s1 else s1)"

section \<open>What a change of links leaves alone\<close>

text \<open>A view of the node that none of the fields written after a link came or went shows through.\<close>

definition links_free :: "(ctx \<Rightarrow> 'a) \<Rightarrow> bool" where
  "links_free f \<longleftrightarrow>
     (\<forall>u x. f (u\<lparr>c_rng_n := x\<rparr>) = f u) \<and> (\<forall>u x. f (u\<lparr>c_next_scan_us := x\<rparr>) = f u) \<and>
     (\<forall>u x. f (u\<lparr>c_next_beacon_us := x\<rparr>) = f u) \<and> (\<forall>u x. f (u\<lparr>c_want_addr := x\<rparr>) = f u) \<and>
     (\<forall>u x. f (u\<lparr>c_work_sched := x\<rparr>) = f u) \<and> (\<forall>u x. f (u\<lparr>c_work_notify := x\<rparr>) = f u) \<and>
     (\<forall>u x. f (u\<lparr>c_notify_ring := x\<rparr>) = f u) \<and> (\<forall>u x. f (u\<lparr>c_rank := x\<rparr>) = f u) \<and>
     (\<forall>u x. f (u\<lparr>c_stats := x\<rparr>) = f u) \<and> (\<forall>u x. f (u\<lparr>c_adv_urgent := x\<rparr>) = f u) \<and>
     (\<forall>u x. f (u\<lparr>c_role := x\<rparr>) = f u) \<and> (\<forall>u x. f (u\<lparr>c_role_changed_us := x\<rparr>) = f u) \<and>
     (\<forall>u x. f (u\<lparr>c_link_change_us := x\<rparr>) = f u) \<and>
     (\<forall>u ns. map (\<lambda>n. n\<lparr>n_is_parent := False, n_adv_urgent_done := False\<rparr>) ns =
        map (\<lambda>n. n\<lparr>n_is_parent := False, n_adv_urgent_done := False\<rparr>) (c_neigh u) \<longrightarrow>
        f (u\<lparr>c_neigh := ns\<rparr>) = f u)"

lemma links_freeD:
  assumes "links_free f"
  shows "f (u\<lparr>c_rng_n := k\<rparr>) = f u" "f (u\<lparr>c_next_scan_us := t\<rparr>) = f u" "f (u\<lparr>c_next_beacon_us := t\<rparr>) = f u"
    "f (u\<lparr>c_want_addr := a\<rparr>) = f u" "f (u\<lparr>c_work_sched := b\<rparr>) = f u" "f (u\<lparr>c_work_notify := b\<rparr>) = f u"
    "f (u\<lparr>c_notify_ring := r\<rparr>) = f u" "f (u\<lparr>c_rank := a\<rparr>) = f u" "f (u\<lparr>c_stats := st\<rparr>) = f u"
    "f (u\<lparr>c_adv_urgent := b\<rparr>) = f u" "f (u\<lparr>c_role := ro\<rparr>) = f u" "f (u\<lparr>c_role_changed_us := t\<rparr>) = f u"
    "f (u\<lparr>c_link_change_us := t\<rparr>) = f u"
    "map (\<lambda>n. n\<lparr>n_is_parent := False, n_adv_urgent_done := False\<rparr>) ns =
        map (\<lambda>n. n\<lparr>n_is_parent := False, n_adv_urgent_done := False\<rparr>) (c_neigh u) \<Longrightarrow> f (u\<lparr>c_neigh := ns\<rparr>) = f u"
  using assms unfolding links_free_def by auto

lemma free_retune: "links_free f \<Longrightarrow> f (lg_disc_retune s) = f s"
  by (rule retune_field) (simp_all add: links_freeD)

lemma free_kick: "links_free f \<Longrightarrow> f (lg_sched_kick s) = f s"
  by (rule kick_field) (simp add: links_freeD)

lemma free_notify: "links_free f \<Longrightarrow> f (lg_notify e a s) = f s"
  using links_freeD(6) [of f True "s\<lparr>c_notify_ring := ring_put (\<lambda>_. (e, a)) (c_notify_ring s)\<rparr>"]
  by (simp add: lg_notify_def links_freeD)

lemma free_clear: "links_free f \<Longrightarrow> f (clear_parents s) = f s"
  unfolding clear_parents_def by (rule links_freeD(14)) simp_all

lemma map_update_same: "g v = g (xs ! k) \<Longrightarrow> map g (xs[k := v]) = map g xs"
  by (cases "k < length xs") (simp_all add: map_update list_update_beyond, metis list_update_id nth_map)

lemma free_mark: "links_free f \<Longrightarrow> f (mark_parent s e) = f s"
  unfolding mark_parent_def upd_neigh_def
  by (auto split: option.split intro!: links_freeD(14) map_update_same)

lemma free_mark_fold: "links_free f \<Longrightarrow> f (foldl mark_parent s es) = f s"
  by (induction es arbitrary: s) (simp_all add: free_mark)

lemma free_recompute: "links_free f \<Longrightarrow> f (snd (lg_route_recompute s)) = f s"
proof -
  assume f: "links_free f"
  have adv: "f (u\<lparr>c_adv_urgent := True, c_neigh := map (\<lambda>n. n\<lparr>n_adv_urgent_done := False\<rparr>) (c_neigh u)\<rparr>) = f u" for u
    using links_freeD(10) [OF f, of True u]
      links_freeD(14) [OF f, of "map (\<lambda>n. n\<lparr>n_adv_urgent_done := False\<rparr>) (c_neigh u)" "u\<lparr>c_adv_urgent := True\<rparr>"]
    by (simp add: comp_def)
  show "f (snd (lg_route_recompute s)) = f s"
    using free_mark_fold [OF f] free_clear [OF f] free_notify [OF f] links_freeD [OF f] adv
    by (simp add: lg_route_recompute_def Let_def upd_stats_def)
qed

lemma free_role_apply: "links_free f \<Longrightarrow> f (role_apply want s) = f s"
proof -
  assume f: "links_free f"
  have "f (upd_stats g (s\<lparr>c_role := want, c_role_changed_us := c_now s\<rparr>)) = f s" for g
    using links_freeD(12) [OF f, of "c_now s" "s\<lparr>c_role := want\<rparr>"] by (simp add: upd_stats_def links_freeD [OF f])
  then show "f (role_apply want s) = f s"
    by (simp add: role_apply_def Let_def free_notify [OF f] free_kick [OF f] free_retune [OF f] free_recompute [OF f])
qed

lemma free_role_evaluate: "links_free f \<Longrightarrow> f (lg_role_evaluate s) = f s"
  by (rule evaluate_rule) (simp_all add: free_role_apply)

lemma free_links_changed: "links_free f \<Longrightarrow> f (links_changed e a s) = f s"
proof -
  assume f: "links_free f"
  obtain ch t where r: "lg_route_recompute s = (ch, t)" by (cases "lg_route_recompute s")
  with free_recompute [OF f, of s] have t: "f t = f s" by simp
  show "f (links_changed e a s) = f s"
    by (simp add: links_changed_def r Let_def free_kick [OF f] free_retune [OF f] free_role_evaluate [OF f]
        free_notify [OF f] links_freeD [OF f] t)
qed

text \<open>What shows through unchanged: everything about the neighbours but the parent marks.\<close>

definition neigh_core :: "neigh \<Rightarrow> neigh" where
  "neigh_core n = n\<lparr>n_is_parent := False, n_adv_urgent_done := False\<rparr>"

lemma free_core: "links_free (\<lambda>u. map neigh_core (c_neigh u))"
  by (simp add: links_free_def neigh_core_def [abs_def])

lemma free_fields:
  "links_free c_routes" "links_free c_link_count" "links_free c_cfg" "links_free c_addr" "links_free c_txq"
  "links_free c_now" "links_free c_cr" "links_free c_evst" "links_free c_ev" "links_free c_hs" "links_free c_radio"
  "links_free c_netid16" "links_free c_started" "links_free c_backhaul_active"
  by (simp_all add: links_free_def)

lemma core_sel:
  "n_state (neigh_core n) = n_state n" "n_addr (neigh_core n) = n_addr n" "n_has_key (neigh_core n) = n_has_key n"
  "n_key_id (neigh_core n) = n_key_id n" "n_ltk (neigh_core n) = n_ltk n" "n_has_ltk (neigh_core n) = n_has_ltk n"
  "n_link_cost (neigh_core n) = n_link_cost n" "n_peer_rank (neigh_core n) = n_peer_rank n"
  by (simp_all add: neigh_core_def)

lemma links_changed_neigh:
  "length (c_neigh (links_changed e a s)) = length (c_neigh s)"
  "j < length (c_neigh s) \<Longrightarrow> neigh_core (nb (links_changed e a s) j) = neigh_core (nb s j)"
proof -
  have m: "map neigh_core (c_neigh (links_changed e a s)) = map neigh_core (c_neigh s)"
    by (rule free_links_changed [OF free_core])
  then show "length (c_neigh (links_changed e a s)) = length (c_neigh s)" by (rule map_eq_imp_length_eq)
  with m show "j < length (c_neigh s) \<Longrightarrow> neigh_core (nb (links_changed e a s) j) = neigh_core (nb s j)"
    by (metis nth_map)
qed

lemma recompute_unlinked:
  assumes "1 \<le> cfg_max_parents (c_cfg s)" "i < length (c_neigh s)" "n_state (nb s i) \<noteq> LG_NS_LINKED"
  shows "\<not> n_is_parent (nb (snd (lg_route_recompute s)) i)"
proof (cases "c_role s = LG_ROLE_BACKHAUL")
  case True
  with assms(2) show ?thesis by (simp add: lg_route_recompute_def clear_parents_def)
next
  case False
  let ?B = "best_hysteresis s (lg_parent s) (best_loop s)"
  have "n_is_parent (nb (snd (lg_route_recompute s)) i) \<longleftrightarrow> Some i \<in> snd ` set ?B"
    using recompute_result(3) [OF False assms(1) prod.collapse [symmetric] assms(2)] .
  moreover have "eligible s i" if "Some i \<in> snd ` set ?B"
    using that best_hysteresis_props(1) [OF assms(1), of "lg_parent s"] best_loop_props(2) [OF assms(1)] by fastforce
  moreover have "\<not> eligible s i" using assms(3) by (simp add: eligible_def path_cost_def rank_through_def)
  ultimately show ?thesis by blast
qed

text \<open>Parent marks that no later step touches.\<close>

lemma marks_kept:
  "map n_is_parent (c_neigh (lg_notify e a s)) = map n_is_parent (c_neigh s)"
  "map n_is_parent (c_neigh (lg_sched_kick s)) = map n_is_parent (c_neigh s)"
  "map n_is_parent (c_neigh (lg_disc_retune s)) = map n_is_parent (c_neigh s)"
  by (simp_all add: kick_field [of "\<lambda>u. map n_is_parent (c_neigh u)"] retune_field [of "\<lambda>u. map n_is_parent (c_neigh u)"])

lemma mark_at: "map n_is_parent (c_neigh t) = map n_is_parent (c_neigh s) \<Longrightarrow> i < length (c_neigh s) \<Longrightarrow>
    n_is_parent (nb t i) = n_is_parent (nb s i)"
  by (metis length_map nth_map)

lemma role_apply_unlinked:
  assumes "1 \<le> cfg_max_parents (c_cfg s)" "i < length (c_neigh s)" "n_state (nb s i) \<noteq> LG_NS_LINKED"
    "\<not> n_is_parent (nb s i)"
  shows "\<not> n_is_parent (nb (role_apply w s) i)"
proof (cases "w = c_role s")
  case False
  let ?s1 = "upd_stats (\<lambda>st. st\<lparr>st_role_changes := st_role_changes st + 1\<rparr>) (s\<lparr>c_role := w, c_role_changed_us := c_now s\<rparr>)"
  let ?s2 = "snd (lg_route_recompute ?s1)"
  have s1: "c_cfg ?s1 = c_cfg s" "c_neigh ?s1 = c_neigh s" by (simp_all add: upd_stats_def)
  have len: "length (c_neigh ?s2) = length (c_neigh s)"
    using map_eq_imp_length_eq [OF free_recompute [OF free_core, of ?s1]] s1(2) by simp
  have pre: "1 \<le> cfg_max_parents (c_cfg ?s1)" "i < length (c_neigh ?s1)" "n_state (nb ?s1 i) \<noteq> LG_NS_LINKED"
    using assms(1-3) by (simp_all add: upd_stats_def)
  have "\<not> n_is_parent (nb ?s2 i)" by (rule recompute_unlinked [OF pre])
  moreover have "map n_is_parent (c_neigh (role_apply w s)) = map n_is_parent (c_neigh ?s2)"
    by (simp only: role_apply_def Let_def False if_False marks_kept)
  ultimately show ?thesis using mark_at [of "role_apply w s" ?s2 i] len assms(2) by (simp only:) blast
qed (simp add: role_apply_def assms(4))

lemma links_changed_unlinked:
  assumes "1 \<le> cfg_max_parents (c_cfg s)" "i < length (c_neigh s)" "n_state (nb s i) \<noteq> LG_NS_LINKED"
  shows "\<not> n_is_parent (nb (links_changed e a s) i)"
proof -
  obtain ch t where r: "lg_route_recompute s = (ch, t)" by (cases "lg_route_recompute s")
  have t: "t = snd (lg_route_recompute s)" using r by simp
  let ?u = "lg_notify e a ((if ch then lg_notify LG_EVT_PARENT_CHANGED (lg_parent t) t else t)\<lparr>c_link_change_us :=
      c_now (if ch then lg_notify LG_EVT_PARENT_CHANGED (lg_parent t) t else t)\<rparr>)"
  have core: "map neigh_core (c_neigh t) = map neigh_core (c_neigh s)"
    unfolding t by (rule free_recompute [OF free_core])
  then have len: "length (c_neigh t) = length (c_neigh s)" by (rule map_eq_imp_length_eq)
  have st: "n_state (nb t i) \<noteq> LG_NS_LINKED" using core assms(2,3) len core_sel(1) by (metis nth_map)
  have u: "c_neigh ?u = c_neigh t" "c_cfg ?u = c_cfg s"
    using free_recompute [OF free_fields(3), of s] t by (simp_all add: lg_notify_def)
  have "\<not> n_is_parent (nb t i)" unfolding t by (rule recompute_unlinked [OF assms])
  then have base: "\<not> n_is_parent (nb ?u i)" by (simp add: u(1))
  have "\<not> n_is_parent (nb (lg_role_evaluate ?u) i)"
    by (rule evaluate_rule [where P = "\<lambda>v. \<not> n_is_parent (nb v i)", OF base], rule role_apply_unlinked)
      (use assms base u st len in simp_all)
  moreover have "map n_is_parent (c_neigh (links_changed e a s)) = map n_is_parent (c_neigh (lg_role_evaluate ?u))"
    by (simp only: links_changed_def r Let_def prod.case marks_kept)
  moreover have "length (c_neigh (links_changed e a s)) = length (c_neigh s)" by (rule links_changed_neigh)
  ultimately show ?thesis
    using mark_at [of "links_changed e a s" "lg_role_evaluate ?u" i] assms(2) by (metis length_map)
qed

section \<open>Losing a link\<close>

definition no_route_via :: "u16 \<Rightarrow> ctx \<Rightarrow> bool" where
  "no_route_via addr s \<longleftrightarrow> (\<forall>r\<in>set (c_routes s). rt_next_hop r = addr \<longrightarrow> r = route_zero)"

text \<open>The node just before the routing and the role are worked out again.\<close>

definition down_neigh :: "neigh \<Rightarrow> neigh" where
  "down_neigh n = n\<lparr>n_ltk := n_link_key n, n_has_ltk := True, n_key_id := None, n_has_key := False,
     n_link_key := replicate 16 0, n_state := LG_NS_LOST, n_is_parent := False, n_interval_us := 0,
     n_tx_pending := False, n_join_step := LG_JOIN_IDLE\<rparr>"

lemma link_down_unfold:
  assumes "n_state (nb s i) = LG_NS_LINKED" "i < length (c_neigh s)"
  defines "u \<equiv> lg_route_flush_via (n_addr (nb s i)) (upd_neigh i down_neigh s)"
  shows "lg_link_down i s = links_changed LG_EVT_LINK_DOWN (n_addr (nb s i)) (u\<lparr>c_link_count := lg_neigh_linked_count u\<rparr>)"
    "c_neigh u = (c_neigh s)[i := down_neigh (nb s i)]" "c_cfg u = c_cfg s"
    "c_routes u = map (\<lambda>r. if rt_next_hop r = n_addr (nb s i) then route_zero else r) (c_routes s)"
  using assms by (simp_all add: lg_link_down_def lg_sec_forget_key_def upd_neigh_def lg_route_flush_via_def down_neigh_def Let_def)

lemma link_down_facts:
  assumes "i < length (c_neigh s)" "1 \<le> cfg_max_parents (c_cfg s)"
  defines "t \<equiv> lg_link_down i s"
  shows "if n_state (nb s i) \<noteq> LG_NS_LINKED then t = s
    else n_state (nb t i) = LG_NS_LOST \<and> \<not> n_is_parent (nb t i) \<and> \<not> n_has_key (nb t i) \<and> n_key_id (nb t i) = None \<and>
      n_has_ltk (nb t i) \<and> n_ltk (nb t i) = n_link_key (nb s i) \<and> no_route_via (n_addr (nb s i)) t \<and>
      c_link_count t = lg_neigh_linked_count t \<and> length (c_neigh t) = length (c_neigh s) \<and>
      (\<forall>j<length (c_neigh s). j \<noteq> i \<longrightarrow> n_state (nb t j) = n_state (nb s j) \<and> n_addr (nb t j) = n_addr (nb s j) \<and>
         n_has_key (nb t j) = n_has_key (nb s j) \<and> n_key_id (nb t j) = n_key_id (nb s j))"
proof (cases "n_state (nb s i) = LG_NS_LINKED")
  case False
  then show ?thesis by (simp add: t_def lg_link_down_def)
next
  case True
  define u where "u = lg_route_flush_via (n_addr (nb s i)) (upd_neigh i down_neigh s)"
  let ?v = "u\<lparr>c_link_count := lg_neigh_linked_count u\<rparr>"
  note un = link_down_unfold [OF True assms(1), folded u_def]
  have t: "t = links_changed LG_EVT_LINK_DOWN (n_addr (nb s i)) ?v" using un(1) by (simp add: t_def)
  have len: "length (c_neigh t) = length (c_neigh s)" unfolding t by (simp add: links_changed_neigh(1) un(2))
  have core: "neigh_core (nb t j) = neigh_core ((c_neigh s)[i := down_neigh (nb s i)] ! j)" if "j < length (c_neigh s)" for j
    using links_changed_neigh(2) [of j ?v] that unfolding t by (simp add: un(2))
  have self: "neigh_core (nb t i) = neigh_core (down_neigh (nb s i))" using core [OF assms(1)] assms(1) by simp
  have down: "n_state (nb t i) = LG_NS_LOST \<and> \<not> n_has_key (nb t i) \<and> n_key_id (nb t i) = None \<and>
      n_has_ltk (nb t i) \<and> n_ltk (nb t i) = n_link_key (nb s i)"
    using arg_cong [OF self, of n_state] arg_cong [OF self, of n_has_key] arg_cong [OF self, of n_key_id]
      arg_cong [OF self, of n_has_ltk] arg_cong [OF self, of n_ltk] unfolding core_sel by (simp add: down_neigh_def)
  have others: "n_state (nb t j) = n_state (nb s j) \<and> n_addr (nb t j) = n_addr (nb s j) \<and>
      n_has_key (nb t j) = n_has_key (nb s j) \<and> n_key_id (nb t j) = n_key_id (nb s j)"
    if "j < length (c_neigh s)" "j \<noteq> i" for j
  proof -
    have "neigh_core (nb t j) = neigh_core (nb s j)" using core [OF that(1)] that(2) by simp
    from arg_cong [OF this, of n_state] arg_cong [OF this, of n_addr] arg_cong [OF this, of n_has_key]
      arg_cong [OF this, of n_key_id] show ?thesis unfolding core_sel by simp
  qed
  have "c_routes t = c_routes u" unfolding t by (simp add: free_links_changed [OF free_fields(1)])
  then have routes: "no_route_via (n_addr (nb s i)) t" by (auto simp: no_route_via_def un(4))
  have "c_link_count t = lg_neigh_linked_count u" unfolding t by (simp add: free_links_changed [OF free_fields(2)])
  moreover have "map n_state (c_neigh t) = map n_state (c_neigh u)"
    using len core core_sel(1) by (intro nth_equalityI) (simp_all add: un(2), metis)
  then have "lg_neigh_linked_count t = lg_neigh_linked_count u"
  proof -
    have "length (filter (\<lambda>n. n_state n = LG_NS_LINKED) ns) = count_list (map n_state ns) LG_NS_LINKED" for ns :: "neigh list"
      by (induction ns) auto
    then show ?thesis using \<open>map n_state (c_neigh t) = _\<close> by (simp add: lg_neigh_linked_count_def)
  qed
  ultimately have count: "c_link_count t = lg_neigh_linked_count t" by simp
  have "\<not> n_is_parent (nb t i)" unfolding t
    by (rule links_changed_unlinked) (use assms un in \<open>simp_all add: down_neigh_def\<close>)
  with True down others routes count len show ?thesis by auto
qed

text \<open>C28: after a link goes down its entry is lost and no parent, holds no key but keeps the link key for
  a quick return, no route leads through it, and the count of links is right; every other neighbour
  keeps its state and its keys, and if the entry was not linked nothing happens at all.\<close>

theorem link_down_effect:
  assumes "i < length (c_neigh s)" "1 \<le> cfg_max_parents (c_cfg s)"
  defines "t \<equiv> lg_link_down i s"
  shows "if n_state (nb s i) \<noteq> LG_NS_LINKED then t = s
    else n_state (nb t i) = LG_NS_LOST \<and> \<not> n_is_parent (nb t i) \<and> \<not> n_has_key (nb t i) \<and> n_key_id (nb t i) = None \<and>
      n_has_ltk (nb t i) \<and> n_ltk (nb t i) = n_link_key (nb s i) \<and> no_route_via (n_addr (nb s i)) t \<and>
      c_link_count t = lg_neigh_linked_count t \<and> length (c_neigh t) = length (c_neigh s) \<and>
      (\<forall>j<length (c_neigh s). j \<noteq> i \<longrightarrow> n_state (nb t j) = n_state (nb s j) \<and> n_addr (nb t j) = n_addr (nb s j) \<and>
         n_has_key (nb t j) = n_has_key (nb s j) \<and> n_key_id (nb t j) = n_key_id (nb s j))"
  unfolding t_def by (rule link_down_facts [OF assms(1,2)])

definition demo_mesh_keys :: ctx where
  "demo_mesh_keys = upd_neigh 1 (\<lambda>n. n\<lparr>n_has_key := True, n_link_key := replicate 16 9, n_key_id := Some (replicate 16 9)\<rparr>)
     (lg_route_add 40 22 1 demo_mesh)"

theorem link_down_effect_witness:
  "n_state (nb (lg_link_down 1 demo_mesh_keys) 1) = LG_NS_LOST \<and> no_route_via 22 (lg_link_down 1 demo_mesh_keys) \<and>
   \<not> no_route_via 22 demo_mesh_keys"
proof -
  have h: "1 < length (c_neigh demo_mesh_keys)" "1 \<le> cfg_max_parents (c_cfg demo_mesh_keys)"
    and st: "n_state (nb demo_mesh_keys 1) = LG_NS_LINKED" "n_addr (nb demo_mesh_keys 1) = 22"
    and no: "\<not> no_route_via 22 demo_mesh_keys" by code_simp+
  from link_down_effect [OF h] st no show ?thesis by simp
qed

section \<open>Making room\<close>

lemma pick_idx_max:
  fixes f :: "'a \<Rightarrow> 'b::len word"
  assumes "pick_idx P (\<lambda>x y. f y < f x) xs = Some i" "x \<in> set xs" "P x"
  shows "f x \<le> f (xs ! i)"
  using pick_idx_min [where f = "\<lambda>x. - uint (f x)", of P xs i x] assms by (simp add: word_less_def word_le_def)

lemma neigh_free_at: "i < length (c_neigh s) \<Longrightarrow> n_state (nb (lg_neigh_free i s) i) = LG_NS_FREE"
  "j \<noteq> i \<Longrightarrow> nb (lg_neigh_free i s) j = nb s j"
  by (simp_all add: c_neigh_neigh_free neigh_zero_def)

text \<open>Making room for a candidate never costs a parent: it takes a free entry when there is one,
  else one without a link or a handshake, else the most expensive entry that is no parent and clearly
  worse than the candidate; otherwise it refuses and changes nothing. The entry it names is free
  afterwards and every other entry keeps its state and its key.\<close>

theorem make_room_spares_parents:
  assumes "1 \<le> cfg_max_parents (c_cfg s)" "lg_neigh_make_room cand s = (r, t)"
  shows "case r of
      None \<Rightarrow> t = s \<and> (\<forall>n\<in>set (c_neigh s). n_state n \<in> {LG_NS_LINKED, LG_NS_JOINING} \<and>
        (n_is_parent n \<or> unat (n_link_cost n) \<le> unat cand + unat LG_ETX_ONE))
    | Some i \<Rightarrow> i < length (c_neigh s) \<and> n_state (nb t i) = LG_NS_FREE \<and>
        (n_state (nb s i) \<in> {LG_NS_FREE, LG_NS_HEARD, LG_NS_LOST} \<or>
         (\<forall>n\<in>set (c_neigh s). n_state n \<in> {LG_NS_LINKED, LG_NS_JOINING}) \<and> \<not> n_is_parent (nb s i) \<and>
         unat cand + unat LG_ETX_ONE < unat (n_link_cost (nb s i)) \<and>
         (\<forall>n\<in>set (c_neigh s). \<not> n_is_parent n \<longrightarrow> n_link_cost n \<le> n_link_cost (nb s i))) \<and>
        (\<forall>j<length (c_neigh s). j \<noteq> i \<longrightarrow> n_state (nb t j) = n_state (nb s j) \<and> n_has_key (nb t j) = n_has_key (nb s j))"
proof -
  let ?idle = "\<lambda>n. n_state n = LG_NS_HEARD \<or> n_state n = LG_NS_LOST"
  let ?bad = "\<lambda>n. \<not> n_is_parent n \<and> unat cand + unat LG_ETX_ONE < unat (n_link_cost n)"
  let ?worse = "\<lambda>x y. n_link_cost y < n_link_cost x"
  show ?thesis
  proof (cases "find_idx (\<lambda>n. n_state n = LG_NS_FREE) (c_neigh s)")
    case (Some i)
    then have "r = Some i" "t = s" using assms(2) by (simp_all add: lg_neigh_make_room_def)
    with find_idx_SomeD [OF Some] show ?thesis by simp
  next
    case nofree: None
    then have nf: "\<forall>n\<in>set (c_neigh s). n_state n \<noteq> LG_NS_FREE" by (simp add: find_idx_None_iff)
    show ?thesis
    proof (cases "pick_idx ?idle ?worse (c_neigh s)")
      case (Some i)
      have i: "i < length (c_neigh s)" "?idle (nb s i)" using pick_idx_SomeD [OF Some] by simp_all
      have r: "r = Some i" "t = lg_neigh_free i s" using assms(2) nofree Some by (simp_all add: lg_neigh_make_room_def)
      show ?thesis using i neigh_free_at(1) [of i s] neigh_free_at(2) [of _ i s] by (auto simp: r)
    next
      case noidle: None
      then have busy: "\<forall>n\<in>set (c_neigh s). n_state n \<in> {LG_NS_LINKED, LG_NS_JOINING}"
        using nf unfolding pick_idx_None_iff by (metis insert_iff neigh_state.exhaust)
      show ?thesis
      proof (cases "pick_idx ?bad ?worse (c_neigh s)")
        case None
        then have "r = None" "t = s" using assms(2) nofree noidle by (simp_all add: lg_neigh_make_room_def)
        with None busy show ?thesis unfolding pick_idx_None_iff by auto
      next
        case (Some i)
        have i: "i < length (c_neigh s)" "?bad (nb s i)" using pick_idx_SomeD [OF Some] by simp_all
        have r: "r = Some i" "t = lg_neigh_free i (lg_link_down i s)"
          using assms(2) nofree noidle Some by (simp_all add: lg_neigh_make_room_def)
        have worst: "n_link_cost n \<le> n_link_cost (nb s i)" if "n \<in> set (c_neigh s)" "\<not> n_is_parent n" for n
          using pick_idx_max [OF Some that(1)] that(2) i(2) by (cases "?bad n") (auto simp: word_le_nat_alt)
        note down = link_down_facts [OF i(1) assms(1)]
        have len: "length (c_neigh (lg_link_down i s)) = length (c_neigh s)"
          using down by (auto split: if_splits)
        have keep: "n_state (nb t j) = n_state (nb s j) \<and> n_has_key (nb t j) = n_has_key (nb s j)"
          if "j < length (c_neigh s)" "j \<noteq> i" for j
          using down that neigh_free_at(2) [OF that(2)] by (auto simp: r split: if_splits)
        show ?thesis using i busy worst keep neigh_free_at(1) [of i "lg_link_down i s"] len by (simp add: r)
      qed
    qed
  qed
qed

definition demo_full :: ctx where
  "demo_full = demo_node\<lparr>c_neigh := map (\<lambda>a. (demo_linked (of_nat a) 20 (of_nat (20 * a)))\<lparr>n_is_parent := (a = 7)\<rparr>) [0..<8]\<rparr>"

theorem make_room_spares_parents_witness:
  "fst (lg_neigh_make_room 16 demo_full) = Some 6 \<and>
   n_state (nb (snd (lg_neigh_make_room 16 demo_full)) 6) = LG_NS_FREE \<and> n_is_parent (nb demo_full 7)"
proof -
  have h: "1 \<le> cfg_max_parents (c_cfg demo_full)" and p: "n_is_parent (nb demo_full 7)"
    and f: "find_idx (\<lambda>n. n_state n = LG_NS_FREE) (c_neigh demo_full) = None"
      "pick_idx (\<lambda>n. n_state n = LG_NS_HEARD \<or> n_state n = LG_NS_LOST)
         (\<lambda>x y. n_link_cost y < n_link_cost x) (c_neigh demo_full) = None"
      "pick_idx (\<lambda>n. \<not> n_is_parent n \<and> unat (16 :: u16) + unat LG_ETX_ONE < unat (n_link_cost n))
         (\<lambda>x y. n_link_cost y < n_link_cost x) (c_neigh demo_full) = Some 6" by code_simp+
  have r: "fst (lg_neigh_make_room 16 demo_full) = Some 6"
    unfolding lg_neigh_make_room_def f option.case fst_conv ..
  have "lg_neigh_make_room 16 demo_full = (Some 6, snd (lg_neigh_make_room 16 demo_full))"
    by (simp only: r [symmetric] prod.collapse)
  from make_room_spares_parents [OF h this, unfolded option.case, THEN conjunct2, THEN conjunct1] r p
  show ?thesis by (intro conjI)
qed

section \<open>Re-anchoring on a measured frame\<close>

text \<open>When a responder takes its anchor from the frame it just measured, early or late, it moves the
  epoch by the same amount, so the number of the event - and with it the channel - stays what it was
  and only the times move.\<close>

theorem resync_keeps_event:
  fixes air anchor now :: u64 and n :: neigh
  assumes "n_anchor_us n = anchor" "n_epoch_us n \<le> anchor"
    and fits: "scast (ucast (air - anchor) :: u32) = air - anchor"
    and nowrap: "n_epoch_us n + (air - anchor) \<le> air"
  defines "m \<equiv> link_resync air anchor now n"
  shows "n_anchor_us m = air \<and> n_epoch_us m = n_epoch_us n + (air - anchor) \<and>
    counter_of m = counter_of n \<and> link_next_chan m = link_next_chan n"
proof -
  have m: "n_anchor_us m = air" "n_epoch_us m = n_epoch_us n + (air - anchor)"
    "n_interval_us m = n_interval_us n" "n_chan_map m = n_chan_map n" "n_hop_seed m = n_hop_seed n"
    by (simp_all add: m_def link_resync_def Let_def fits)
  have d: "n_anchor_us m - n_epoch_us m = n_anchor_us n - n_epoch_us n" by (simp add: m assms(1))
  have "\<not> n_anchor_us m < n_epoch_us m" "\<not> n_anchor_us n < n_epoch_us n"
    using nowrap assms(1,2) m by (simp_all add: not_less)
  then have "counter_of m = counter_of n" by (simp only: counter_of_def d m(3))
  then show ?thesis by (simp add: m link_next_chan_def)
qed

theorem resync_keeps_event_witness:
  "counter_of (link_resync 600950 601000 0 (demo_link False 1 601000)) = 3 \<and>
   n_epoch_us (link_resync 600950 601000 0 (demo_link False 1 601000)) = 950"
proof -
  have "counter_of (demo_link False 1 601000) = 3" by code_simp
  moreover have "n_anchor_us (demo_link False 1 601000) = 601000" "n_epoch_us (demo_link False 1 601000) = 1000"
    by (simp_all add: demo_link_def)
  ultimately show ?thesis
    using resync_keeps_event [of "demo_link False 1 601000" 601000 600950 0] by simp
qed

section \<open>Forwarding stops\<close>

lemma expedite_queue [simp]: "c_txq (lg_sched_expedite i s) = c_txq s"
  by (simp add: lg_sched_expedite_def Let_def lg_sched_kick_def upd_neigh_def)

lemma next_hop_queue [simp]: "c_txq (snd (lg_route_next_hop f fl s)) = c_txq s"
  by (simp add: lg_route_next_hop_def Let_def split: option.splits)

lemma fill_hops:
  "m \<in> set (c_txq (txq_fill k og fn port buf len flags hops msg_id s)) \<Longrightarrow> m \<in> set (c_txq s) \<or> m_hops m = hops"
  by (auto simp: txq_fill_def dest!: set_update_subset_insert [THEN subsetD])

lemma broadcast_hops:
  "m \<in> set (c_txq (snd (broadcast_loop og port buf len flags hops msg_id is sent s))) \<Longrightarrow>
   m \<in> set (c_txq s) \<or> m_hops m = hops"
proof (induction "is" arbitrary: sent s)
  case (Cons i "is")
  show ?case
  proof (cases "n_state (nb s i) = LG_NS_LINKED")
    case True
    show ?thesis
    proof (cases "txq_alloc s")
      case (Some k)
      let ?t = "txq_fill k og (n_addr (nb s i)) port buf len flags hops msg_id s"
      have "m \<in> set (c_txq ?t) \<or> m_hops m = hops"
        using Cons.IH [of "sent + 1" "lg_sched_expedite i ?t"] Cons.prems True Some by simp
      then show ?thesis using fill_hops by blast
    qed (use Cons.prems True in simp)
  qed (use Cons in simp)
qed simp

lemma send_forward_hops:
  "m \<in> set (c_txq (snd (lg_send_forward og fn port buf len flags hops msg_id s))) \<Longrightarrow>
   m \<in> set (c_txq s) \<or> m_hops m = hops"
proof -
  assume m: "m \<in> set (c_txq (snd (lg_send_forward og fn port buf len flags hops msg_id s)))"
  obtain hop u where hu: "lg_route_next_hop fn flags s = (hop, u)" by (cases "lg_route_next_hop fn flags s")
  then have q: "c_txq u = c_txq s" using next_hop_queue [of fn flags s] by simp
  obtain k v where kv: "broadcast_loop og port buf len flags hops msg_id [0..<length (c_neigh s)] 0 s = (k, v)"
    by (cases "broadcast_loop og port buf len flags hops msg_id [0..<length (c_neigh s)] 0 s")
  show ?thesis
  proof (cases "has_flag flags LG_DATA_F_BROADCAST")
    case True
    with m kv broadcast_hops [of m og port buf len flags hops msg_id "[0..<length (c_neigh s)]" 0 s] show ?thesis
      by (auto simp: lg_send_forward_def split: if_splits)
  next
    case False
    with m hu q fill_hops [of m _ og fn port buf len flags hops msg_id u] show ?thesis
      by (auto simp: lg_send_forward_def split: if_splits option.splits)
  qed
qed

lemma upd_stats_queue [simp]: "c_txq (upd_stats f s) = c_txq s"
  by (simp add: upd_stats_def)

lemma msg_dropped_queue [simp]: "c_txq (msg_dropped s) = c_txq s"
  by (simp add: msg_dropped_def)

lemma forward_send_queue:
  assumes "m \<in> set (c_txq (forward_send dh payload flags s))"
  shows "m \<in> set (c_txq s) \<or> m_hops m = dh_hops dh + 1"
proof -
  obtain r t where rt: "lg_send_forward (dh_origin dh) (dh_final dh) (dh_port dh) payload (length payload) flags
      (dh_hops dh + 1) (dh_msg_id dh) s = (r, t)" by (rule prod.exhaust)
  have "m \<in> set (c_txq t)" using assms rt by (cases r) (simp_all add: forward_send_def)
  with rt show ?thesis using send_forward_hops [of m "dh_origin dh" "dh_final dh" "dh_port dh" payload "length payload"
      flags "dh_hops dh + 1" "dh_msg_id dh" s] by simp
qed

lemma forward_data_queue:
  assumes "m \<in> set (c_txq (forward_data dh payload s))"
  shows "m \<in> set (c_txq s) \<or> m_hops m = dh_hops dh + 1 \<and> dh_hops dh < LG_HOPS_MAX"
proof (cases "c_role s = LG_ROLE_LEAF \<or> LG_HOPS_MAX \<le> dh_hops dh")
  case True
  with assms show ?thesis by (simp add: forward_data_def)
next
  case False
  then have lt: "dh_hops dh < LG_HOPS_MAX" by (simp add: not_le)
  obtain hop u where hu: "lg_route_next_hop (dh_final dh) 0 s = (hop, u)" by (rule prod.exhaust)
  then have q: "c_txq u = c_txq s" using next_hop_queue [of "dh_final dh" 0 s] by simp
  have "m \<in> set (c_txq u) \<or> (\<exists>fl v. c_txq v = c_txq s \<and> m \<in> set (c_txq (forward_send dh payload fl v)))"
    using assms False hu q unfolding forward_data_def by (auto split: if_splits)
  then show ?thesis using forward_send_queue [of m dh payload] lt q by fastforce
qed



section \<open>Staging and the queue\<close>

lemma msg_hop_queue [simp]: "c_txq (snd (msg_next_hop m s)) = c_txq s"
  by (simp add: msg_next_hop_def)

lemma peek_step_queue: "c_txq (snd (peek_step peer acc i)) = c_txq (snd acc)"
proof (cases acc)
  case (Pair oldest s)
  obtain hop u where hu: "msg_next_hop (c_txq s ! i) s = (hop, u)" by (rule prod.exhaust)
  then have "c_txq u = c_txq s" using msg_hop_queue [of "c_txq s ! i" s] by simp
  with Pair hu show ?thesis by (simp add: peek_step_def Let_def)
qed

lemma peek_queue [simp]: "c_txq (snd (lg_txq_peek peer s)) = c_txq s"
proof -
  have "c_txq (snd (foldl (peek_step peer) acc xs)) = c_txq (snd acc)" for acc xs
    by (induction xs arbitrary: acc) (simp_all add: peek_step_queue)
  from this [of "(None, s)"] show ?thesis by (simp add: lg_txq_peek_def)
qed

lemma pending_queue [simp]: "c_txq (snd (lg_txq_pending peer s)) = c_txq s"
  using peek_queue [of peer s] by (cases "lg_txq_peek peer s") (simp add: lg_txq_pending_def)

lemma upd_neigh_queue [simp]: "c_txq (upd_neigh i f s) = c_txq s"
  by (simp add: upd_neigh_def)

lemma stage_put_queue [simp]: "c_txq (snd (stage_put i ft body s)) = c_txq s"
  by (simp add: stage_put_def Let_def split: prod.split)

lemma encrypt_queue [simp]: "c_txq (snd (snd (lg_sec_encrypt i pdu h len s))) = c_txq s"
  by (simp add: lg_sec_encrypt_def Let_def split: option.split)

lemma stage_data_queue [simp]: "c_txq (snd (snd (stage_data i s))) = c_txq s"
proof -
  obtain m u where mu: "lg_txq_peek (n_addr (nb s i)) s = (m, u)" by (rule prod.exhaust)
  then have u: "c_txq u = c_txq s" using peek_queue [of "n_addr (nb s i)" s] by simp
  have put: "stage_put i ft body v = (l, w) \<Longrightarrow> c_txq w = c_txq v" for ft body v l w
    using stage_put_queue [of i ft body v] by simp
  have pend: "lg_txq_pending p v = (b, w) \<Longrightarrow> c_txq w = c_txq v" for p v b w
    using pending_queue [of p v] by simp
  show ?thesis unfolding stage_data_def mu
    by (cases m) (auto simp: u Let_def split: prod.split dest!: put pend)
qed

lemma stage_frame_queue [simp]: "c_txq (snd (snd (stage_frame i s))) = c_txq s"
proof -
  have put: "stage_put i ft body v = (l, w) \<Longrightarrow> c_txq w = c_txq v" for ft body v l w
    using stage_put_queue [of i ft body v] by simp
  show ?thesis unfolding stage_frame_def
    by (auto simp: Let_def split: prod.split dest!: put)
qed

lemma stage_tx_queue [simp]: "c_txq (snd (lg_link_stage_tx i s)) = c_txq s"
proof -
  obtain len md u where f: "stage_frame i s = (len, md, u)" by (metis prod.exhaust)
  then have u: "c_txq u = c_txq s" using stage_frame_queue [of i s] by simp
  have enc: "lg_sec_encrypt i pdu h l v = (r, p, w) \<Longrightarrow> c_txq w = c_txq v" for pdu h l v r p w
    using encrypt_queue [of i pdu h l v] by simp
  show ?thesis unfolding lg_link_stage_tx_def f
    by (auto simp: Let_def u split: prod.split sum.split dest!: enc)
qed

lemma subrate_queue [simp]: "c_txq (subrate_update i s) = c_txq s"
proof -
  obtain b u where bu: "lg_txq_pending (n_addr (nb s i)) s = (b, u)" by (rule prod.exhaust)
  then have "c_txq u = c_txq s" using pending_queue [of "n_addr (nb s i)" s] by simp
  then show ?thesis by (simp add: subrate_update_def bu Let_def)
qed

lemma advance_queue [simp]: "c_txq (lg_link_advance i s) = c_txq s"
  by (simp add: lg_link_advance_def)


text \<open>A control frame leaves the mark of the data frame it replaces.\<close>

lemma nb_upd_same: "i < length (c_neigh s) \<Longrightarrow> nb (upd_neigh i f s) i = f (nb s i)"
  by (simp add: nb_upd_neigh)

lemma stage_ctrl:
  assumes "ctrl_body (nb s i) \<noteq> []" "i < length (c_neigh s)" "n_state (nb s i) = LG_NS_LINKED" "n_has_key (nb s i)"
    and "lg_link_stage_tx i s = (ok, t)"
  shows "n_tx_needs_ack (nb t i) = n_tx_needs_ack (nb s i)" "length (c_neigh t) = length (c_neigh s)"
proof -
  obtain len u where put: "stage_put i LG_FT_CTRL (ctrl_body (nb s i)) s = (len, u)" by (rule prod.exhaust)
  have u: "n_tx_needs_ack (nb u i) = n_tx_needs_ack (nb s i)" "length (c_neigh u) = length (c_neigh s)"
    using put assms(2) by (auto simp: stage_put_def Let_def nb_upd_same split: prod.splits)
  define v where "v = upd_neigh i (\<lambda>n. n\<lparr>n_tx_was_ctrl := True\<rparr>) u"
  have v: "n_tx_needs_ack (nb v i) = n_tx_needs_ack (nb s i)" "length (c_neigh v) = length (c_neigh s)"
    using u assms(2) by (simp_all add: v_def nb_upd_same)
  have "stage_frame i s = (len, False, v)" using assms(1) put by (simp add: stage_frame_def v_def)
  then have "n_tx_needs_ack (nb t i) = n_tx_needs_ack (nb s i) \<and> length (c_neigh t) = length (c_neigh s)"
    using assms(2-5) v
    by (auto simp: lg_link_stage_tx_def lg_sec_encrypt_def Let_def nb_upd_same split: if_splits option.splits)
  then show "n_tx_needs_ack (nb t i) = n_tx_needs_ack (nb s i)" "length (c_neigh t) = length (c_neigh s)" by simp_all
qed


lemma ctrl_body_short: "length (ctrl_body n) \<le> 5"
  by (simp add: ctrl_body_def le16_bytes_def)

lemma fcf_after_hdr:
  assumes "LG_HDR_LEN_SEC \<le> length pdu" "LG_HDR_LEN_SEC \<le> h" "h \<le> length pdu"
  shows "blit (fst (lg_frame_hdr_put pdu netid fcf sq dst src)) h body ! LG_OFF_FCF = fcf"
  using assms by (simp add: nth_blit_before hdr_put_eq hdr_fields(2) [OF refl])

lemma encrypt_fcf:
  assumes "lg_sec_encrypt i pdu LG_HDR_LEN_SEC len s = (r, pdu', t)" "LG_HDR_LEN_SEC \<le> length pdu"
  shows "pdu' ! LG_OFF_FCF = pdu ! LG_OFF_FCF"
  using assms by (auto simp: lg_sec_encrypt_def Let_def lg_put_le32_def nth_blit_before split: if_splits option.splits)

lemma stage_ctrl_type:
  assumes "ctrl_body (nb s i) \<noteq> []" "i < length (c_neigh s)" "n_state (nb s i) = LG_NS_LINKED" "n_has_key (nb s i)"
    and "lg_link_stage_tx i s = (ok, t)" "length (n_txbuf (nb s i)) = LG_PDU_MAX"
  shows "lg_frame_type (n_txbuf (nb t i)) = LG_FT_CTRL"
proof -
  obtain len u where put: "stage_put i LG_FT_CTRL (ctrl_body (nb s i)) s = (len, u)" by (rule prod.exhaust)
  obtain pdu h where hd: "lg_frame_hdr_put (n_txbuf (nb s i)) (c_netid16 s) (LG_FCF_SEC OR LG_FT_CTRL)
      (n_tx_seq (nb s i)) (n_addr (nb s i)) (c_addr s) = (pdu, h)" by (rule prod.exhaust)
  have h: "h = LG_HDR_LEN_SEC" using hd hdr_put_len [of "n_txbuf (nb s i)" "c_netid16 s" "LG_FCF_SEC OR LG_FT_CTRL"
      "n_tx_seq (nb s i)" "n_addr (nb s i)" "c_addr s"] by (simp add: fcf_defs ft_defs)
  have p: "pdu = fst (lg_frame_hdr_put (n_txbuf (nb s i)) (c_netid16 s) (LG_FCF_SEC OR LG_FT_CTRL)
      (n_tx_seq (nb s i)) (n_addr (nb s i)) (c_addr s))" using hd by simp
  have len: "length pdu = LG_PDU_MAX" unfolding p by (simp add: assms(6))
  have fcf: "blit pdu LG_HDR_LEN_SEC body ! LG_OFF_FCF = LG_FCF_SEC OR LG_FT_CTRL" for body
    unfolding p by (rule fcf_after_hdr) (simp_all add: assms(6))
  have u: "n_txbuf (nb u i) ! LG_OFF_FCF = LG_FCF_SEC OR LG_FT_CTRL"
    "length (n_txbuf (nb u i)) = LG_PDU_MAX" "length (c_neigh u) = length (c_neigh s)"
    using put assms(2) hd h len fcf ctrl_body_short [of "nb s i"]
    by (auto simp: stage_put_def Let_def nb_upd_same)
  define v where "v = upd_neigh i (\<lambda>n. n\<lparr>n_tx_was_ctrl := True\<rparr>) u"
  have v: "n_txbuf (nb v i) = n_txbuf (nb u i)" "length (c_neigh v) = length (c_neigh s)"
    using u assms(2) by (simp_all add: v_def nb_upd_same)
  obtain r pdu' w where enc: "lg_sec_encrypt i (n_txbuf (nb v i)) LG_HDR_LEN_SEC len v = (r, pdu', w)"
    by (metis prod.exhaust)
  have w: "length (c_neigh w) = length (c_neigh s)" using encrypt_effect(2) [OF enc] v assms(2) by simp
  have "stage_frame i s = (len, False, v)" using assms(1) put by (simp add: stage_frame_def v_def)
  then have "n_txbuf (nb t i) = pdu'"
    using assms(2-5) enc w by (cases r) (auto simp: lg_link_stage_tx_def Let_def nb_upd_same)
  then show ?thesis
    using encrypt_fcf [OF enc] u v by (simp add: lg_frame_type_def fcf_defs ft_defs)
qed



definition demo_ctrl :: ctx where
  "demo_ctrl = upd_neigh 1 (\<lambda>n. n\<lparr>n_pending_ctrl := 2, n_pending_subrate := 1, n_tx_needs_ack := True\<rparr>)
     (demo_mesh_keys\<lparr>c_txq := c_txq demo_queue\<rparr>)"

definition demo_ctrl_event :: ctx where
  "demo_ctrl_event = (snd (lg_link_stage_tx 1 demo_ctrl))\<lparr>c_evst :=
     \<lparr>es_tx_first = True, es_got_rx = True, es_sent_tx = True, es_tx_air_end_us = 0\<rparr>\<rparr>"


section \<open>Broadcasts\<close>

lemma nb_upd_any: "(\<And>n. g (f n) = g n) \<Longrightarrow> g (nb (upd_neigh i f s) j) = g (nb s j)"
  by (cases "i < length (c_neigh s)") (simp_all add: upd_neigh_def nth_list_update list_update_beyond)

lemma expedite_neigh [simp]: "n_addr (nb (lg_sched_expedite i s) j) = n_addr (nb s j)"
  "n_state (nb (lg_sched_expedite i s) j) = n_state (nb s j)"
  "length (c_neigh (lg_sched_expedite i s)) = length (c_neigh s)"
  by (simp_all add: lg_sched_expedite_def Let_def lg_sched_kick_def nb_upd_any)

lemma fill_final:
  "m \<in> set (c_txq (txq_fill k og fn port buf len flags hops msg_id s)) \<Longrightarrow>
   m \<in> set (c_txq s) \<or> m_final m = fn \<and> m_flags m = flags"
  by (auto simp: txq_fill_def dest!: set_update_subset_insert [THEN subsetD])

lemma broadcast_final:
  "m \<in> set (c_txq (snd (broadcast_loop og port buf len flags hops msg_id is sent s))) \<Longrightarrow> set is \<subseteq> {..<length (c_neigh s)} \<Longrightarrow>
   m \<in> set (c_txq s) \<or> m_flags m = flags \<and> (\<exists>j<length (c_neigh s). n_state (nb s j) = LG_NS_LINKED \<and> m_final m = n_addr (nb s j))"
proof (induction "is" arbitrary: sent s)
  case (Cons i "is")
  show ?case
  proof (cases "n_state (nb s i) = LG_NS_LINKED")
    case True
    show ?thesis
    proof (cases "txq_alloc s")
      case (Some k)
      let ?t = "txq_fill k og (n_addr (nb s i)) port buf len flags hops msg_id s"
      have same: "nb ?t j = nb s j" "length (c_neigh ?t) = length (c_neigh s)" for j by (simp_all add: txq_fill_def)
      have "m \<in> set (c_txq ?t) \<or> m_flags m = flags \<and> (\<exists>j<length (c_neigh s). n_state (nb s j) = LG_NS_LINKED \<and> m_final m = n_addr (nb s j))"
        using Cons.IH [of "sent + 1" "lg_sched_expedite i ?t"] Cons.prems True Some by (simp add: same)
      then show ?thesis
        using fill_final [of m k og "n_addr (nb s i)" port buf len flags hops msg_id s] True Cons.prems(2) by auto
    qed (use Cons.prems True in simp)
  qed (use Cons in simp)
qed simp

lemma handle_data_ends_here:
  assumes "dh_final (data_hdr_of_bytes body) = c_addr s"
  shows "c_txq (handle_data i body len rssi s) = c_txq s"
proof -
  let ?dh = "data_hdr_of_bytes body"
  obtain dup u where du: "lg_route_is_duplicate (dh_origin ?dh) (dh_msg_id ?dh) s = (dup, u)" by (rule prod.exhaust)
  then have "c_txq u = c_txq s" "c_addr u = c_addr s" by (auto simp: lg_route_is_duplicate_def split: if_splits)
  with du assms show ?thesis by (cases dup) (simp_all add: handle_data_def data_for_us_def Let_def)
qed

lemma kick_queue [simp]: "c_txq (lg_sched_kick s) = c_txq s"
  by (simp add: lg_sched_kick_def)

text \<open>A broadcast reaches the direct neighbours and nobody else: every copy that is queued carries a
  neighbour's address as its final destination, so the node it arrives at takes it for a message that
  ends there and never queues it again, although it is flagged as a broadcast.\<close>

theorem broadcast_is_one_hop:
  assumes "lg_send LG_ADDR_BROADCAST port buf len flags s = (r, t)" "m \<in> set (c_txq t)" "m \<notin> set (c_txq s)"
  shows "has_flag (m_flags m) LG_DATA_F_BROADCAST \<and>
    (\<exists>j<length (c_neigh s). n_state (nb s j) = LG_NS_LINKED \<and> m_final m = n_addr (nb s j)) \<and>
    (\<forall>peer i k rssi rest. c_addr peer = m_final m \<longrightarrow>
       c_txq (handle_data i (data_hdr_bytes (msg_data_hdr m) @ rest) k rssi peer) = c_txq peer)"
proof -
  let ?loop = "broadcast_loop (c_addr s) port buf len LG_DATA_F_BROADCAST 0 (c_msg_id_next s) [0..<length (c_neigh s)] 0
      (s\<lparr>c_msg_id_next := c_msg_id_next s + 1\<rparr>)"
  obtain q u where qu: "lg_send_forward (c_addr s) LG_ADDR_BROADCAST port buf len LG_DATA_F_BROADCAST 0 (c_msg_id_next s)
      (s\<lparr>c_msg_id_next := c_msg_id_next s + 1\<rparr>) = (q, u)" by (rule prod.exhaust)
  have "c_txq t = c_txq u"
    using assms(1) qu by (cases q) (auto simp: lg_send_def LG_ADDR_BACKHAUL_def LG_ADDR_BROADCAST_def split: if_splits option.splits)
  moreover have "c_txq u = c_txq s \<or> c_txq u = c_txq (snd ?loop)"
    using qu by (cases ?loop) (auto simp: lg_send_forward_def LG_DATA_F_BROADCAST_def split: if_splits)
  ultimately have "m \<in> set (c_txq (snd ?loop))" using assms(2,3) by auto
  from broadcast_final [OF this] assms(3)
  have m: "m_flags m = LG_DATA_F_BROADCAST" "\<exists>j<length (c_neigh s). n_state (nb s j) = LG_NS_LINKED \<and> m_final m = n_addr (nb s j)"
    by (auto simp: atLeast0LessThan)
  show ?thesis
  proof (intro conjI allI impI)
    show "has_flag (m_flags m) LG_DATA_F_BROADCAST" by (simp add: m(1) LG_DATA_F_BROADCAST_def)
    show "\<exists>j<length (c_neigh s). n_state (nb s j) = LG_NS_LINKED \<and> m_final m = n_addr (nb s j)" by (rule m(2))
  next
    fix peer :: ctx and i k rssi rest
    assume "c_addr peer = m_final m"
    then show "c_txq (handle_data i (data_hdr_bytes (msg_data_hdr m) @ rest) k rssi peer) = c_txq peer"
      by (intro handle_data_ends_here) (simp add: data_hdr_roundtrip msg_data_hdr_def)
  qed
qed

theorem broadcast_is_one_hop_witness:
  "m_final (c_txq (snd (lg_send LG_ADDR_BROADCAST 3 [7] 1 0 (demo_mesh\<lparr>c_started := True\<rparr>))) ! 0) = 21 \<and>
   c_txq (handle_data 0 (data_hdr_bytes (msg_data_hdr
     (c_txq (snd (lg_send LG_ADDR_BROADCAST 3 [7] 1 0 (demo_mesh\<lparr>c_started := True\<rparr>))) ! 0)) @ [7]) 10 0 (demo_mesh\<lparr>c_addr := 21\<rparr>))
   = c_txq (demo_mesh\<lparr>c_addr := 21\<rparr>)"
proof -
  let ?s = "demo_mesh\<lparr>c_started := True\<rparr>"
  let ?t = "snd (lg_send LG_ADDR_BROADCAST 3 [7] 1 0 ?s)"
  have f: "m_final (c_txq ?t ! 0) = 21" and l: "0 < length (c_txq ?t)"
    and u: "m_used (c_txq ?t ! 0)" "\<forall>m\<in>set (c_txq ?s). \<not> m_used m" by code_simp+
  have m: "c_txq ?t ! 0 \<in> set (c_txq ?t)" "c_txq ?t ! 0 \<notin> set (c_txq ?s)" using l u by auto
  from broadcast_is_one_hop [OF prod.collapse [symmetric] m] f show ?thesis by simp
qed

end
