(* ===== verification/LG_Join.thy ===== *)
theory LG_Join
  imports LG_Link
begin

text \<open>
  The join handshake (\<open>lg_join.c\<close>): transcript and key derivation, fragmentation and reassembly, the
  messages of the full handshake and of a resumption, the slots, and the event handlers. The static
  \<open>hs\<close> is the field \<open>c_hs\<close>. An operation that can bring a link up has a result in \<open>option\<close>, because
  \<open>lg_link_establish\<close> catches up with the clock.
\<close>

abbreviation (input) LG_JOIN_SLOT_US :: u64 where "LG_JOIN_SLOT_US \<equiv> 40000"
abbreviation (input) LG_JOIN_RX_MARGIN_US :: u64 where "LG_JOIN_RX_MARGIN_US \<equiv> 1500"
abbreviation (input) LG_FRAG_GAP_US :: u64 where "LG_FRAG_GAP_US \<equiv> 500"
abbreviation (input) LG_JOIN_MAX_RETRIES :: u8 where "LG_JOIN_MAX_RETRIES \<equiv> 3"
abbreviation (input) LG_JOIN_BACKOFF_US :: u64 where "LG_JOIN_BACKOFF_US \<equiv> 10000000"
abbreviation (input) LG_FRAG_HDR_LEN :: nat where "LG_FRAG_HDR_LEN \<equiv> 2"
abbreviation (input) LG_FRAG_CAP :: nat where "LG_FRAG_CAP \<equiv> LG_PDU_MAX - LG_HDR_LEN - LG_FRAG_HDR_LEN"
abbreviation (input) LG_NONCE_LEN :: nat where "LG_NONCE_LEN \<equiv> 8"
abbreviation (input) LG_JOIN_IDLE_LIMIT :: u8 where "LG_JOIN_IDLE_LIMIT \<equiv> 8"
abbreviation (input) LG_JOIN_IDLE_LIMIT_RESUME :: u8 where "LG_JOIN_IDLE_LIMIT_RESUME \<equiv> 5"

definition LG_FRAG_CAP_SEC :: "config \<Rightarrow> nat" where
  "LG_FRAG_CAP_SEC cfg = LG_PDU_MAX - (LG_HDR_LEN_SEC + cfg_mic_len cfg) - LG_FRAG_HDR_LEN"

definition frag_cap :: "config \<Rightarrow> bool \<Rightarrow> nat" where
  "frag_cap cfg secured = (if secured then LG_FRAG_CAP_SEC cfg else LG_FRAG_CAP)"

text \<open>The early return of the C code: go on with the value, or stop with the error and the state so far.\<close>

definition and_then :: "(errno + 'a) \<times> ctx \<Rightarrow> ('a \<Rightarrow> ctx \<Rightarrow> (errno + 'b) \<times> ctx) \<Rightarrow> (errno + 'b) \<times> ctx" where
  "and_then m f = (case m of (Inl e, s) \<Rightarrow> (Inl e, s) | (Inr a, s) \<Rightarrow> f a s)"

definition lg_join_init :: "ctx \<Rightarrow> ctx" where
  "lg_join_init s = s\<lparr>c_hs := hs_zero\<rparr>"

section \<open>Transcript and keys\<close>

definition transcript_build :: "ctx \<Rightarrow> u8 list \<Rightarrow> u8 list \<Rightarrow> u8 list \<Rightarrow> u8 list \<Rightarrow> u16 \<Rightarrow> u16 \<Rightarrow> errno + u8 list" where
  "transcript_build s nonce_j nonce_r pub_j pub_r addr_j addr_r =
    lg_sec_hash s [le32_bytes (c_network_id s) @ le16_bytes addr_j @ le16_bytes addr_r, nonce_j, nonce_r, pub_j, pub_r]"

definition derive_keys :: "nat \<Rightarrow> u8 list \<Rightarrow> u8 list \<Rightarrow> ctx \<Rightarrow> (errno + unit) \<times> ctx" where
  "derive_keys i secret transcript s =
    and_then (lg_sec_kdf s secret transcript ''LockGrid link v1'', s) (\<lambda>link_key s.
    and_then (lg_sec_kdf s secret transcript ''LockGrid ltk v1'', s) (\<lambda>ltk s.
      lg_sec_install_key i link_key (upd_neigh i (\<lambda>n. n\<lparr>n_ltk := ltk, n_has_ltk := True\<rparr>) s)))"

definition resume_salt :: "u8 list \<Rightarrow> u16 \<Rightarrow> u16 \<Rightarrow> u8 list" where
  "resume_salt nonce_j a b = nonce_j @ le16_bytes (min a b) @ le16_bytes (max a b)"

definition derive_resume_key :: "nat \<Rightarrow> u8 list \<Rightarrow> ctx \<Rightarrow> (errno + unit) \<times> ctx" where
  "derive_resume_key i nonce_j s =
    and_then (lg_sec_kdf s (n_ltk (nb s i)) (resume_salt nonce_j (c_addr s) (n_addr (nb s i))) ''LockGrid resume v1'', s)
      (\<lambda>key s. lg_sec_install_key i key s)"

section \<open>Link parameters and messages\<close>

text \<open>A seed that could not be drawn stays what the stack held, here 0.\<close>

definition link_params_fill :: "ctx \<Rightarrow> lg_link_params \<times> ctx" where
  "link_params_fill s =
    (let t = c_tune s; (r, s1) = lg_sec_rand 2 s
     in (\<lparr>pp_interval_us = tn_conn_interval_us t, pp_anchor_offset_us = tn_conn_interval_us t * 2,
          pp_chan_map = c_chan_map s,
          pp_hop_seed = (case r of Inr bs \<Rightarrow> lg_get_le16 bs 0 | Inl _ \<Rightarrow> 0),
          pp_sup_timeout_cs = ucast (tn_sup_timeout_us t div 10000),
          pp_subrate_max = tn_subrate_max t, pp_sca_ppm = ucast (cfg_clock_accuracy_ppm (c_cfg s)),
          pp_role = role_u8 (c_role s), pp_rank = c_rank s\<rparr>, s1))"

text \<open>\<open>memcpy\<close> of the message to the start of \<open>hs.tx\<close>, and \<open>stage_message\<close>.\<close>

definition hs_put :: "u8 list \<Rightarrow> ctx \<Rightarrow> ctx" where
  "hs_put msg s = upd_hs (\<lambda>h. h\<lparr>hs_tx := blit (hs_tx h) 0 msg\<rparr>) s"

definition stage_message :: "u8 \<Rightarrow> bool \<Rightarrow> nat \<Rightarrow> ctx \<Rightarrow> ctx" where
  "stage_message ty secured len s =
    (let cap = frag_cap (c_cfg s) secured; frags = of_nat ((len + cap - 1) div cap) :: u8
     in upd_hs (\<lambda>h. h\<lparr>hs_owe_tx := True, hs_tx_type := ty, hs_tx_secured := secured, hs_tx_len := len,
          hs_frag_idx := 0, hs_frag_total := (if frags = 0 then 1 else frags)\<rparr>) s)"

text \<open>
  Fragment \<open>idx\<close> for the neighbour \<open>i\<close>: length (0 on failure), buffer, state. Every byte below the length is
  written, so what \<open>join_frame\<close> held before does not matter and the buffer starts blank.
\<close>

definition build_fragment :: "nat \<Rightarrow> u8 \<Rightarrow> ctx \<Rightarrow> nat \<times> u8 list \<times> ctx" where
  "build_fragment i idx s =
    (let h = c_hs s; n = nb s i;
         off = unat idx * frag_cap (c_cfg s) (hs_tx_secured h);
         chunk = min (frag_cap (c_cfg s) (hs_tx_secured h)) (hs_tx_len h - off);
         fcf = hs_tx_type h OR (if hs_tx_secured h then LG_FCF_SEC else 0);
         (out, hdr_len) = lg_frame_hdr_put (replicate LG_PDU_MAX 0) (c_netid16 s) fcf (n_tx_seq n) (n_addr n) (c_addr s);
         s1 = upd_neigh i (\<lambda>n. n\<lparr>n_tx_seq := n_tx_seq n + 1\<rparr>) s;
         out1 = blit out hdr_len ([idx, hs_frag_total h] @ take chunk (drop off (hs_tx h)));
         len = hdr_len + LG_FRAG_HDR_LEN + chunk
     in if \<not> hs_tx_secured h then (len, out1, s1)
        else case lg_sec_encrypt i out1 LG_HDR_LEN_SEC len s1 of
               (Inl _, out2, s2) \<Rightarrow> (0, out2, s2)
             | (Inr len', out2, s2) \<Rightarrow> (len', out2, s2))"

section \<open>Reassembly\<close>

definition xfer_step :: "nat \<Rightarrow> u8 \<Rightarrow> u8 \<Rightarrow> u8 list \<Rightarrow> xfer \<Rightarrow> xfer" where
  "xfer_step cap idx frags chunk x =
    (let x1 = x\<lparr>xf_buf := blit (xf_buf x) (unat idx * cap) chunk, xf_frags_seen := xf_frags_seen x OR BIT (unat idx)\<rparr>
     in if idx = frags - 1 then x1\<lparr>xf_len := unat idx * cap + length chunk\<rparr> else x1)"

definition xfer_done :: "u8 \<Rightarrow> xfer \<Rightarrow> bool" where
  "xfer_done frags x \<longleftrightarrow> xf_frags_seen x = mask (unat frags) \<and> xf_len x \<noteq> 0"

text \<open>A fragment of another message, or a first fragment, starts over.\<close>

definition rx_reset :: "u8 \<Rightarrow> u8 \<Rightarrow> handshake \<Rightarrow> handshake" where
  "rx_reset ty idx h = (if hs_rx_type h \<noteq> ty \<or> idx = 0 then h\<lparr>hs_rx := xfer_zero, hs_rx_type := ty\<rparr> else h)"

text \<open>The part after decryption: \<open>body\<close> is what follows the frame header.\<close>

definition reassemble_body :: "u8 \<Rightarrow> nat \<Rightarrow> u8 list \<Rightarrow> handshake \<Rightarrow> bool \<times> handshake" where
  "reassemble_body ty cap body h =
    (if length body < LG_FRAG_HDR_LEN then (False, h)
     else
       let idx = body ! 0; frags = body ! 1; chunk = drop LG_FRAG_HDR_LEN body
       in if frags = 0 \<or> 8 < frags \<or> frags \<le> idx then (False, h)
          else if LG_XFER_MAX < unat idx * cap + length chunk then (False, h)
          else
            let h1 = rx_reset ty idx h;
                x = xfer_step cap idx frags chunk (hs_rx h1)
            in if xfer_done frags x then (True, h1\<lparr>hs_rx := x\<lparr>xf_complete := True\<rparr>\<rparr>)
               else (False, h1\<lparr>hs_rx := x\<rparr>))"

definition reassemble :: "nat \<Rightarrow> u8 list \<Rightarrow> nat \<Rightarrow> ctx \<Rightarrow> bool \<times> ctx" where
  "reassemble i pdu len s =
    (let fcf = pdu ! LG_OFF_FCF; secured = has_flag fcf LG_FCF_SEC;
         hdr_len = (if secured then LG_HDR_LEN_SEC else LG_HDR_LEN)
     in case (if secured then lg_sec_decrypt i pdu len s else (Inr len, pdu, s)) of
          (Inl _, _, s1) \<Rightarrow> (False, s1)
        | (Inr len', pdu', s1) \<Rightarrow>
            if len' < hdr_len then (False, s1)
            else case reassemble_body (fcf AND LG_FCF_TYPE_MASK) (frag_cap (c_cfg s1) secured)
                        (take (len' - hdr_len) (drop hdr_len pdu')) (c_hs s1) of
                   (ok, h) \<Rightarrow> (ok, s1\<lparr>c_hs := h\<rparr>))"

section \<open>The steps of the exchange\<close>

definition join_fail :: "nat \<Rightarrow> ctx \<Rightarrow> ctx" where
  "join_fail i s =
    (let s1 = lg_sec_forget_key i (upd_stats (\<lambda>st. st\<lparr>st_joins_failed := st_joins_failed st + 1\<rparr>) s);
         s2 = upd_neigh i (\<lambda>n. n\<lparr>n_join_step := LG_JOIN_IDLE, n_join_retries := n_join_retries n + 1\<rparr>) s1;
         s3 = upd_neigh i (\<lambda>n.
                let n1 = (if LG_JOIN_MAX_RETRIES \<le> n_join_retries n
                          then n\<lparr>n_join_backoff_us := c_now s2 + LG_JOIN_BACKOFF_US\<rparr> else n)
                in n1\<lparr>n_state := (if n_has_ltk n1 then LG_NS_LOST else LG_NS_HEARD)\<rparr>) s2;
         s4 = lg_notify LG_EVT_AUTH_FAILED (n_addr (nb s3 i)) s3
     in lg_sched_kick (s4\<lparr>c_hs := hs_zero\<rparr>))"

text \<open>\<open>lg.cert\<close> as the bytes that are copied into a message.\<close>

definition own_cert :: "ctx \<Rightarrow> u8 list" where
  "own_cert s = (case c_cert s of None \<Rightarrow> [] | Some c \<Rightarrow> c)"

text \<open>A fresh nonce and a fresh key pair, as both ends draw them.\<close>

definition fresh_keys :: "nat \<Rightarrow> ctx \<Rightarrow> (errno + unit) \<times> ctx" where
  "fresh_keys i s =
    and_then (lg_sec_rand LG_NONCE_LEN s) (\<lambda>nonce s.
    and_then (lg_sec_ecdh_keypair (upd_neigh i (\<lambda>n. n\<lparr>n_nonce_local := nonce\<rparr>) s)) (\<lambda>(pub, priv) s.
      (Inr (), upd_hs (\<lambda>h. h\<lparr>hs_eph_pub := pub, hs_eph_priv := priv\<rparr>) s)))"

definition build_join_req :: "nat \<Rightarrow> ctx \<Rightarrow> (errno + unit) \<times> ctx" where
  "build_join_req i s =
    and_then (fresh_keys i s) (\<lambda>_ s.
      let msg = n_nonce_local (nb s i) @ hs_eph_pub (c_hs s) @ own_cert s
      in (Inr (), stage_message LG_FT_JOIN_REQ False (length msg) (hs_put msg s)))"

text \<open>What the peer sent, stored in its entry; the certificate names its role and its static key.\<close>

definition store_peer :: "nat \<Rightarrow> u8 list \<Rightarrow> u8 list \<Rightarrow> u8 \<Rightarrow> ctx \<Rightarrow> ctx" where
  "store_peer i msg peer_pub cert_role s =
    upd_neigh i (\<lambda>n. n\<lparr>n_nonce_peer := take LG_NONCE_LEN msg,
      n_eph_pub_peer := take LG_EC_PUB_LEN (drop LG_NONCE_LEN msg), n_peer_static_pub := peer_pub, n_role := cert_role\<rparr>) s"

definition msg_cert :: "u8 list \<Rightarrow> u8 list" where
  "msg_cert msg = take LG_CERT_LEN (drop (LG_NONCE_LEN + LG_EC_PUB_LEN) msg)"

definition handle_join_req :: "nat \<Rightarrow> u8 list \<Rightarrow> ctx \<Rightarrow> (errno + unit) \<times> ctx" where
  "handle_join_req i msg s =
    (if length msg \<noteq> LG_NONCE_LEN + LG_EC_PUB_LEN + LG_CERT_LEN then (Inl EINVAL, s)
     else and_then (lg_sec_cert_verify s (msg_cert msg), s) (\<lambda>(cert_addr, cert_role, peer_pub) s.
       if cert_addr \<noteq> n_addr (nb s i) then (Inl EPERM, s)
       else and_then (fresh_keys i (store_peer i msg peer_pub cert_role s)) (\<lambda>_ s.
       let n = nb s i in
       and_then (transcript_build s (n_nonce_peer n) (n_nonce_local n) (n_eph_pub_peer n) (hs_eph_pub (c_hs s))
                   (n_addr n) (c_addr s), s) (\<lambda>transcript s.
       and_then (lg_sec_ecdh s (hs_eph_priv (c_hs s)) (n_eph_pub_peer n),
                 upd_neigh i (\<lambda>n. n\<lparr>n_transcript := transcript\<rparr>) s) (\<lambda>secret s.
       and_then (derive_keys i secret transcript s) (\<lambda>_ s.
       and_then (lg_sec_sign s transcript, hs_put (n_nonce_local n @ hs_eph_pub (c_hs s) @ own_cert s) s) (\<lambda>sig s.
       let rsp = n_nonce_local n @ hs_eph_pub (c_hs s) @ own_cert s @ sig
       in (Inr (), stage_message LG_FT_JOIN_RSP False (length rsp) (hs_put rsp s)))))))))"

definition handle_join_rsp :: "nat \<Rightarrow> u8 list \<Rightarrow> ctx \<Rightarrow> (errno + unit) \<times> ctx" where
  "handle_join_rsp i msg s =
    (if length msg \<noteq> LG_NONCE_LEN + LG_EC_PUB_LEN + LG_CERT_LEN + LG_SIG_LEN then (Inl EINVAL, s)
     else and_then (lg_sec_cert_verify s (msg_cert msg), s) (\<lambda>(cert_addr, cert_role, peer_pub) s.
       if cert_addr \<noteq> n_addr (nb s i) then (Inl EPERM, s)
       else
       let s = store_peer i msg peer_pub cert_role s; n = nb s i;
           sig_r = drop (LG_NONCE_LEN + LG_EC_PUB_LEN + LG_CERT_LEN) msg in
       and_then (transcript_build s (n_nonce_local n) (n_nonce_peer n) (hs_eph_pub (c_hs s)) (n_eph_pub_peer n)
                   (c_addr s) (n_addr n), s) (\<lambda>transcript s.
       and_then (lg_sec_verify s peer_pub transcript sig_r, s) (\<lambda>_ s.
       and_then (lg_sec_ecdh s (hs_eph_priv (c_hs s)) (n_eph_pub_peer n),
                 upd_neigh i (\<lambda>n. n\<lparr>n_transcript := transcript\<rparr>) s) (\<lambda>secret s.
       and_then (derive_keys i secret transcript s) (\<lambda>_ s.
       and_then (lg_sec_sign s transcript, s) (\<lambda>sig s.
         (Inr (), stage_message LG_FT_JOIN_CFM True LG_SIG_LEN (hs_put sig s)))))))))"

text \<open>Staging the link parameters, the router's last message.\<close>

definition stage_params :: "u8 \<Rightarrow> ctx \<Rightarrow> ctx" where
  "stage_params ty s =
    (let (pp, s1) = link_params_fill s
     in stage_message ty True LG_LINK_PARAMS_SIZE (hs_put (link_params_bytes pp) s1))"

definition handle_join_cfm :: "nat \<Rightarrow> u8 list \<Rightarrow> ctx \<Rightarrow> (errno + unit) \<times> ctx" where
  "handle_join_cfm i msg s =
    (if length msg \<noteq> LG_SIG_LEN then (Inl EINVAL, s)
     else and_then (lg_sec_verify s (n_peer_static_pub (nb s i)) (n_transcript (nb s i)) msg, s)
       (\<lambda>_ s. (Inr (), stage_params LG_FT_JOIN_ACK s)))"

definition build_resume_req :: "nat \<Rightarrow> ctx \<Rightarrow> (errno + unit) \<times> ctx" where
  "build_resume_req i s =
    and_then (lg_sec_rand LG_NONCE_LEN s) (\<lambda>nonce s.
      (Inr (), stage_message LG_FT_RESUME_REQ False LG_NONCE_LEN
                 (hs_put nonce (upd_neigh i (\<lambda>n. n\<lparr>n_nonce_local := nonce\<rparr>) s))))"

definition handle_resume_req :: "nat \<Rightarrow> u8 list \<Rightarrow> ctx \<Rightarrow> (errno + unit) \<times> ctx" where
  "handle_resume_req i msg s =
    (if length msg \<noteq> LG_NONCE_LEN \<or> \<not> n_has_ltk (nb s i) then (Inl EINVAL, s)
     else and_then (derive_resume_key i msg (upd_neigh i (\<lambda>n. n\<lparr>n_nonce_peer := msg\<rparr>) s))
       (\<lambda>_ s. (Inr (), stage_params LG_FT_RESUME_RSP s)))"

section \<open>Driving the exchange\<close>

definition lg_join_start :: "nat \<Rightarrow> ctx \<Rightarrow> (errno + unit) \<times> ctx" where
  "lg_join_start i s =
    (if hs_n (c_hs s) \<noteq> None \<and> hs_n (c_hs s) \<noteq> Some i then (Inl EBUSY, s)
     else if n_state (nb s i) = LG_NS_LINKED then (Inl EALREADY, s)
     else if n_join_backoff_us (nb s i) \<noteq> 0 \<and> c_now s < n_join_backoff_us (nb s i) then (Inl ECONNREFUSED, s)
     else
       let s = (if n_join_backoff_us (nb s i) \<noteq> 0
                then upd_neigh i (\<lambda>n. n\<lparr>n_join_backoff_us := 0, n_join_retries := 0\<rparr>) s else s);
           n = nb s i
       in if LG_JOIN_MAX_RETRIES \<le> n_join_retries n then (Inl ECONNREFUSED, s)
          else if (case c_cert s of None \<Rightarrow> True | Some c \<Rightarrow> length c \<noteq> LG_CERT_LEN) then (Inl ENOKEY, s)
          else
            let s = s\<lparr>c_hs := hs_zero\<lparr>hs_n := Some i, hs_joiner := True,
                      hs_t0_us := n_join_next_us n + ucast (n_join_spread_us n), hs_resuming := n_has_ltk n,
                      hs_slot_limit := (if n_has_ltk n then 24 else 48)\<rparr>\<rparr>
            in case (if n_has_ltk n then build_resume_req i s else build_join_req i s) of
                 (Inl e, s) \<Rightarrow> (Inl e, join_fail i s)
               | (Inr _, s) \<Rightarrow>
                   (Inr (), upd_neigh i (\<lambda>n'. n'\<lparr>n_state := LG_NS_JOINING,
                      n_join_step := (if n_has_ltk n then LG_JOIN_SEND_RESUME else LG_JOIN_SEND_REQ)\<rparr>) s))"

definition slot_time :: "ctx \<Rightarrow> u8 \<Rightarrow> u64" where
  "slot_time s slot = hs_t0_us (c_hs s) + ucast slot * LG_JOIN_SLOT_US"

definition slot_next_from_clock :: "ctx \<Rightarrow> u8" where
  "slot_next_from_clock s =
    (if c_now s \<le> hs_t0_us (c_hs s) then 0
     else ucast (min ((c_now s - hs_t0_us (c_hs s)) div LG_JOIN_SLOT_US + 1) 255))"

definition lg_join_next_us :: "nat \<Rightarrow> ctx \<Rightarrow> u64" where
  "lg_join_next_us i s =
    (if hs_n (c_hs s) \<noteq> Some i \<or> n_state (nb s i) \<noteq> LG_NS_JOINING then UINT64_MAX
     else if hs_slot (c_hs s) = 0 then slot_time s 0
     else slot_time s (max (hs_slot (c_hs s)) (slot_next_from_clock s)))"

definition lg_join_slot_is_tx :: "ctx \<Rightarrow> bool" where
  "lg_join_slot_is_tx s \<longleftrightarrow> hs_n (c_hs s) \<noteq> None \<and> hs_owe_tx (c_hs s)"

definition lg_join_win_next_us :: "ctx \<Rightarrow> u64" where
  "lg_join_win_next_us s =
    (if hs_n (c_hs s) \<noteq> None \<or> c_join_win_us s = 0 then UINT64_MAX
     else if cfg_max_links (c_cfg s) \<le> lg_neigh_linked_count s then UINT64_MAX
     else c_join_win_us s)"

section \<open>The slot events\<close>

text \<open>Sending one fragment of the staged message: whether it went out.\<close>

definition send_fragment :: "nat \<Rightarrow> u8 \<Rightarrow> u64 \<Rightarrow> ctx \<Rightarrow> bool \<times> ctx" where
  "send_fragment i idx at_us s =
    (case build_fragment i idx s of (len, frame, s1) \<Rightarrow>
       let s2 = upd_hs (\<lambda>h. h\<lparr>hs_last_tx_len := len\<rparr>) s1
       in if len = 0 then (False, s2) else lg_phy_tx_at at_us (ev_chan (c_ev s2)) frame len s2)"

definition join_tx_start :: "ctx \<Rightarrow> ctx" where
  "join_tx_start s =
    (let s1 = lg_power_activity LG_PWR_ACT_JOIN s
     in case hs_n (c_hs s1) of
          None \<Rightarrow> lg_sched_event_done s1
        | Some i \<Rightarrow>
            (case send_fragment i 0 (ev_anchor_us (c_ev s1)) (upd_hs (\<lambda>h. h\<lparr>hs_was_tx := True, hs_frag_idx := 0\<rparr>) s1) of
               (True, s2) \<Rightarrow> s2 | (False, s2) \<Rightarrow> lg_sched_event_done s2))"

text \<open>Fragments are only left to send while a handshake is under way, so \<open>hs.n\<close> is set when it is used.\<close>

definition join_tx_done :: "u64 \<Rightarrow> ctx \<Rightarrow> ctx" where
  "join_tx_done air_end_us s =
    (let s1 = upd_hs (\<lambda>h. h\<lparr>hs_last_tx_air_start_us := air_end_us - ucast (LG_AIRTIME_US (of_nat (hs_last_tx_len h))),
                hs_frag_idx := hs_frag_idx h + 1\<rparr>) s;
         h = c_hs s1
     in case hs_n h of
          Some i \<Rightarrow>
            if hs_frag_idx h < hs_frag_total h
            then (case send_fragment i (hs_frag_idx h) (air_end_us + LG_FRAG_GAP_US) s1 of
                    (True, s2) \<Rightarrow> s2 | (False, s2) \<Rightarrow> lg_sched_event_done s2)
            else lg_sched_event_done s1
        | None \<Rightarrow> lg_sched_event_done s1)"

definition join_rx_start :: "ctx \<Rightarrow> ctx" where
  "join_rx_start s =
    (let s1 = upd_hs (\<lambda>h. h\<lparr>hs_was_tx := False\<rparr>) (lg_power_activity LG_PWR_ACT_JOIN s); ev = c_ev s1
     in case lg_phy_rx_window (ev_anchor_us ev - LG_JOIN_RX_MARGIN_US) (ev_close_us ev) (ev_chan ev) s1 of
          (True, s2) \<Rightarrow> s2 | (False, s2) \<Rightarrow> lg_sched_event_done s2)"

text \<open>Keeping the window open for further fragments is what a scan does.\<close>

definition join_rx_done :: "phy_rx \<Rightarrow> ctx \<Rightarrow> ctx" where
  "join_rx_done rx s =
    scan_continue (lg_rx_post (px_pdu rx) (px_len rx) (px_rssi rx) (ev_chan (c_ev s)) (px_air_start_us rx) s)"

definition join_rx_fail :: "phy_rx_fail \<Rightarrow> ctx \<Rightarrow> ctx" where
  "join_rx_fail reason s = (if reason \<noteq> LG_PHY_RX_TIMEOUT then scan_continue s else lg_sched_event_done s)"

definition join_aborted :: "ctx \<Rightarrow> ctx" where
  "join_aborted s = upd_hs (\<lambda>h. h\<lparr>hs_was_tx := False, hs_progressed := False, hs_slot_refused := True\<rparr>) s"

text \<open>The router's link comes up once its last message is on air.\<close>

definition join_establish_router :: "nat \<Rightarrow> ctx \<Rightarrow> ctx option" where
  "join_establish_router i s =
    (let pp = link_params_of_bytes (hs_tx (c_hs s));
         s1 = upd_neigh i (\<lambda>n. n\<lparr>n_anchor_us := hs_last_tx_air_start_us (c_hs s) + ucast (pp_anchor_offset_us pp),
                n_join_step := LG_JOIN_DONE, n_join_retries := 0\<rparr>) s;
         s2 = upd_stats (\<lambda>st. st\<lparr>st_joins_ok := st_joins_ok st + 1\<rparr>) s1
     in case lg_link_establish i pp True s2 of
          None \<Rightarrow> None
        | Some s3 \<Rightarrow> Some (s3\<lparr>c_join_win_us := 0, c_hs := hs_zero\<rparr>))"

definition router_done :: "handshake \<Rightarrow> bool" where
  "router_done h \<longleftrightarrow> \<not> hs_joiner h \<and> hs_was_tx h \<and> (hs_tx_type h = LG_FT_JOIN_ACK \<or> hs_tx_type h = LG_FT_RESUME_RSP)"

text \<open>Who transmits next, what the slot counts for, and which slot is next.\<close>

definition slot_settle :: "u8 \<Rightarrow> handshake \<Rightarrow> handshake" where
  "slot_settle from_clock h =
    (let h1 = (if hs_was_tx h then h\<lparr>hs_owe_tx := False\<rparr>
               else if \<not> hs_progressed h then h\<lparr>hs_owe_tx := (hs_tx_len h \<noteq> 0)\<rparr> else h);
         h2 = (if hs_progressed h1 then h1\<lparr>hs_idle_slots := 0\<rparr>
               else if \<not> hs_slot_refused h1 then h1\<lparr>hs_idle_slots := hs_idle_slots h1 + 1\<rparr> else h1)
     in h2\<lparr>hs_slot_refused := False, hs_slot := max (hs_slot h2 + 1) from_clock, hs_progressed := False\<rparr>)"

definition idle_limit :: "handshake \<Rightarrow> u8" where
  "idle_limit h = (if hs_resuming h then LG_JOIN_IDLE_LIMIT_RESUME else LG_JOIN_IDLE_LIMIT)"

definition lg_join_event_finish :: "ctx \<Rightarrow> ctx option" where
  "lg_join_event_finish s =
    (case hs_n (c_hs s) of
       None \<Rightarrow> Some (s\<lparr>c_join_win_us := 0\<rparr>)
     | Some i \<Rightarrow>
         if n_state (nb s i) \<noteq> LG_NS_JOINING then Some (s\<lparr>c_hs := hs_zero\<rparr>)
         else if router_done (c_hs s) then join_establish_router i s
         else
           let h = slot_settle (slot_next_from_clock s) (c_hs s); s1 = s\<lparr>c_hs := h\<rparr>
           in Some (if idle_limit h \<le> hs_idle_slots h \<or> hs_slot_limit h \<le> hs_slot h \<or> (hs_owe_tx h \<and> hs_tx_len h = 0)
                    then join_fail i s1 else s1))"

section \<open>Received handshake frames\<close>

text \<open>The entry for a joiner: found, allocated, or made room for.\<close>

definition joiner_entry :: "u16 \<Rightarrow> ctx \<Rightarrow> nat option \<times> ctx" where
  "joiner_entry src s =
    (case lg_neigh_alloc src s of
       (Some i, s1) \<Rightarrow> (Some i, s1)
     | (None, s1) \<Rightarrow>
         case lg_neigh_make_room LG_ETX_ONE s1 of
           (None, s2) \<Rightarrow> (None, s2)
         | (Some _, s2) \<Rightarrow> lg_neigh_alloc src s2)"

text \<open>A request that arrives while no handshake is under way starts one: whether to go on.\<close>

definition join_accept :: "u8 \<Rightarrow> u16 \<Rightarrow> u64 \<Rightarrow> ctx \<Rightarrow> bool \<times> ctx" where
  "join_accept ty src air_start_us s =
    (case hs_n (c_hs s) of
       Some k \<Rightarrow> (n_addr (nb s k) = src, s)
     | None \<Rightarrow>
         (case joiner_entry src s of
            (None, s1) \<Rightarrow> (False, s1)
          | (Some i, s1) \<Rightarrow>
              if cfg_max_links (c_cfg s1) \<le> lg_neigh_linked_count s1 then (False, s1)
              else (True, upd_neigh i (\<lambda>n. n\<lparr>n_state := LG_NS_JOINING\<rparr>)
                (s1\<lparr>c_hs := hs_zero\<lparr>hs_n := Some i, hs_resuming := (ty = LG_FT_RESUME_REQ), hs_t0_us := air_start_us,
                   hs_slot_limit := (if ty = LG_FT_RESUME_REQ then 24 else 48)\<rparr>\<rparr>))))"

definition join_establish_joiner :: "nat \<Rightarrow> u64 \<Rightarrow> ctx \<Rightarrow> ctx option" where
  "join_establish_joiner i air_start_us s =
    (let pp = link_params_of_bytes (xf_buf (hs_rx (c_hs s)));
         s1 = upd_neigh i (\<lambda>n. n\<lparr>n_anchor_us := air_start_us + ucast (pp_anchor_offset_us pp),
                n_join_step := LG_JOIN_DONE, n_join_retries := 0\<rparr>) s;
         s2 = upd_stats (\<lambda>st. st\<lparr>st_joins_ok := st_joins_ok st + 1\<rparr>) s1
     in case lg_link_establish i pp False s2 of
          None \<Rightarrow> None
        | Some s3 \<Rightarrow> Some (s3\<lparr>c_hs := hs_zero\<rparr>))"

text \<open>A step of the exchange, and what follows its success or failure.\<close>

definition join_message :: "u8 \<Rightarrow> nat \<Rightarrow> u64 \<Rightarrow> ctx \<Rightarrow> ctx option" where
  "join_message ty i air_start_us s =
    (let x = hs_rx (c_hs s); msg = take (xf_len x) (xf_buf x);
         progressed = (\<lambda>s. s\<lparr>c_hs := (c_hs s)\<lparr>hs_progressed := True, hs_rx := xfer_zero\<rparr>\<rparr>);
         settle = (\<lambda>r. Some (case r of (Inl _, s) \<Rightarrow> join_fail i s | (Inr _, s) \<Rightarrow> progressed s))
     in if ty = LG_FT_JOIN_REQ then settle (handle_join_req i msg s)
        else if ty = LG_FT_JOIN_RSP then settle (handle_join_rsp i msg s)
        else if ty = LG_FT_JOIN_CFM then settle (handle_join_cfm i msg s)
        else if ty = LG_FT_JOIN_ACK \<or> ty = LG_FT_RESUME_RSP
        then if xf_len x \<noteq> LG_LINK_PARAMS_SIZE then Some (join_fail i s) else join_establish_joiner i air_start_us s
        else if ty = LG_FT_RESUME_REQ
        then Some (case handle_resume_req i msg s of
                     (Inl _, s) \<Rightarrow> join_fail i (upd_neigh i (\<lambda>n. n\<lparr>n_has_ltk := False\<rparr>) s)
                   | (Inr _, s) \<Rightarrow> progressed s)
        else Some s)"

definition lg_join_rx_pdu :: "u8 list \<Rightarrow> nat \<Rightarrow> int \<Rightarrow> u64 \<Rightarrow> ctx \<Rightarrow> ctx option" where
  "lg_join_rx_pdu pdu len rssi air_start_us s =
    (let ty = lg_frame_type pdu; src = lg_get_le16 pdu LG_OFF_SRC
     in case (if ty = LG_FT_JOIN_REQ \<or> ty = LG_FT_RESUME_REQ then join_accept ty src air_start_us s else (True, s)) of
          (False, s1) \<Rightarrow> Some s1
        | (True, s1) \<Rightarrow>
            (case hs_n (c_hs s1) of
               None \<Rightarrow> Some s1
             | Some i \<Rightarrow>
                 if n_addr (nb s1 i) \<noteq> src then Some s1
                 else case reassemble i pdu len (lg_neigh_rx_rssi i rssi s1) of
                        (False, s2) \<Rightarrow> Some s2
                      | (True, s2) \<Rightarrow> join_message ty i air_start_us s2))"

section \<open>Received beacons\<close>

text \<open>\<open>lg_disc_beacon_rx\<close> up to the checks of the seal and the network: the sender and the beacon.\<close>

definition beacon_parse :: "u8 list \<Rightarrow> nat \<Rightarrow> ctx \<Rightarrow> (u16 \<times> lg_beacon) option \<times> ctx" where
  "beacon_parse pdu len s =
    (if len < LG_HDR_LEN + LG_BEACON_SIZE + LG_BEACON_MIC_LEN then (None, s)
     else if lg_frame_type pdu \<noteq> LG_FT_BEACON then (None, s)
     else if lg_get_le16 pdu LG_OFF_NETID \<noteq> c_netid16 s then (None, s)
     else case lg_sec_beacon_open s pdu len of
            Inl _ \<Rightarrow> (None, upd_stats (\<lambda>st. st\<lparr>st_auth_failures := st_auth_failures st + 1\<rparr>) s)
          | Inr _ \<Rightarrow>
              let src = lg_get_le16 pdu LG_OFF_SRC; b = beacon_of_bytes (drop LG_HDR_LEN pdu)
              in if src = c_addr s \<or> src = LG_ADDR_INVALID then (None, s)
                 else if b_network_id b \<noteq> c_network_id s then (None, s)
                 else (Some (src, b), s))"

definition wants_parent :: "ctx \<Rightarrow> u16 \<Rightarrow> lg_beacon \<Rightarrow> bool" where
  "wants_parent s src b \<longleftrightarrow>
    (case lg_neigh_find src s of None \<Rightarrow> True | Some i \<Rightarrow> n_state (nb s i) \<noteq> LG_NS_LINKED) \<and>
    c_rank s \<le> b_rank b \<and> b_link_count b < cfg_min_links_target (c_cfg s)"

text \<open>What a beacon says about the network at large.\<close>

definition beacon_note :: "u16 \<Rightarrow> lg_beacon \<Rightarrow> ctx \<Rightarrow> ctx" where
  "beacon_note src b s =
    (let s1 = upd_stats (\<lambda>st. st\<lparr>st_beacons_rx := st_beacons_rx st + 1\<rparr>) s;
         s2 = (if b_rank b = LG_RANK_INFINITE then lg_role_evaluate (lg_role_note_unrouted s1) else s1);
         s3 = (if b_rank b \<le> c_rank s2 \<and> c_beacons_heard s2 < 255
               then s2\<lparr>c_beacons_heard := c_beacons_heard s2 + 1\<rparr> else s2)
     in if wants_parent s3 src b then s3\<lparr>c_joiner_hint_us := c_now s3\<rparr> else s3)"

text \<open>What it says about its sender.\<close>

definition beacon_update :: "lg_beacon \<Rightarrow> int \<Rightarrow> u64 \<Rightarrow> neigh \<Rightarrow> neigh" where
  "beacon_update b rssi air_start_us n =
    (let n1 = n\<lparr>n_role := b_role b, n_peer_rank := b_rank b, n_peer_chan_map := b_chan_map b,
                n_peer_links := b_link_count b, n_peer_capacity := b_link_capacity b\<rparr>;
         n2 = (if b_next_beacon_offset_us b \<noteq> 0 \<and> b_next_beacon_offset_us b < 60 * 1000000
               then n1\<lparr>n_next_beacon_us := air_start_us + ucast (b_next_beacon_offset_us b), n_track_misses := 0\<rparr> else n1)
     in neigh_update_cost (neigh_rx_rssi rssi n2))"

text \<open>Aiming the handshake at one of the sub-slots of the advertised window.\<close>

definition join_aim :: "nat \<Rightarrow> lg_beacon \<Rightarrow> u64 \<Rightarrow> ctx \<Rightarrow> ctx" where
  "join_aim i b air_start_us s =
    (let s1 = upd_neigh i (\<lambda>n. n\<lparr>n_join_next_us := air_start_us + ucast (b_join_offset_us b)\<rparr>) s;
         win = ucast (b_join_window_us b) :: u32
     in if 2 * LG_JOIN_TRAIN_US \<le> win
        then let (r, s2) = sys_rand32_get s1
             in upd_neigh i (\<lambda>n. n\<lparr>n_join_spread_us := r mod (win div LG_JOIN_TRAIN_US) * LG_JOIN_TRAIN_US\<rparr>) s2
        else upd_neigh i (\<lambda>n. n\<lparr>n_join_spread_us := 0\<rparr>) s1)"

definition beacon_join :: "nat \<Rightarrow> u16 \<Rightarrow> lg_beacon \<Rightarrow> int \<Rightarrow> u64 \<Rightarrow> ctx \<Rightarrow> ctx" where
  "beacon_join i src b rssi air_start_us s =
    (if n_state (nb s i) = LG_NS_LINKED \<or> n_state (nb s i) = LG_NS_JOINING then s
     else if \<not> candidate_is_useful s b src rssi then s
     else if b_join_window_us b = 0 then s
     else case lg_join_start i (join_aim i b air_start_us s) of
            (Inl _, s1) \<Rightarrow> s1
          | (Inr _, s1) \<Rightarrow> lg_sched_kick (lg_sched_abort LG_EV_SCAN s1))"

definition lg_disc_beacon_rx :: "u8 list \<Rightarrow> nat \<Rightarrow> int \<Rightarrow> u64 \<Rightarrow> ctx \<Rightarrow> ctx" where
  "lg_disc_beacon_rx pdu len rssi air_start_us s =
    (case beacon_parse pdu len s of
       (None, s1) \<Rightarrow> s1
     | (Some (src, b), s1) \<Rightarrow>
         let s2 = beacon_note src b s1
         in case (case lg_neigh_find src s2 of
                    Some i \<Rightarrow> (Some i, s2)
                  | None \<Rightarrow> if candidate_is_useful s2 b src rssi then joiner_entry src s2 else (None, s2)) of
              (None, s3) \<Rightarrow> s3
            | (Some i, s3) \<Rightarrow>
                beacon_join i src b rssi air_start_us (upd_neigh i (beacon_update b rssi air_start_us) s3))"

section \<open>A link comes up\<close>

text \<open>A first event far enough ahead is not skipped, so establishment returns.\<close>

lemma window_le:
  assumes "cfg_ok cfg"
  shows "unat (fst (window_of cfg now n)) \<le> 30000"
proof -
  have c: "unat (cfg_rx_window_min_us cfg) \<le> 5000" "unat (cfg_rx_window_max_us cfg) \<le> 60000"
    using assms by (auto simp: cfg_ok_def word_le_nat_alt)
  have "unat (ucast (min x (ucast (cfg_rx_window_max_us cfg) div 2)) :: u32) \<le> 30000" for x :: u64
  proof -
    have m: "unat (ucast (cfg_rx_window_max_us cfg) div 2 :: u64) \<le> 30000"
      using c(2) by (simp add: unat_div unat_ucast_up)
    then have "unat (min x (ucast (cfg_rx_window_max_us cfg) div 2)) \<le> 30000"
      by (simp add: min_def word_le_nat_alt)
    then show ?thesis by (subst unat_ucast_small) simp_all
  qed
  moreover have "unat (cfg_rx_window_min_us cfg) div 2 \<le> 30000" using c(1) by linarith
  ultimately show ?thesis by (simp add: window_of_def Let_def unat_div)
qed

lemma establish_returns:
  assumes "cfg_ok (c_cfg s)" "i < length (c_neigh s)" "unat (c_now s) + 40000 \<le> unat (n_anchor_us (nb s i))"
  shows "\<exists>t. lg_link_establish i pp ini s = Some t \<and> c_hs t = c_hs s \<and> length (c_neigh t) = length (c_neigh s) \<and>
    neigh_core (nb t i) = neigh_core (neigh_update_cost (snd (window_of (c_cfg s) (c_now s) (link_establish_neigh s pp ini (nb s i)))))"
proof -
  define n where "n = link_establish_neigh s pp ini (nb s i)"
  obtain w m where wm: "window_of (c_cfg s) (c_now s) n = (w, m)" by (rule prod.exhaust)
  have w: "unat w \<le> 30000" using window_le [OF assms(1), of "c_now s" n] wm by simp
  have m: "n_anchor_us m = n_anchor_us (nb s i)" "n_epoch_us m = n_anchor_us m" "n_interval_us m = n_interval_us n" "n_subrate m = 1"
    using wm by (auto simp: window_of_def Let_def n_def link_establish_neigh_def split: if_splits)
  have c0: "counter_of m = 0"
  proof -
    have "n_interval_us m div 2 < n_interval_us m" if "n_interval_us m \<noteq> 0"
      using that by (simp add: word_less_nat_alt unat_div unat_gt_0)
    then have "ucast (n_interval_us m div 2) div (ucast (n_interval_us m) :: u64) = 0" if "n_interval_us m \<noteq> 0"
      using that by (intro word_unat_eq_iff [THEN iffD2]) (simp add: unat_div unat_ucast_up word_less_nat_alt)
    then show ?thesis by (simp add: counter_of_def m)
  qed
  have lead: "unat (ucast (LG_SCHED_LEAD_US + w + 200) :: u64) \<le> 30300"
    using w by (simp add: unat_ucast_up unat_word_ariths)
  have "\<not> n_anchor_us m < c_now s + ucast (LG_SCHED_LEAD_US + w + 200)"
  proof -
    have "unat (c_now s + ucast (LG_SCHED_LEAD_US + w + 200)) \<le> unat (c_now s) + unat (ucast (LG_SCHED_LEAD_US + w + 200) :: u64)"
      by (simp add: unat_word_ariths)
    with lead assms(3) show ?thesis by (simp add: m word_less_nat_alt)
  qed
  then have loop: "catch_loop (c_now s + ucast (LG_SCHED_LEAD_US + w + 200)) m k = Some (m, k)" for k
    by (simp add: catch_loop.simps)
  let ?s1 = "upd_neigh i (\<lambda>_. n) s"
  have up: "upd_neigh i (link_establish_neigh s pp ini) s = ?s1" by (simp add: upd_neigh_def n_def)
  have "\<exists>u. anchor_catch_up i ?s1 = Some u \<and> c_neigh u = (c_neigh s)[i := m] \<and> c_hs u = c_hs s"
    using assms(2) wm loop c0
    by (auto simp: anchor_catch_up_def lg_link_window_us_def nb_upd_same upd_neigh_def upd_stats_def Let_def)
  then obtain u where u: "anchor_catch_up i ?s1 = Some u" "c_neigh u = (c_neigh s)[i := m]" "c_hs u = c_hs s" by blast
  define v where "v = lg_neigh_update_cost i (u\<lparr>c_link_count := lg_neigh_linked_count u\<rparr>)"
  have v: "c_neigh v = (c_neigh s)[i := neigh_update_cost m]" "c_hs v = c_hs s"
    using u assms(2) by (simp_all add: v_def lg_neigh_update_cost_def upd_neigh_def)
  let ?t = "links_changed LG_EVT_LINK_UP (n_addr (nb v i)) v"
  have "lg_link_establish i pp ini s = Some ?t"
    by (simp add: lg_link_establish_def up u(1) v_def [symmetric] Let_def)
  moreover have "c_hs ?t = c_hs s" by (simp add: free_links_changed [OF free_fields(10)] v(2))
  moreover have "length (c_neigh ?t) = length (c_neigh s)" by (simp add: links_changed_neigh(1) v(1))
  moreover have "neigh_core (nb ?t i) = neigh_core (neigh_update_cost m)"
    using links_changed_neigh(2) [of i v] assms(2) by (simp add: v(1))
  ultimately show ?thesis unfolding n_def [symmetric] wm by simp
qed

section \<open>Messages that nobody proved\<close>

lemma reassemble_plain:
  assumes "\<not> has_flag (pdu ! LG_OFF_FCF) LG_FCF_SEC" "LG_HDR_LEN \<le> len"
  shows "reassemble i pdu len s = (case reassemble_body (lg_frame_type pdu) LG_FRAG_CAP
      (take (len - LG_HDR_LEN) (drop LG_HDR_LEN pdu)) (c_hs s) of (ok, h) \<Rightarrow> (ok, s\<lparr>c_hs := h\<rparr>))"
  using assms by (simp add: reassemble_def frag_cap_def lg_frame_type_def)

lemma reassemble_single:
  assumes "0 < length msg" "length msg \<le> LG_XFER_MAX"
  shows "\<exists>h'. reassemble_body ty cap ([0, 1] @ msg) h = (True, h') \<and> hs_rx_type h' = ty \<and>
    xf_len (hs_rx h') = length msg \<and> take (length msg) (xf_buf (hs_rx h')) = msg \<and>
    (\<exists>r. xf_buf (hs_rx h') = msg @ r) \<and> h' = h\<lparr>hs_rx := hs_rx h', hs_rx_type := ty\<rparr>"
  using assms by (auto simp: reassemble_body_def rx_reset_def xfer_step_def xfer_done_def xfer_zero_def blit_def BIT_def Let_def)

text \<open>Link parameters that were put together bring the joiner's link up.\<close>

lemma params_establish:
  assumes "cfg_ok (c_cfg s)" "i < length (c_neigh s)" "ty = LG_FT_JOIN_ACK \<or> ty = LG_FT_RESUME_RSP"
    and "xf_len (hs_rx (c_hs s)) = LG_LINK_PARAMS_SIZE" "xf_buf (hs_rx (c_hs s)) = link_params_bytes pp @ r"
    and ahead: "unat (c_now s) + 40000 \<le> unat (air + ucast (pp_anchor_offset_us pp))"
  shows "\<exists>t. join_message ty i air s = Some t \<and> n_state (nb t i) = LG_NS_LINKED \<and>
    n_peer_rank (nb t i) = pp_rank pp \<and> n_role (nb t i) = pp_role pp \<and>
    n_has_key (nb t i) = n_has_key (nb s i) \<and> n_key_id (nb t i) = n_key_id (nb s i)"
proof -
  define v where "v = upd_stats (\<lambda>st. st\<lparr>st_joins_ok := st_joins_ok st + 1\<rparr>)
    (upd_neigh i (\<lambda>n. n\<lparr>n_anchor_us := air + ucast (pp_anchor_offset_us pp), n_join_step := LG_JOIN_DONE, n_join_retries := 0\<rparr>) s)"
  have v: "c_cfg v = c_cfg s" "c_now v = c_now s" "length (c_neigh v) = length (c_neigh s)"
    "n_anchor_us (nb v i) = air + ucast (pp_anchor_offset_us pp)"
    "n_has_key (nb v i) = n_has_key (nb s i)" "n_key_id (nb v i) = n_key_id (nb s i)"
    using assms(2) by (simp_all add: v_def upd_stats_def upd_neigh_def)
  have "cfg_ok (c_cfg v)" "i < length (c_neigh v)" "unat (c_now v) + 40000 \<le> unat (n_anchor_us (nb v i))"
    using assms(1,2) ahead by (simp_all add: v)
  from establish_returns [OF this, of pp False] obtain t where t: "lg_link_establish i pp False v = Some t"
    "neigh_core (nb t i) = neigh_core (neigh_update_cost (snd (window_of (c_cfg v) (c_now v) (link_establish_neigh v pp False (nb v i)))))"
    by blast
  have "join_message ty i air s = join_establish_joiner i air s"
    using assms(3,4) by (auto simp: join_message_def ft_defs)
  also have "\<dots> = Some (t\<lparr>c_hs := hs_zero\<rparr>)"
    using t(1) by (simp add: join_establish_joiner_def assms(5) link_params_roundtrip v_def)
  finally have run: "join_message ty i air s = Some (t\<lparr>c_hs := hs_zero\<rparr>)" .
  have keep: "n_state (neigh_update_cost (snd (window_of c k m))) = n_state m" "n_has_key (neigh_update_cost (snd (window_of c k m))) = n_has_key m"
    "n_key_id (neigh_update_cost (snd (window_of c k m))) = n_key_id m" "n_role (neigh_update_cost (snd (window_of c k m))) = n_role m"
    "n_peer_rank (neigh_update_cost (snd (window_of c k m))) = n_peer_rank m" for c k m
    by (simp_all add: neigh_update_cost_def window_of_def Let_def)
  have "n_state (nb t i) = LG_NS_LINKED" "n_peer_rank (nb t i) = pp_rank pp" "n_role (nb t i) = pp_role pp"
    "n_has_key (nb t i) = n_has_key (nb s i)" "n_key_id (nb t i) = n_key_id (nb s i)"
    using arg_cong [OF t(2), of n_state] arg_cong [OF t(2), of n_peer_rank] arg_cong [OF t(2), of n_role]
      arg_cong [OF t(2), of n_has_key] arg_cong [OF t(2), of n_key_id]
    by (simp_all add: neigh_core_def keep link_establish_neigh_def Let_def v)
  with run show ?thesis by simp
qed

text \<open>C33: the last message of a handshake is believed without a key. While a node waits for the link
  parameters, one unprotected frame with the router's address brings the link up with whatever rank
  and role it carries: nothing asks that the frame was encrypted, or that any key exists.\<close>

theorem forged_ack_links:
  fixes s :: ctx and pp :: lg_link_params and pdu rest :: "u8 list" and ty :: u8
  assumes "cfg_ok (c_cfg s)" "i < length (c_neigh s)" "hs_n (c_hs s) = Some i"
    and ty: "ty = LG_FT_JOIN_ACK \<or> ty = LG_FT_RESUME_RSP"
    and pdu: "pdu = hdr_bytes netid ty sq dst (n_addr (nb s i)) @ [0, 1] @ link_params_bytes pp @ rest"
    and ahead: "unat (c_now s) + 40000 \<le> unat (air + ucast (pp_anchor_offset_us pp))"
  shows "\<exists>t. lg_join_rx_pdu pdu (LG_HDR_LEN + LG_FRAG_HDR_LEN + LG_LINK_PARAMS_SIZE) rssi air s = Some t \<and>
    n_state (nb t i) = LG_NS_LINKED \<and> n_peer_rank (nb t i) = pp_rank pp \<and> n_role (nb t i) = pp_role pp \<and>
    n_has_key (nb t i) = n_has_key (nb s i) \<and> n_key_id (nb t i) = n_key_id (nb s i)"
proof -
  note f = hdr_fields [OF pdu]
  have type: "lg_frame_type pdu = ty" "\<not> has_flag (pdu ! LG_OFF_FCF) LG_FCF_SEC"
    using ty by (auto simp: f lg_frame_type_def fcf_defs ft_defs)
  have body: "take 22 (drop LG_HDR_LEN pdu) = [0, 1] @ link_params_bytes pp" by (simp add: pdu)
  define u where "u = lg_neigh_rx_rssi i rssi s"
  have u: "c_hs u = c_hs s" "c_cfg u = c_cfg s" "c_now u = c_now s" "length (c_neigh u) = length (c_neigh s)"
    "n_addr (nb u i) = n_addr (nb s i)" "n_has_key (nb u i) = n_has_key (nb s i)" "n_key_id (nb u i) = n_key_id (nb s i)"
    using assms(2) by (simp_all add: u_def lg_neigh_rx_rssi_def upd_neigh_def neigh_rx_rssi_def)
  from reassemble_single [of "link_params_bytes pp" ty LG_FRAG_CAP "c_hs s"] obtain h r where h:
    "reassemble_body ty LG_FRAG_CAP ([0, 1] @ link_params_bytes pp) (c_hs s) = (True, h)"
    "xf_len (hs_rx h) = LG_LINK_PARAMS_SIZE" "xf_buf (hs_rx h) = link_params_bytes pp @ r"
    by auto
  have re: "reassemble i pdu 30 u = (True, u\<lparr>c_hs := h\<rparr>)"
    using reassemble_plain [of pdu 30 i u] type h(1) body by (simp add: u(1))
  have "lg_join_rx_pdu pdu 30 rssi air s = join_message ty i air (u\<lparr>c_hs := h\<rparr>)"
    using type(1) ty assms(3) re by (auto simp: lg_join_rx_pdu_def f(5) u_def ft_defs)
  then show ?thesis
    using params_establish [of "u\<lparr>c_hs := h\<rparr>" i ty pp r air] assms(1,2) ty ahead h(2,3) u by simp
qed

definition demo_joining :: ctx where
  "demo_joining = demo_mesh\<lparr>c_now := 1000, c_hs := hs_zero\<lparr>hs_n := Some 2, hs_joiner := True\<rparr>\<rparr>"

definition demo_params :: lg_link_params where
  "demo_params = \<lparr>pp_interval_us = 200000, pp_anchor_offset_us = 400000, pp_chan_map = 0xFFFF, pp_hop_seed = 7,
     pp_sup_timeout_cs = 2000, pp_subrate_max = 4, pp_sca_ppm = 50, pp_role = 2, pp_rank = 0\<rparr>"

theorem forged_ack_links_witness:
  "\<exists>t. lg_join_rx_pdu (hdr_bytes 0 LG_FT_JOIN_ACK 0 5 23 @ [0, 1] @ link_params_bytes demo_params @ []) 30 (-40) 2000 demo_joining = Some t \<and>
     n_state (nb t 2) = LG_NS_LINKED \<and> n_peer_rank (nb t 2) = 0 \<and> \<not> n_has_key (nb t 2)"
proof -
  have c: "cfg_ok (c_cfg demo_joining)" using cfg_ok_default by (simp add: demo_joining_def demo_mesh_def demo_node_def node_zero_def)
  have h: "2 < length (c_neigh demo_joining)" "hs_n (c_hs demo_joining) = Some 2" "n_addr (nb demo_joining 2) = 23"
    and k: "\<not> n_has_key (nb demo_joining 2)" by code_simp+
  have a: "unat (c_now demo_joining) + 40000 \<le> unat ((2000 :: u64) + ucast (pp_anchor_offset_us demo_params))"
    by (simp add: demo_joining_def demo_params_def)
  from forged_ack_links [OF c h(1,2) disjI1 [OF refl] refl a, of 0 0 5 "[]" "-40", unfolded h(3)] k
  show ?thesis by (simp add: demo_params_def [THEN arg_cong [of _ _ pp_rank]]) blast
qed

text \<open>One unprotected request takes a working link down. A bare header that names a linked
  neighbour as its sender turns that neighbour's entry from linked to joining, without any of what
  losing a link entails: its routes stay, its parent mark stays, the count of links stays.\<close>

theorem forged_request_unlinks:
  fixes s :: ctx and pdu rest :: "u8 list" and ty :: u8
  assumes "hs_n (c_hs s) = None" "lg_neigh_find src s = Some i" "n_state (nb s i) = LG_NS_LINKED"
    "lg_neigh_linked_count s < cfg_max_links (c_cfg s)"
    and ty: "ty = LG_FT_JOIN_REQ \<or> ty = LG_FT_RESUME_REQ"
    and pdu: "pdu = hdr_bytes netid ty sq dst src @ rest"
  shows "\<exists>t. lg_join_rx_pdu pdu LG_HDR_LEN rssi air s = Some t \<and> n_state (nb t i) = LG_NS_JOINING \<and>
    n_is_parent (nb t i) = n_is_parent (nb s i) \<and> c_routes t = c_routes s \<and> c_link_count t = c_link_count s"
proof -
  note f = hdr_fields [OF pdu]
  have type: "lg_frame_type pdu = ty" "\<not> has_flag (pdu ! LG_OFF_FCF) LG_FCF_SEC"
    using ty by (auto simp: f lg_frame_type_def fcf_defs ft_defs)
  have i: "i < length (c_neigh s)" "n_addr (nb s i) = src"
    using assms(2) by (auto simp: lg_neigh_find_def find_idx_eq_Some_iff split: if_splits)
  have room: "\<not> cfg_max_links (c_cfg s) \<le> lg_neigh_linked_count s" using assms(4) by simp
  define u where "u = upd_neigh i (\<lambda>n. n\<lparr>n_state := LG_NS_JOINING\<rparr>) (s\<lparr>c_hs := hs_zero\<lparr>hs_n := Some i,
      hs_resuming := (ty = LG_FT_RESUME_REQ), hs_t0_us := air, hs_slot_limit := (if ty = LG_FT_RESUME_REQ then 24 else 48)\<rparr>\<rparr>)"
  have acc: "join_accept ty src air s = (True, u)"
    using assms(1,2) room by (simp add: join_accept_def joiner_entry_def lg_neigh_alloc_def u_def)
  have u: "hs_n (c_hs u) = Some i" "n_addr (nb u i) = src"
    using i by (simp_all add: u_def upd_neigh_def)
  define v where "v = lg_neigh_rx_rssi i rssi u"
  have re: "reassemble i pdu LG_HDR_LEN v = (False, v)"
    using reassemble_plain [of pdu LG_HDR_LEN i v] type by (simp add: reassemble_body_def)
  have "lg_join_rx_pdu pdu LG_HDR_LEN rssi air s = Some v"
    using ty acc u re by (auto simp: lg_join_rx_pdu_def type f(5) v_def)
  moreover have "n_state (nb v i) = LG_NS_JOINING" "n_is_parent (nb v i) = n_is_parent (nb s i)"
    "c_routes v = c_routes s" "c_link_count v = c_link_count s"
    using i(1) by (simp_all add: v_def u_def lg_neigh_rx_rssi_def neigh_rx_rssi_def upd_neigh_def)
  ultimately show ?thesis by blast
qed

theorem forged_request_unlinks_witness:
  "\<exists>t. lg_join_rx_pdu (hdr_bytes 0 LG_FT_JOIN_REQ 0 5 22 @ []) LG_HDR_LEN 0 77 (demo_mesh\<lparr>c_cfg := default_cfg\<lparr>cfg_max_links := 6\<rparr>\<rparr>) = Some t \<and>
     n_state (nb t 1) = LG_NS_JOINING"
proof -
  let ?s = "demo_mesh\<lparr>c_cfg := default_cfg\<lparr>cfg_max_links := 6\<rparr>\<rparr>"
  have h: "hs_n (c_hs ?s) = None" "lg_neigh_find 22 ?s = Some 1" "n_state (nb ?s 1) = LG_NS_LINKED"
    "lg_neigh_linked_count ?s < cfg_max_links (c_cfg ?s)" by code_simp+
  from forged_request_unlinks [OF h disjI1 [OF refl] refl] show ?thesis by blast
qed


definition demo_lost :: ctx where
  "demo_lost = upd_neigh 2 (\<lambda>n. n\<lparr>n_state := LG_NS_LOST, n_has_ltk := True, n_ltk := replicate 16 3\<rparr>)
     (demo_mesh\<lparr>c_cert := Some (replicate 140 0)\<rparr>)"


section \<open>A handshake ends\<close>

lemma join_fail_hs [simp]: "c_hs (join_fail i s) = hs_zero"
  by (simp add: join_fail_def lg_sched_kick_def Let_def)

lemma slot_settle_fields:
  "hs_n (slot_settle k h) = hs_n h" "hs_slot (slot_settle k h) = max (hs_slot h + 1) k"
  "hs_slot_limit (slot_settle k h) = hs_slot_limit h" "hs_resuming (slot_settle k h) = hs_resuming h"
  by (simp_all add: slot_settle_def Let_def)


definition demo_waiting :: ctx where
  "demo_waiting = upd_neigh 2 (\<lambda>n. n\<lparr>n_state := LG_NS_JOINING\<rparr>) (demo_mesh\<lparr>c_now := 50000, c_hs := hs_zero\<lparr>hs_n := Some 2,
     hs_joiner := True, hs_was_tx := True, hs_tx_len := 212, hs_slot_limit := 48\<rparr>\<rparr>)"


text \<open>The two ways a chain of steps goes on.\<close>

lemma and_then_Inl [simp]: "and_then (Inl e, s) f = (Inl e, s)"
  and and_then_Inr [simp]: "and_then (Inr a, s) f = f a s"
  by (simp_all add: and_then_def)

lemma and_then_split: "P (and_then m f) \<longleftrightarrow>
    (\<forall>e s. m = (Inl e, s) \<longrightarrow> P (Inl e, s)) \<and> (\<forall>a s. m = (Inr a, s) \<longrightarrow> P (f a s))"
  by (cases m; cases "fst m") auto

end
