(* ===== verification/LG_Agree.thy ===== *)
theory LG_Agree
  imports LG_Join
begin

text \<open>
  What the handshake achieves between two honest nodes: both derive the same keys from the messages
  they exchange, and a message that is cut into fragments is put together again.
\<close>

section \<open>The two ends agree\<close>

text \<open>The message that is staged, and what the code relies on about the PSA functions.\<close>

definition staged :: "ctx \<Rightarrow> u8 list" where
  "staged s = take (hs_tx_len (c_hs s)) (hs_tx (c_hs s))"

definition crypto_works :: "crypto \<Rightarrow> bool" where
  "crypto_works cr \<longleftrightarrow>
    (\<forall>k n. \<exists>bs. cr_rand cr k n = Some bs \<and> length bs = n) \<and>
    (\<forall>k. \<exists>pub priv. cr_keypair cr k = Some (pub, priv) \<and> length pub = LG_EC_PUB_LEN) \<and>
    (\<forall>k k' pub priv pub' priv'. cr_keypair cr k = Some (pub, priv) \<longrightarrow> cr_keypair cr k' = Some (pub', priv') \<longrightarrow>
       (\<exists>z. cr_ecdh cr priv pub' = Some z \<and> cr_ecdh cr priv' pub = Some z)) \<and>
    (\<forall>d. cr_hash cr d \<noteq> None) \<and> (\<forall>secret salt info. cr_hkdf cr secret salt info \<noteq> None) \<and> (\<forall>k. cr_import_ok cr k)"

text \<open>Node \<open>t\<close> holds a certificate that \<open>s\<close> accepts for its address, and the private key that goes with it.\<close>

definition certified :: "ctx \<Rightarrow> ctx \<Rightarrow> bool" where
  "certified s t \<longleftrightarrow> length (own_cert t) = LG_CERT_LEN \<and>
    (\<exists>role pub. lg_sec_cert_verify s (own_cert t) = Inr (c_addr t, role, pub) \<and>
      (\<forall>h. \<exists>sig. lg_sec_sign t h = Inr sig \<and> length sig = LG_SIG_LEN \<and> lg_sec_verify s pub h sig = Inr ()))"

text \<open>The security functions read the keys and the configuration, which these updates leave alone.\<close>

lemma sec_same:
  assumes "c_cr t = c_cr s" "c_ca_pub t = c_ca_pub s" "c_priv_key t = c_priv_key s"
  shows "lg_sec_cert_verify t = lg_sec_cert_verify s" "lg_sec_sign t = lg_sec_sign s" "lg_sec_verify t = lg_sec_verify s"
proof -
  have h: "lg_sec_hash t = lg_sec_hash s" by (intro ext) (simp add: lg_sec_hash_def assms)
  show v: "lg_sec_verify t = lg_sec_verify s" by (intro ext) (simp add: lg_sec_verify_def assms)
  show "lg_sec_sign t = lg_sec_sign s" by (intro ext) (simp only: lg_sec_sign_def assms)
  show "lg_sec_cert_verify t = lg_sec_cert_verify s" by (intro ext) (simp only: lg_sec_cert_verify_def h v assms)
qed

lemma sec_frames [simp]:
  "lg_sec_cert_verify (upd_neigh i f s) = lg_sec_cert_verify s" "lg_sec_cert_verify (upd_hs g s) = lg_sec_cert_verify s"
  "lg_sec_cert_verify (s\<lparr>c_rng_n := k\<rparr>) = lg_sec_cert_verify s"
  "lg_sec_sign (upd_neigh i f s) = lg_sec_sign s" "lg_sec_sign (upd_hs g s) = lg_sec_sign s"
  "lg_sec_sign (s\<lparr>c_rng_n := k\<rparr>) = lg_sec_sign s"
  "lg_sec_verify (upd_neigh i f s) = lg_sec_verify s" "lg_sec_verify (upd_hs g s) = lg_sec_verify s"
  "lg_sec_verify (s\<lparr>c_rng_n := k\<rparr>) = lg_sec_verify s"
  by (rule sec_same; simp add: upd_neigh_def upd_hs_def)+

lemma own_cert_frames [simp]:
  "own_cert (upd_neigh i f s) = own_cert s" "own_cert (upd_hs g s) = own_cert s" "own_cert (s\<lparr>c_rng_n := k\<rparr>) = own_cert s"
  by (simp_all add: own_cert_def upd_neigh_def upd_hs_def)

lemma upd_fields [simp]:
  "c_hs (upd_neigh i f s) = c_hs s" "c_hs (upd_hs g s) = g (c_hs s)" "c_neigh (upd_hs g s) = c_neigh s"
  "c_addr (upd_neigh i f s) = c_addr s" "c_addr (upd_hs g s) = c_addr s"
  "c_cr (upd_neigh i f s) = c_cr s" "c_cr (upd_hs g s) = c_cr s"
  "c_network_id (upd_neigh i f s) = c_network_id s" "c_network_id (upd_hs g s) = c_network_id s"
  "c_cfg (upd_neigh i f s) = c_cfg s" "c_cfg (upd_hs g s) = c_cfg s"
  by (simp_all add: upd_neigh_def upd_hs_def)

lemma fresh_keys_works:
  assumes "crypto_works (c_cr s)" "i < length (c_neigh s)"
  shows "\<exists>nonce k pub priv t. fresh_keys i s = (Inr (), t) \<and> length nonce = LG_NONCE_LEN \<and> length pub = LG_EC_PUB_LEN \<and>
    cr_keypair (c_cr s) k = Some (pub, priv) \<and> t = upd_hs (\<lambda>h. h\<lparr>hs_eph_pub := pub, hs_eph_priv := priv\<rparr>)
      ((upd_neigh i (\<lambda>n. n\<lparr>n_nonce_local := nonce\<rparr>) s)\<lparr>c_rng_n := c_rng_n s + 2\<rparr>)"
proof -
  obtain nonce where n: "cr_rand (c_cr s) (c_rng_n s) LG_NONCE_LEN = Some nonce" "length nonce = LG_NONCE_LEN"
    using assms(1) unfolding crypto_works_def by blast
  obtain pub priv where k: "cr_keypair (c_cr s) (c_rng_n s + 1) = Some (pub, priv)" "length pub = LG_EC_PUB_LEN"
    using assms(1) unfolding crypto_works_def by blast
  have "fresh_keys i s = (Inr (), upd_hs (\<lambda>h. h\<lparr>hs_eph_pub := pub, hs_eph_priv := priv\<rparr>)
      ((upd_neigh i (\<lambda>n. n\<lparr>n_nonce_local := nonce\<rparr>) s)\<lparr>c_rng_n := c_rng_n s + 2\<rparr>))"
    using n k by (simp add: fresh_keys_def lg_sec_rand_def lg_sec_ecdh_keypair_def upd_neigh_def upd_hs_def)
  with n k show ?thesis by blast
qed

text \<open>The keys both ends derive from a secret and a transcript.\<close>

definition link_keys :: "crypto \<Rightarrow> u8 list \<Rightarrow> u8 list \<Rightarrow> u8 list \<times> u8 list" where
  "link_keys cr secret transcript =
    (the (cr_hkdf cr secret transcript ''LockGrid link v1''), the (cr_hkdf cr secret transcript ''LockGrid ltk v1''))"

lemma derive_keys_works:
  assumes "crypto_works (c_cr s)" "i < length (c_neigh s)" "link_keys (c_cr s) z tr = (lk, ltk)"
  shows "derive_keys i z tr s = (Inr (), upd_neigh i (\<lambda>n. n\<lparr>n_ltk := ltk, n_has_ltk := True, n_link_key := lk,
    n_key_id := Some lk, n_has_key := True, n_tx_ctr := 0, n_rx_ctr := 0, n_replay_mask := 0\<rparr>) s)"
proof -
  have "cr_hkdf (c_cr s) z tr info \<noteq> None" "cr_import_ok (c_cr s) lk" for info
    using assms(1) unfolding crypto_works_def by blast+
  then have "cr_hkdf (c_cr s) z tr ''LockGrid link v1'' = Some lk" "cr_hkdf (c_cr s) z tr ''LockGrid ltk v1'' = Some ltk"
    "cr_import_ok (c_cr s) lk" using assms(3) by (auto simp: link_keys_def)
  then show ?thesis using assms(2)
    by (simp add: derive_keys_def lg_sec_kdf_def lg_sec_install_key_def import_aes_key_def upd_neigh_def)
qed

lemma staged_stage:
  assumes "length msg \<le> LG_XFER_MAX" "length (hs_tx (c_hs s)) = LG_XFER_MAX"
  shows "staged (stage_message ty secured (length msg) (hs_put msg s)) = msg"
  using assms by (simp add: staged_def stage_message_def hs_put_def blit_def Let_def)

text \<open>What no step of the exchange changes on a node, seen from its entry \<open>i\<close> for the peer.\<close>

definition same_node :: "nat \<Rightarrow> ctx \<Rightarrow> ctx \<Rightarrow> bool" where
  "same_node i s t \<longleftrightarrow> c_addr t = c_addr s \<and> c_cr t = c_cr s \<and> c_network_id t = c_network_id s \<and>
    length (c_neigh t) = length (c_neigh s) \<and> n_addr (nb t i) = n_addr (nb s i) \<and>
    lg_sec_cert_verify t = lg_sec_cert_verify s \<and> lg_sec_sign t = lg_sec_sign s \<and> lg_sec_verify t = lg_sec_verify s \<and>
    own_cert t = own_cert s \<and> length (hs_tx (c_hs t)) = length (hs_tx (c_hs s))"

text \<open>A node that can take part: its entry for the peer exists and the peer can be authenticated to it.\<close>

definition can_join :: "nat \<Rightarrow> ctx \<Rightarrow> bool" where
  "can_join i s \<longleftrightarrow> crypto_works (c_cr s) \<and> i < length (c_neigh s) \<and> length (own_cert s) = LG_CERT_LEN \<and>
    length (hs_tx (c_hs s)) = LG_XFER_MAX \<and> (\<forall>h. \<exists>sig. lg_sec_sign s h = Inr sig \<and> length sig = LG_SIG_LEN)"

lemma same_can_join: "same_node i s t \<Longrightarrow> can_join i s \<Longrightarrow> can_join i t"
  by (simp add: same_node_def can_join_def)

lemma stage_hs [simp]:
  "c_neigh (stage_message ty sec n s) = c_neigh s" "c_neigh (hs_put msg s) = c_neigh s"
  "hs_eph_pub (c_hs (stage_message ty sec n s)) = hs_eph_pub (c_hs s)" "hs_eph_pub (c_hs (hs_put msg s)) = hs_eph_pub (c_hs s)"
  "hs_eph_priv (c_hs (stage_message ty sec n s)) = hs_eph_priv (c_hs s)" "hs_eph_priv (c_hs (hs_put msg s)) = hs_eph_priv (c_hs s)"
  "hs_tx_type (c_hs (stage_message ty sec n s)) = ty" "own_cert (hs_put msg s) = own_cert s"
  by (simp_all add: stage_message_def hs_put_def Let_def)

lemma same_stage: "length msg \<le> length (hs_tx (c_hs s)) \<Longrightarrow> same_node i s (stage_message ty sec n (hs_put msg s))"
  by (simp add: same_node_def stage_message_def hs_put_def Let_def)

lemma same_trans: "same_node i s t \<Longrightarrow> same_node i t u \<Longrightarrow> same_node i s u"
  by (simp add: same_node_def)

lemma same_upd: "(\<And>n. n_addr (f n) = n_addr n) \<Longrightarrow> same_node i s (upd_neigh j f s)"
  by (simp add: same_node_def nb_upd_any)

lemma same_eph: "same_node i s (upd_hs (\<lambda>h. h\<lparr>hs_eph_pub := pub, hs_eph_priv := priv\<rparr>) (s\<lparr>c_rng_n := k\<rparr>))"
  by (simp add: same_node_def)

text \<open>The joiner's request.\<close>

lemma join_req_step:
  assumes "can_join i s"
  shows "\<exists>nonce k pub priv t. build_join_req i s = (Inr (), t) \<and> staged t = nonce @ pub @ own_cert s \<and>
    length nonce = LG_NONCE_LEN \<and> length pub = LG_EC_PUB_LEN \<and> cr_keypair (c_cr s) k = Some (pub, priv) \<and>
    n_nonce_local (nb t i) = nonce \<and> hs_eph_pub (c_hs t) = pub \<and> hs_eph_priv (c_hs t) = priv \<and> same_node i s t"
proof -
  have w: "crypto_works (c_cr s)" "i < length (c_neigh s)" "length (own_cert s) = LG_CERT_LEN" "length (hs_tx (c_hs s)) = LG_XFER_MAX"
    using assms by (simp_all add: can_join_def)
  from fresh_keys_works [OF w(1,2)] obtain nonce k pub priv u where f: "fresh_keys i s = (Inr (), u)"
    "length nonce = LG_NONCE_LEN" "length pub = LG_EC_PUB_LEN" "cr_keypair (c_cr s) k = Some (pub, priv)"
    and u: "u = upd_hs (\<lambda>h. h\<lparr>hs_eph_pub := pub, hs_eph_priv := priv\<rparr>)
      ((upd_neigh i (\<lambda>n. n\<lparr>n_nonce_local := nonce\<rparr>) s)\<lparr>c_rng_n := c_rng_n s + 2\<rparr>)" by blast
  have uf: "n_nonce_local (nb u i) = nonce" "hs_eph_pub (c_hs u) = pub" "hs_eph_priv (c_hs u) = priv"
    "own_cert u = own_cert s" "length (hs_tx (c_hs u)) = LG_XFER_MAX"
    using w by (simp_all add: u nb_upd_same)
  have su: "same_node i s u"
    unfolding u by (rule same_trans [OF same_upd same_eph]) simp
  let ?msg = "nonce @ pub @ own_cert s"
  let ?t = "stage_message LG_FT_JOIN_REQ False (length ?msg) (hs_put ?msg u)"
  have "build_join_req i s = (Inr (), ?t)" by (simp add: build_join_req_def f(1) uf Let_def)
  moreover have "staged ?t = ?msg" by (rule staged_stage) (simp_all add: f w uf)
  moreover have "same_node i s ?t" by (rule same_trans [OF su same_stage]) (simp add: f w uf)
  ultimately show ?thesis using f uf by (intro exI [of _ nonce] exI [of _ k] exI [of _ pub] exI [of _ priv] exI [of _ ?t]) simp
qed

text \<open>What a finished exchange leaves in the entry for the peer.\<close>

definition keyed :: "nat \<Rightarrow> crypto \<Rightarrow> u8 list \<Rightarrow> u8 list \<Rightarrow> ctx \<Rightarrow> bool" where
  "keyed i cr z transcript s \<longleftrightarrow> n_transcript (nb s i) = transcript \<and> n_has_key (nb s i) \<and> n_has_ltk (nb s i) \<and>
    n_key_id (nb s i) = Some (fst (link_keys cr z transcript)) \<and> n_link_key (nb s i) = fst (link_keys cr z transcript) \<and>
    n_ltk (nb s i) = snd (link_keys cr z transcript) \<and> n_tx_ctr (nb s i) = 0 \<and> n_rx_ctr (nb s i) = 0"

lemma derive_step:
  assumes "crypto_works (c_cr s)" "i < length (c_neigh s)"
  shows "\<exists>t. derive_keys i z h (upd_neigh i (\<lambda>n. n\<lparr>n_transcript := h\<rparr>) s) = (Inr (), t) \<and> keyed i (c_cr s) z h t \<and>
    same_node i s t \<and> c_hs t = c_hs s \<and> n_nonce_local (nb t i) = n_nonce_local (nb s i) \<and>
    n_peer_static_pub (nb t i) = n_peer_static_pub (nb s i)"
proof -
  let ?u = "upd_neigh i (\<lambda>n. n\<lparr>n_transcript := h\<rparr>) s"
  obtain lk ltk where k: "link_keys (c_cr s) z h = (lk, ltk)" by (rule prod.exhaust)
  let ?t = "upd_neigh i (\<lambda>n. n\<lparr>n_ltk := ltk, n_has_ltk := True, n_link_key := lk,
    n_key_id := Some lk, n_has_key := True, n_tx_ctr := 0, n_rx_ctr := 0, n_replay_mask := 0\<rparr>) ?u"
  have "derive_keys i z h ?u = (Inr (), ?t)" using assms k by (intro derive_keys_works) simp_all
  moreover have "same_node i s ?t" by (rule same_trans [OF same_upd same_upd]) simp_all
  ultimately show ?thesis using assms(2) by (intro exI [of _ ?t]) (simp add: keyed_def nb_upd_same k)
qed

lemma store_peer_at:
  assumes "i < length (c_neigh s)"
  shows "nb (store_peer i msg pub role s) i = (nb s i)\<lparr>n_nonce_peer := take LG_NONCE_LEN msg,
      n_eph_pub_peer := take LG_EC_PUB_LEN (drop LG_NONCE_LEN msg), n_peer_static_pub := pub, n_role := role\<rparr>"
    "same_node i s (store_peer i msg pub role s)" "c_hs (store_peer i msg pub role s) = c_hs s"
  using assms by (simp_all add: store_peer_def nb_upd_same same_upd)

text \<open>The transcript as both ends compute it.\<close>

definition transcript_of :: "crypto \<Rightarrow> u32 \<Rightarrow> u8 list \<Rightarrow> u8 list \<Rightarrow> u8 list \<Rightarrow> u8 list \<Rightarrow> u16 \<Rightarrow> u16 \<Rightarrow> u8 list" where
  "transcript_of cr netid nonce_j nonce_r pub_j pub_r addr_j addr_r =
    the (cr_hash cr (concat [le32_bytes netid @ le16_bytes addr_j @ le16_bytes addr_r, nonce_j, nonce_r, pub_j, pub_r]))"

lemma transcript_works:
  "crypto_works (c_cr s) \<Longrightarrow> transcript_build s nj nr pj pr aj ar = Inr (transcript_of (c_cr s) (c_network_id s) nj nr pj pr aj ar)"
  unfolding crypto_works_def transcript_build_def lg_sec_hash_def transcript_of_def by (auto split: option.split)

text \<open>The router's answer.\<close>

lemma join_rsp_step:
  assumes can: "can_join j s" and len: "length nonce = LG_NONCE_LEN" "length pub = LG_EC_PUB_LEN" "length cert = LG_CERT_LEN"
    and cert: "lg_sec_cert_verify s cert = Inr (n_addr (nb s j), role, spub)"
    and key: "cr_keypair (c_cr s) k = Some (pub, priv)"
  shows "\<exists>nonce' pub' priv' z h sig t. handle_join_req j (nonce @ pub @ cert) s = (Inr (), t) \<and>
    staged t = nonce' @ pub' @ own_cert s @ sig \<and> length nonce' = LG_NONCE_LEN \<and> length pub' = LG_EC_PUB_LEN \<and>
    length sig = LG_SIG_LEN \<and> lg_sec_sign s h = Inr sig \<and>
    h = transcript_of (c_cr s) (c_network_id s) nonce nonce' pub pub' (n_addr (nb s j)) (c_addr s) \<and>
    cr_ecdh (c_cr s) priv' pub = Some z \<and> cr_ecdh (c_cr s) priv pub' = Some z \<and>
    keyed j (c_cr s) z h t \<and> n_peer_static_pub (nb t j) = spub \<and> same_node j s t"
proof -
  have w: "crypto_works (c_cr s)" "j < length (c_neigh s)" "length (own_cert s) = LG_CERT_LEN" "length (hs_tx (c_hs s)) = LG_XFER_MAX"
    "\<exists>sig. lg_sec_sign s h = Inr sig \<and> length sig = LG_SIG_LEN" for h
    using can by (auto simp: can_join_def)
  let ?msg = "nonce @ pub @ cert"
  define v where "v = store_peer j ?msg spub role s"
  note v = store_peer_at [OF w(2), of ?msg spub role, folded v_def]
  have vs: "c_cr v = c_cr s" "j < length (c_neigh v)" "c_addr v = c_addr s" "c_network_id v = c_network_id s" "own_cert v = own_cert s"
    using v(2) w(2) by (simp_all add: same_node_def)
  from fresh_keys_works [of v j] w(1) vs obtain nonce' k' pub' priv' u where f: "fresh_keys j v = (Inr (), u)"
    "length nonce' = LG_NONCE_LEN" "length pub' = LG_EC_PUB_LEN" "cr_keypair (c_cr s) k' = Some (pub', priv')"
    and u: "u = upd_hs (\<lambda>h. h\<lparr>hs_eph_pub := pub', hs_eph_priv := priv'\<rparr>)
      ((upd_neigh j (\<lambda>n. n\<lparr>n_nonce_local := nonce'\<rparr>) v)\<lparr>c_rng_n := c_rng_n v + 2\<rparr>)" by auto
  obtain z where z: "cr_ecdh (c_cr s) priv' pub = Some z" "cr_ecdh (c_cr s) priv pub' = Some z"
    using w(1) key f(4) unfolding crypto_works_def by blast
  have su: "same_node j s u" unfolding u by (rule same_trans [OF v(2) same_trans [OF same_upd same_eph]]) simp
  have un: "n_nonce_peer (nb u j) = nonce" "n_eph_pub_peer (nb u j) = pub" "n_nonce_local (nb u j) = nonce'"
    "n_peer_static_pub (nb u j) = spub" "hs_eph_pub (c_hs u) = pub'" "hs_eph_priv (c_hs u) = priv'"
    using w(2) vs len by (simp_all add: u nb_upd_same v(1))
  have us: "c_cr u = c_cr s" "j < length (c_neigh u)" "c_addr u = c_addr s" "c_network_id u = c_network_id s"
    "n_addr (nb u j) = n_addr (nb s j)" "own_cert u = own_cert s" "lg_sec_sign u = lg_sec_sign s"
    "length (hs_tx (c_hs u)) = LG_XFER_MAX" using su w(2,4) by (simp_all add: same_node_def)
  define h where "h = transcript_of (c_cr s) (c_network_id s) nonce nonce' pub pub' (n_addr (nb s j)) (c_addr s)"
  have tr: "transcript_build u nonce nonce' pub pub' (n_addr (nb s j)) (c_addr s) = Inr h"
    using transcript_works [of u] w(1) us by (simp add: h_def)
  obtain sig where sig: "lg_sec_sign s h = Inr sig" "length sig = LG_SIG_LEN" using w(5) by blast
  from derive_step [of u j z h] w(1) us obtain x where x: "derive_keys j z h (upd_neigh j (\<lambda>n. n\<lparr>n_transcript := h\<rparr>) u) = (Inr (), x)"
    "keyed j (c_cr s) z h x" "same_node j u x" "c_hs x = c_hs u" "n_peer_static_pub (nb x j) = spub" by (auto simp: un)
  have xs: "lg_sec_sign x = lg_sec_sign s" "own_cert x = own_cert s" using x(3) us by (simp_all add: same_node_def)
  let ?rsp = "nonce' @ pub' @ own_cert s @ sig"
  let ?y = "hs_put (nonce' @ pub' @ own_cert s) x"
  let ?t = "stage_message LG_FT_JOIN_RSP False (length ?rsp) (hs_put ?rsp ?y)"
  have tx: "length (hs_tx (c_hs ?y)) = LG_XFER_MAX" using x(4) us f w(3) by (simp add: hs_put_def)
  have sy: "same_node j x ?y" using x(4) us f w(3) by (simp add: same_node_def hs_put_def)
  have "lg_sec_ecdh (upd_neigh j (\<lambda>n. n\<lparr>n_transcript := h\<rparr>) u) priv' pub = Inr z" "lg_sec_ecdh u priv' pub = Inr z"
    using z(1) us by (simp_all add: lg_sec_ecdh_def)
  then have "handle_join_req j ?msg s = (Inr (), ?t)"
    using cert f(1) x(1) tr sig
    by (simp add: handle_join_req_def msg_cert_def len v_def [symmetric] un us xs x(4) Let_def)
  moreover have "staged ?t = ?rsp" by (rule staged_stage) (use f w(3) sig tx in simp_all)
  moreover have "same_node j s ?t"
    by (rule same_trans [OF su same_trans [OF x(3) same_trans [OF sy same_stage]]]) (use f w(3) sig tx in simp)
  moreover have "keyed j (c_cr s) z h ?t" "n_peer_static_pub (nb ?t j) = spub" using x(2,5) by (simp_all add: keyed_def)
  ultimately show ?thesis using f(2,3) z sig h_def by blast
qed

text \<open>The joiner's confirmation.\<close>

lemma join_cfm_step:
  assumes can: "can_join i s" and len: "length nonce' = LG_NONCE_LEN" "length pub' = LG_EC_PUB_LEN" "length cert = LG_CERT_LEN"
      "length sig = LG_SIG_LEN"
    and cert: "lg_sec_cert_verify s cert = Inr (n_addr (nb s i), role, spub)"
    and tr: "h = transcript_of (c_cr s) (c_network_id s) (n_nonce_local (nb s i)) nonce' (hs_eph_pub (c_hs s)) pub' (c_addr s) (n_addr (nb s i))"
    and ver: "lg_sec_verify s spub h sig = Inr ()" and z: "cr_ecdh (c_cr s) (hs_eph_priv (c_hs s)) pub' = Some z"
  shows "\<exists>sig' t. handle_join_rsp i (nonce' @ pub' @ cert @ sig) s = (Inr (), t) \<and> staged t = sig' \<and>
    lg_sec_sign s h = Inr sig' \<and> length sig' = LG_SIG_LEN \<and> keyed i (c_cr s) z h t \<and> same_node i s t"
proof -
  have w: "crypto_works (c_cr s)" "i < length (c_neigh s)" "length (hs_tx (c_hs s)) = LG_XFER_MAX"
    "\<exists>sig. lg_sec_sign s h = Inr sig \<and> length sig = LG_SIG_LEN" for h
    using can by (auto simp: can_join_def)
  let ?msg = "nonce' @ pub' @ cert @ sig"
  define v where "v = store_peer i ?msg spub role s"
  note v = store_peer_at [OF w(2), of ?msg spub role, folded v_def]
  have vs: "c_cr v = c_cr s" "i < length (c_neigh v)" "c_addr v = c_addr s" "c_network_id v = c_network_id s"
    "lg_sec_verify v = lg_sec_verify s" "lg_sec_sign v = lg_sec_sign s" "length (hs_tx (c_hs v)) = LG_XFER_MAX"
    using v(2) w(2,3) by (simp_all add: same_node_def)
  have vn: "n_nonce_peer (nb v i) = nonce'" "n_eph_pub_peer (nb v i) = pub'" "n_nonce_local (nb v i) = n_nonce_local (nb s i)"
    "n_addr (nb v i) = n_addr (nb s i)" "c_hs v = c_hs s" using len v by simp_all
  have tr': "transcript_build v (n_nonce_local (nb s i)) nonce' (hs_eph_pub (c_hs s)) pub' (c_addr s) (n_addr (nb s i)) = Inr h"
    using transcript_works [of v] w(1) vs by (simp add: tr)
  obtain sig' where sig': "lg_sec_sign s h = Inr sig'" "length sig' = LG_SIG_LEN" using w(4) by blast
  from derive_step [of v i z h] w(1) vs obtain x where x: "derive_keys i z h (upd_neigh i (\<lambda>n. n\<lparr>n_transcript := h\<rparr>) v) = (Inr (), x)"
    "keyed i (c_cr s) z h x" "same_node i v x" by auto
  have xs: "lg_sec_sign x = lg_sec_sign s" "length (hs_tx (c_hs x)) = LG_XFER_MAX"
    using x(3) vs by (simp_all add: same_node_def)
  let ?t = "stage_message LG_FT_JOIN_CFM True (length sig') (hs_put sig' x)"
  have ecdh: "lg_sec_ecdh v (hs_eph_priv (c_hs s)) pub' = Inr z" using z vs by (simp add: lg_sec_ecdh_def)
  have "handle_join_rsp i ?msg s = (Inr (), ?t)"
    using cert x(1) tr' sig' ver ecdh
    by (simp add: handle_join_rsp_def msg_cert_def len v_def [symmetric] vn vs xs Let_def)
  moreover have "staged ?t = sig'" by (rule staged_stage) (simp_all add: sig' xs)
  moreover have "same_node i s ?t"
    by (rule same_trans [OF v(2) same_trans [OF x(3) same_stage]]) (simp add: sig' xs)
  moreover have "keyed i (c_cr s) z h ?t" using x(2) by (simp add: keyed_def)
  ultimately show ?thesis using sig' by blast
qed

text \<open>The router's own last step only reads what the exchange left in the entry.\<close>

lemma join_ack_step:
  assumes "length sig = LG_SIG_LEN" "lg_sec_verify s (n_peer_static_pub (nb s i)) (n_transcript (nb s i)) sig = Inr ()"
  shows "\<exists>t. handle_join_cfm i sig s = (Inr (), t) \<and> c_neigh t = c_neigh s \<and> hs_tx_type (c_hs t) = LG_FT_JOIN_ACK"
proof -
  obtain pp u where "link_params_fill s = (pp, u)" by (rule prod.exhaust)
  moreover from this have "c_neigh u = c_neigh s"
    by (auto simp: link_params_fill_def lg_sec_rand_def Let_def split: option.splits)
  ultimately show ?thesis using assms by (simp add: handle_join_cfm_def stage_params_def)
qed

lemma handshake_run:
  fixes a b :: ctx and i j :: nat
  assumes "can_join i a" "can_join j b" "c_cr b = c_cr a" "c_network_id b = c_network_id a"
    and "n_addr (nb a i) = c_addr b" "n_addr (nb b j) = c_addr a" "certified a b" "certified b a"
  defines "a1 \<equiv> snd (build_join_req i a)"
    and "b1 \<equiv> snd (handle_join_req j (staged (snd (build_join_req i a))) b)"
  defines "a2 \<equiv> snd (handle_join_rsp i (staged b1) a1)"
  defines "b2 \<equiv> snd (handle_join_cfm j (staged a2) b1)"
  shows "fst (build_join_req i a) = Inr () \<and> fst (handle_join_req j (staged a1) b) = Inr () \<and>
    fst (handle_join_rsp i (staged b1) a1) = Inr () \<and> fst (handle_join_cfm j (staged a2) b1) = Inr () \<and>
    n_transcript (nb a2 i) = n_transcript (nb b2 j) \<and> n_link_key (nb a2 i) = n_link_key (nb b2 j) \<and>
    n_key_id (nb a2 i) = n_key_id (nb b2 j) \<and> n_ltk (nb a2 i) = n_ltk (nb b2 j) \<and>
    n_has_key (nb a2 i) \<and> n_has_key (nb b2 j) \<and> hs_tx_type (c_hs b2) = LG_FT_JOIN_ACK"
proof -
  from \<open>certified b a\<close> obtain rj pj where ca: "length (own_cert a) = LG_CERT_LEN"
    "lg_sec_cert_verify b (own_cert a) = Inr (c_addr a, rj, pj)"
    "\<And>h. \<exists>sig. lg_sec_sign a h = Inr sig \<and> length sig = LG_SIG_LEN \<and> lg_sec_verify b pj h sig = Inr ()"
    unfolding certified_def by blast
  from \<open>certified a b\<close> obtain rr pr where cb: "length (own_cert b) = LG_CERT_LEN"
    "lg_sec_cert_verify a (own_cert b) = Inr (c_addr b, rr, pr)"
    "\<And>h. \<exists>sig. lg_sec_sign b h = Inr sig \<and> length sig = LG_SIG_LEN \<and> lg_sec_verify a pr h sig = Inr ()"
    unfolding certified_def by blast
  from join_req_step [OF assms(1)] obtain nonce k pub priv where r1: "build_join_req i a = (Inr (), a1)"
    "staged a1 = nonce @ pub @ own_cert a" "length nonce = LG_NONCE_LEN" "length pub = LG_EC_PUB_LEN"
    "cr_keypair (c_cr a) k = Some (pub, priv)" "n_nonce_local (nb a1 i) = nonce" "hs_eph_pub (c_hs a1) = pub"
    "hs_eph_priv (c_hs a1) = priv" "same_node i a a1" unfolding a1_def by auto
  from join_rsp_step [OF assms(2) r1(3,4) ca(1), of rj pj k priv] ca(2) r1(5) assms(3,6) obtain nonce' pub' priv' z h sig where
    r2: "handle_join_req j (staged a1) b = (Inr (), b1)" "staged b1 = nonce' @ pub' @ own_cert b @ sig"
    "length nonce' = LG_NONCE_LEN" "length pub' = LG_EC_PUB_LEN" "length sig = LG_SIG_LEN" "lg_sec_sign b h = Inr sig"
    "h = transcript_of (c_cr a) (c_network_id a) nonce nonce' pub pub' (c_addr a) (c_addr b)"
    "cr_ecdh (c_cr a) priv pub' = Some z" "keyed j (c_cr a) z h b1" "n_peer_static_pub (nb b1 j) = pj" "same_node j b b1"
    unfolding b1_def a1_def [symmetric] r1(2) using assms(4) by auto
  have s1: "lg_sec_cert_verify a1 = lg_sec_cert_verify a" "lg_sec_verify a1 = lg_sec_verify a" "lg_sec_sign a1 = lg_sec_sign a"
    "c_cr a1 = c_cr a" "c_network_id a1 = c_network_id a" "c_addr a1 = c_addr a" "n_addr (nb a1 i) = c_addr b"
    using r1(9) assms(5) by (simp_all add: same_node_def)
  have "lg_sec_verify a1 pr h sig = Inr ()" using cb(3) [of h] r2(6) s1(2) by auto
  with join_cfm_step [OF same_can_join [OF r1(9) assms(1)] r2(3,4) cb(1) r2(5), of rr pr h z] cb(2) r2(7,8) r1(6-8) s1
  obtain sig' where r3: "handle_join_rsp i (staged b1) a1 = (Inr (), a2)" "staged a2 = sig'" "lg_sec_sign a h = Inr sig'"
    "length sig' = LG_SIG_LEN" "keyed i (c_cr a) z h a2" unfolding a2_def r2(2) by auto
  have "lg_sec_verify b1 pj h sig' = Inr ()" using ca(3) [of h] r3(3) r2(11) by (auto simp: same_node_def)
  with join_ack_step [OF r3(4), of b1 j] r2(9,10) have r4: "handle_join_cfm j (staged a2) b1 = (Inr (), b2)"
    "c_neigh b2 = c_neigh b1" "hs_tx_type (c_hs b2) = LG_FT_JOIN_ACK" unfolding b2_def r3(2) by (auto simp: keyed_def)
  show ?thesis using r1(1) r2(1,9) r3(1,5) r4 by (simp add: keyed_def)
qed

text \<open>C3: the handshake works. When each end's certificate is one the other accepts, the four messages go
  through without an error, each end has verified the other's signature, and both finish with the same
  transcript, the same session key and the same long-term key; the router then sends the link parameters.\<close>

theorem handshake_agrees:
  fixes a b :: ctx and i j :: nat
  assumes "can_join i a" "can_join j b" "c_cr b = c_cr a" "c_network_id b = c_network_id a"
    and "n_addr (nb a i) = c_addr b" "n_addr (nb b j) = c_addr a" "certified a b" "certified b a"
  defines "a1 \<equiv> snd (build_join_req i a)"
    and "b1 \<equiv> snd (handle_join_req j (staged (snd (build_join_req i a))) b)"
  defines "a2 \<equiv> snd (handle_join_rsp i (staged b1) a1)"
  defines "b2 \<equiv> snd (handle_join_cfm j (staged a2) b1)"
  shows "fst (build_join_req i a) = Inr () \<and> fst (handle_join_req j (staged a1) b) = Inr () \<and>
    fst (handle_join_rsp i (staged b1) a1) = Inr () \<and> fst (handle_join_cfm j (staged a2) b1) = Inr () \<and>
    n_transcript (nb a2 i) = n_transcript (nb b2 j) \<and> n_link_key (nb a2 i) = n_link_key (nb b2 j) \<and>
    n_key_id (nb a2 i) = n_key_id (nb b2 j) \<and> n_ltk (nb a2 i) = n_ltk (nb b2 j) \<and>
    n_has_key (nb a2 i) \<and> n_has_key (nb b2 j) \<and> hs_tx_type (c_hs b2) = LG_FT_JOIN_ACK"
  unfolding a1_def b1_def a2_def b2_def by (rule handshake_run [OF assms(1-8)])

text \<open>Two nodes of one grid, in the toy environment.\<close>

definition demo_cert :: "u16 \<Rightarrow> u8 \<Rightarrow> u8 list" where
  "demo_cert addr k = (let body = le16_bytes addr @ replicate 10 0 @ replicate 64 k
     in body @ replicate 64 (9 + sum_list body))"

definition demo_end :: "u16 \<Rightarrow> u16 \<Rightarrow> u8 \<Rightarrow> ctx" where
  "demo_end addr peer k = demo_node\<lparr>c_addr := addr, c_cert := Some (demo_cert addr k), c_priv_key := Some (replicate 32 k),
     c_ca_pub := Some (replicate 64 9), c_neigh := neigh_fresh peer # replicate 7 neigh_zero\<rparr>"

lemma demo_crypto_works: "crypto_works demo_crypto"
  by (simp add: crypto_works_def demo_crypto_def mult.commute)

lemma demo_end_sel [simp]:
  "c_cr (demo_end a p k) = demo_crypto" "c_addr (demo_end a p k) = a" "n_addr (nb (demo_end a p k) 0) = p"
  "own_cert (demo_end a p k) = demo_cert a k" "c_network_id (demo_end a p k) = 0" "c_priv_key (demo_end a p k) = Some (replicate 32 k)"
  "length (c_neigh (demo_end a p k)) = 8" "length (hs_tx (c_hs (demo_end a p k))) = LG_XFER_MAX"
  by (simp_all add: demo_end_def own_cert_def demo_node_def node_zero_def neigh_fresh_def hs_zero_def)

lemma demo_sign: "\<exists>sig. lg_sec_sign (demo_end a p k) h = Inr sig \<and> length sig = LG_SIG_LEN \<and> sig = replicate 64 (k + h ! 0)"
  by (simp add: lg_sec_sign_def demo_crypto_def)

lemma demo_can_join: "can_join 0 (demo_end a p k)"
  using demo_crypto_works demo_sign [of a p k] by (simp add: can_join_def demo_cert_def le16_bytes_def Let_def)

lemma demo_certified:
  "certified (demo_end 5 9 1) (demo_end 9 5 2)" "certified (demo_end 9 5 2) (demo_end 5 9 1)"
proof -
  have c: "lg_sec_cert_verify (demo_end 5 9 1) (demo_cert 9 2) = Inr (9, 0, replicate 64 2)"
    "lg_sec_cert_verify (demo_end 9 5 2) (demo_cert 5 1) = Inr (5, 0, replicate 64 1)" by code_simp+
  have v: "lg_sec_verify (demo_end a p k) (replicate 64 m) h (replicate 64 (m + h ! 0)) = Inr ()" for a p k m h
    by (simp add: lg_sec_verify_def demo_crypto_def)
  have l: "length (demo_cert a k) = LG_CERT_LEN" for a k by (simp add: demo_cert_def le16_bytes_def Let_def)
  show "certified (demo_end 5 9 1) (demo_end 9 5 2)" "certified (demo_end 9 5 2) (demo_end 5 9 1)"
    unfolding certified_def using c demo_sign [of 9 5 2] demo_sign [of 5 9 1] v by (auto simp: l)
qed

definition demo_a1 :: ctx where "demo_a1 = snd (build_join_req 0 (demo_end 5 9 1))"
definition demo_b1 :: ctx where "demo_b1 = snd (handle_join_req 0 (staged demo_a1) (demo_end 9 5 2))"
definition demo_a2 :: ctx where "demo_a2 = snd (handle_join_rsp 0 (staged demo_b1) demo_a1)"
definition demo_b2 :: ctx where "demo_b2 = snd (handle_join_cfm 0 (staged demo_a2) demo_b1)"

theorem handshake_agrees_witness:
  "n_has_key (nb demo_a2 0) \<and> n_has_key (nb demo_b2 0) \<and> n_link_key (nb demo_a2 0) = n_link_key (nb demo_b2 0) \<and>
   hs_tx_type (c_hs demo_b2) = LG_FT_JOIN_ACK"
  using handshake_agrees [OF demo_can_join demo_can_join _ _ _ _ demo_certified]
  unfolding demo_b2_def demo_a2_def demo_b1_def demo_a1_def by simp

text \<open>C7: the joiner takes a new key only from a router that proved who it is: the certificate it sent is
  signed by the authority and names exactly the address the handshake is with, and the signature under
  the key in it covers the transcript of this exchange, with the joiner's own fresh nonce and key.
  Otherwise the session key stays as it was.\<close>

theorem joiner_key_needs_proof:
  assumes "i < length (c_neigh s)" "handle_join_rsp i msg s = (r, t)"
  shows "(n_link_key (nb t i) = n_link_key (nb s i) \<and> n_has_key (nb t i) = n_has_key (nb s i) \<and>
      n_key_id (nb t i) = n_key_id (nb s i)) \<or>
    (\<exists>role pub transcript. lg_sec_cert_verify s (msg_cert msg) = Inr (n_addr (nb s i), role, pub) \<and>
      transcript_build s (n_nonce_local (nb s i)) (take LG_NONCE_LEN msg) (hs_eph_pub (c_hs s))
        (take LG_EC_PUB_LEN (drop LG_NONCE_LEN msg)) (c_addr s) (n_addr (nb s i)) = Inr transcript \<and>
      cr_verify (c_cr s) pub transcript (drop (LG_NONCE_LEN + LG_EC_PUB_LEN + LG_CERT_LEN) msg))"
  (is "?same \<or> ?proof")
proof (cases "lg_sec_cert_verify s (msg_cert msg)")
  case (Inl e)
  then show ?thesis using assms(2) by (auto simp: handle_join_rsp_def split: if_splits)
next
  case (Inr c)
  obtain addr role pub where c: "c = (addr, role, pub)" by (cases c)
  let ?v = "store_peer i msg pub role s"
  have v: "nb ?v i = (nb s i)\<lparr>n_nonce_peer := take LG_NONCE_LEN msg,
      n_eph_pub_peer := take LG_EC_PUB_LEN (drop LG_NONCE_LEN msg), n_peer_static_pub := pub, n_role := role\<rparr>"
    "c_hs ?v = c_hs s" "c_addr ?v = c_addr s" "c_cr ?v = c_cr s" "c_network_id ?v = c_network_id s"
    using assms(1) by (simp_all add: store_peer_def upd_neigh_def)
  let ?tr = "transcript_build s (n_nonce_local (nb s i)) (take LG_NONCE_LEN msg) (hs_eph_pub (c_hs s))
        (take LG_EC_PUB_LEN (drop LG_NONCE_LEN msg)) (c_addr s) (n_addr (nb s i))"
  have tr: "transcript_build ?v = transcript_build s"
    by (intro ext) (simp add: v transcript_build_def lg_sec_hash_def)
  show ?thesis
  proof (cases "addr = n_addr (nb s i) \<and> (\<exists>h. ?tr = Inr h \<and> cr_verify (c_cr s) pub h (drop (LG_NONCE_LEN + LG_EC_PUB_LEN + LG_CERT_LEN) msg))")
    case True
    then show ?thesis using Inr c by auto
  next
    case False
    then have "?same" using assms(2) Inr c
      by (cases ?tr) (auto simp: handle_join_rsp_def Let_def tr lg_sec_verify_def v split: if_splits)
    then show ?thesis ..
  qed
qed

theorem joiner_key_needs_proof_witness:
  "\<exists>role pub transcript. lg_sec_cert_verify demo_a1 (msg_cert (staged demo_b1)) = Inr (9, role, pub) \<and>
     cr_verify demo_crypto pub transcript (drop 212 (staged demo_b1))"
proof -
  let ?r = "fst (handle_join_rsp 0 (staged demo_b1) demo_a1)"
  have a1: "length (c_neigh demo_a1) = 8" "\<not> n_has_key (nb demo_a1 0)" "n_addr (nb demo_a1 0) = 9" "c_cr demo_a1 = demo_crypto"
    by (simp_all add: demo_a1_def build_join_req_def fresh_keys_def lg_sec_rand_def lg_sec_ecdh_keypair_def demo_crypto_def
        demo_end_def demo_node_def node_zero_def neigh_fresh_def neigh_zero_def upd_neigh_def upd_hs_def stage_message_def hs_put_def Let_def)
  have a2: "n_has_key (nb demo_a2 0)"
    using handshake_run [OF demo_can_join demo_can_join _ _ _ _ demo_certified]
    by (simp_all add: demo_b2_def demo_a2_def demo_b1_def demo_a1_def)
  have "handle_join_rsp 0 (staged demo_b1) demo_a1 = (?r, demo_a2)" by (simp add: demo_a2_def)
  from joiner_key_needs_proof [OF _ this] a1 a2 show ?thesis by auto
qed

end
