(* ===== verification/LG_Frag.thy ===== *)
theory LG_Frag
  imports LG_Join
begin

text \<open>
  Fragmentation: a handshake message that is staged, cut into frames and sent comes out of the
  reassembly at the other end as it was.
\<close>

text \<open>Sending fragments one after the other, and receiving frames one after the other.\<close>

fun fragments :: "nat \<Rightarrow> u8 list \<Rightarrow> ctx \<Rightarrow> (nat \<times> u8 list) list" where
  "fragments j [] s = []"
| "fragments j (k # ks) s = (case build_fragment j k s of (len, pdu, s1) \<Rightarrow> (len, pdu) # fragments j ks s1)"

fun feed :: "nat \<Rightarrow> (nat \<times> u8 list) list \<Rightarrow> ctx \<Rightarrow> bool list \<times> ctx" where
  "feed i [] s = ([], s)"
| "feed i ((len, pdu) # fs) s = (case reassemble i pdu len s of (ok, s1) \<Rightarrow>
     case feed i fs s1 of (oks, s2) \<Rightarrow> (ok # oks, s2))"

text \<open>A message of \<open>L\<close> bytes in \<open>F\<close> fragments of the plain size.\<close>

definition cut :: "nat \<Rightarrow> nat \<Rightarrow> bool" where
  "cut L F \<longleftrightarrow> 0 < L \<and> L \<le> LG_XFER_MAX \<and> 0 < F \<and> F \<le> 3 \<and> (F - 1) * LG_FRAG_CAP < L \<and> L \<le> F * LG_FRAG_CAP"

definition chunk_of :: "u8 list \<Rightarrow> nat \<Rightarrow> u8 list" where
  "chunk_of msg k = take LG_FRAG_CAP (drop (k * LG_FRAG_CAP) msg)"

text \<open>The handshake context of the receiver after the first \<open>k\<close> fragments.\<close>

definition received :: "u8 \<Rightarrow> u8 list \<Rightarrow> nat \<Rightarrow> handshake \<Rightarrow> bool" where
  "received ty msg k h \<longleftrightarrow> k = 0 \<or>
    (hs_rx_type h = ty \<and> xf_frags_seen (hs_rx h) = mask k \<and> xf_len (hs_rx h) = 0 \<and>
     length (xf_buf (hs_rx h)) = LG_XFER_MAX \<and> take (k * LG_FRAG_CAP) (xf_buf (hs_rx h)) = take (k * LG_FRAG_CAP) msg)"

definition complete :: "u8 list \<Rightarrow> handshake \<Rightarrow> bool" where
  "complete msg h \<longleftrightarrow> xf_complete (hs_rx h) \<and> take (xf_len (hs_rx h)) (xf_buf (hs_rx h)) = msg"

lemma seen_step: "(mask k OR BIT k :: u8) = mask (Suc k)"
  by (simp add: mask_Suc_exp BIT_def push_bit_of_1 or.commute)

lemma small_idx: "k < 4 \<Longrightarrow> unat (of_nat k :: u8) = k"
  by (simp add: unat_of_nat_small)

lemma cut_bounds:
  assumes "cut (length msg) F" "k < F"
  shows "k * LG_FRAG_CAP < length msg" "k * LG_FRAG_CAP + length (chunk_of msg k) \<le> LG_XFER_MAX"
    "Suc k = F \<Longrightarrow> k * LG_FRAG_CAP + length (chunk_of msg k) = length msg"
    "Suc k \<noteq> F \<Longrightarrow> length (chunk_of msg k) = LG_FRAG_CAP"
proof -
  have b: "length msg \<le> LG_XFER_MAX" "(F - 1) * LG_FRAG_CAP < length msg" "length msg \<le> F * LG_FRAG_CAP"
    using assms(1) by (simp_all add: cut_def)
  show off: "k * LG_FRAG_CAP < length msg"
    using assms(2) b(2) by (cases F) (auto simp: less_Suc_eq_le intro: le_less_trans [OF mult_le_mono1])
  have lc: "length (chunk_of msg k) = min LG_FRAG_CAP (length msg - k * LG_FRAG_CAP)" by (simp add: chunk_of_def)
  show "k * LG_FRAG_CAP + length (chunk_of msg k) \<le> LG_XFER_MAX" using off lc b(1) by simp
  show "k * LG_FRAG_CAP + length (chunk_of msg k) = length msg" if "Suc k = F" using that b lc by auto
  show "length (chunk_of msg k) = LG_FRAG_CAP" if "Suc k \<noteq> F"
  proof -
    have "Suc k \<le> F - 1" using that assms(2) by simp
    then have "Suc k * LG_FRAG_CAP \<le> (F - 1) * LG_FRAG_CAP" by (rule mult_le_mono1)
    with b(2) lc show ?thesis by simp
  qed
qed

lemma frag_index:
  assumes "0 < F" "F \<le> 3" "k < F"
  shows "unat (of_nat k :: u8) = k" "unat (of_nat F :: u8) = F" "(of_nat k :: u8) = of_nat F - 1 \<longleftrightarrow> Suc k = F"
    "(of_nat F :: u8) \<noteq> 0" "\<not> (8 :: u8) < of_nat F" "\<not> (of_nat F :: u8) \<le> of_nat k"
proof -
  show u: "unat (of_nat k :: u8) = k" "unat (of_nat F :: u8) = F" using assms by (simp_all add: small_idx)
  have "(of_nat F :: u8) - 1 = of_nat (F - 1)" using assms(1) by (simp add: of_nat_diff)
  moreover have "unat (of_nat (F - 1) :: u8) = F - 1" using assms(2) by (intro small_idx) simp
  ultimately have "(of_nat k :: u8) = of_nat F - 1 \<longleftrightarrow> k = F - 1" using u(1) by metis
  then show "(of_nat k :: u8) = of_nat F - 1 \<longleftrightarrow> Suc k = F" using assms(1) by auto
  show "(of_nat F :: u8) \<noteq> 0" "\<not> (8 :: u8) < of_nat F" "\<not> (of_nat F :: u8) \<le> of_nat k"
    using assms u by (auto simp: word_less_nat_alt word_le_nat_alt simp flip: unat_gt_0)
qed

text \<open>One fragment stored in the buffer.\<close>

lemma xfer_received:
  assumes "cut (length msg) F" "k < F" "length (xf_buf x) = LG_XFER_MAX" "take (k * LG_FRAG_CAP) (xf_buf x) = take (k * LG_FRAG_CAP) msg"
    and "xf_frags_seen x = mask k" "xf_len x = 0"
  defines "y \<equiv> xfer_step LG_FRAG_CAP (of_nat k) (of_nat F) (chunk_of msg k) x"
  shows "xf_frags_seen y = mask (Suc k)" "length (xf_buf y) = LG_XFER_MAX"
    "take (k * LG_FRAG_CAP + length (chunk_of msg k)) (xf_buf y) = take (k * LG_FRAG_CAP + length (chunk_of msg k)) msg"
    "xf_len y = (if Suc k = F then length msg else 0)"
proof -
  have F: "0 < F" "F \<le> 3" using assms(1) by (simp_all add: cut_def)
  note u = frag_index [OF F assms(2)] and b = cut_bounds [OF assms(1,2)]
  have buf: "xf_buf y = blit (xf_buf x) (k * LG_FRAG_CAP) (chunk_of msg k)"
    using u by (simp add: y_def xfer_step_def Let_def)
  show "xf_frags_seen y = mask (Suc k)" "xf_len y = (if Suc k = F then length msg else 0)"
    using u assms(5,6) b(3) by (simp_all add: y_def xfer_step_def Let_def seen_step)
  show "length (xf_buf y) = LG_XFER_MAX" unfolding buf using assms(3) b(2) by simp
  have "k * LG_FRAG_CAP \<le> length (xf_buf x)" using assms(3) b(2) by simp
  then have "take (k * LG_FRAG_CAP + length (chunk_of msg k)) (xf_buf y) = take (k * LG_FRAG_CAP) msg @ chunk_of msg k"
    unfolding buf by (simp only: take_end_blit assms(4))
  moreover have "take (length (chunk_of msg k)) (drop (k * LG_FRAG_CAP) msg) = chunk_of msg k"
    by (auto simp: chunk_of_def min_def)
  ultimately show "take (k * LG_FRAG_CAP + length (chunk_of msg k)) (xf_buf y) = take (k * LG_FRAG_CAP + length (chunk_of msg k)) msg"
    by (metis take_add)
qed

lemma received_step:
  assumes "cut (length msg) F" "k < F" "received ty msg k h"
  shows "\<exists>h'. reassemble_body ty LG_FRAG_CAP ([of_nat k, of_nat F] @ chunk_of msg k) h = (Suc k = F, h') \<and>
    (if Suc k = F then complete msg h' else received ty msg (Suc k) h')"
proof -
  have F: "0 < F" "F \<le> 3" "0 < length msg" using assms(1) by (simp_all add: cut_def)
  note u = frag_index [OF F(1,2) assms(2)] and b = cut_bounds [OF assms(1,2)]
  define h1 where "h1 = rx_reset ty (of_nat k) h"
  have h1: "hs_rx_type h1 = ty" "xf_frags_seen (hs_rx h1) = mask k" "xf_len (hs_rx h1) = 0"
    "length (xf_buf (hs_rx h1)) = LG_XFER_MAX" "take (k * LG_FRAG_CAP) (xf_buf (hs_rx h1)) = take (k * LG_FRAG_CAP) msg"
    using assms(3) u(1) by (auto simp: h1_def rx_reset_def received_def xfer_zero_def)
  define x where "x = xfer_step LG_FRAG_CAP (of_nat k) (of_nat F) (chunk_of msg k) (hs_rx h1)"
  note x = xfer_received [OF assms(1,2) h1(4,5,2,3), folded x_def]
  have hx: "xfer_step 115 (of_nat k) (of_nat F) (chunk_of msg k) (hs_rx h1) = x" by (simp add: x_def)
  have "xfer_done (of_nat F) x \<longleftrightarrow> Suc k = F" using x(1,4) u(2) F(3) by (simp add: xfer_done_def)
  then have run: "reassemble_body ty LG_FRAG_CAP ([of_nat k, of_nat F] @ chunk_of msg k) h =
      (Suc k = F, h1\<lparr>hs_rx := (if Suc k = F then x\<lparr>xf_complete := True\<rparr> else x)\<rparr>)"
    using u b(2) by (simp add: reassemble_body_def h1_def [symmetric] hx Let_def)
  show ?thesis
  proof (cases "Suc k = F")
    case True
    with run x(3,4) b(3) show ?thesis by (auto simp: complete_def)
  next
    case False
    with run x b(4) h1(1) show ?thesis by (auto simp: received_def add.commute)
  qed
qed

section \<open>From frame to frame\<close>

lemma build_plain:
  assumes "\<not> hs_tx_secured (c_hs s)" "hs_tx_len (c_hs s) \<le> length (hs_tx (c_hs s))" "\<not> has_flag (hs_tx_type (c_hs s)) LG_FCF_SEC"
  defines "msg \<equiv> take (hs_tx_len (c_hs s)) (hs_tx (c_hs s))"
  shows "\<exists>pdu s1. build_fragment j idx s = (LG_HDR_LEN + LG_FRAG_HDR_LEN + length (chunk_of msg (unat idx)), pdu, s1) \<and>
    pdu ! LG_OFF_FCF = hs_tx_type (c_hs s) \<and> c_hs s1 = c_hs s \<and>
    take (LG_FRAG_HDR_LEN + length (chunk_of msg (unat idx))) (drop LG_HDR_LEN pdu) =
      [idx, hs_frag_total (c_hs s)] @ chunk_of msg (unat idx)"
proof -
  let ?h = "c_hs s" and ?off = "unat idx * LG_FRAG_CAP" and ?c = "chunk_of msg (unat idx)"
  have c: "take (min LG_FRAG_CAP (hs_tx_len ?h - ?off)) (drop ?off (hs_tx ?h)) = ?c"
    by (simp add: chunk_of_def msg_def drop_take min.commute)
  have lc: "length ?c = min LG_FRAG_CAP (hs_tx_len ?h - ?off)" using assms(2) by (simp add: chunk_of_def msg_def)
  define hd where "hd = hdr_bytes (c_netid16 s) (hs_tx_type ?h) (n_tx_seq (nb s j)) (n_addr (nb s j)) (c_addr s)"
  have out: "lg_frame_hdr_put (replicate LG_PDU_MAX 0) (c_netid16 s) (hs_tx_type ?h) (n_tx_seq (nb s j)) (n_addr (nb s j)) (c_addr s) =
      (hd @ drop LG_HDR_LEN (replicate LG_PDU_MAX 0), LG_HDR_LEN)"
    by (rule prod_eqI) (simp_all add: hdr_put_eq hdr_put_len assms(3) hd_def)
  have hd: "length hd = LG_HDR_LEN" "(hd @ q) ! LG_OFF_FCF = hs_tx_type ?h" for q
    using hdr_fields(2) [of "hd @ q"] by (simp_all add: hd_def)
  have "blit (hd @ drop LG_HDR_LEN (replicate LG_PDU_MAX 0)) LG_HDR_LEN w =
      hd @ w @ drop (LG_HDR_LEN + length w) (hd @ drop LG_HDR_LEN (replicate LG_PDU_MAX 0))" for w
    by (simp add: blit_def hd(1))
  then show ?thesis
    using assms(1) out lc
    by (auto simp: build_fragment_def frag_cap_def Let_def c [simplified] hd upd_neigh_def)
qed

text \<open>All fragments from the \<open>k\<close>-th on, sent and received.\<close>

lemma feed_from:
  assumes "cut (length msg) F" "k < F" "received ty msg k (c_hs r)"
    and s: "\<not> hs_tx_secured (c_hs s)" "msg = take (hs_tx_len (c_hs s)) (hs_tx (c_hs s))" "length msg = hs_tx_len (c_hs s)"
      "hs_tx_type (c_hs s) = ty" "hs_frag_total (c_hs s) = of_nat F"
    and ty: "\<not> has_flag ty LG_FCF_SEC" "ty AND LG_FCF_TYPE_MASK = ty"
  shows "\<exists>r'. feed i (fragments j (map of_nat [k..<F]) s) r = (replicate (F - Suc k) False @ [True], r') \<and> complete msg (c_hs r')"
  using assms(2,3) s
proof (induction "F - k" arbitrary: k r s)
  case (Suc d)
  have F: "0 < F" "F \<le> 3" using assms(1) by (simp_all add: cut_def)
  have idx: "unat (of_nat k :: u8) = k" using frag_index(1) [OF F Suc.prems(1)] .
  have "hs_tx_len (c_hs s) \<le> length (hs_tx (c_hs s))" using Suc.prems(4,5) by (metis length_take min.cobounded1)
  with build_plain [of s j "of_nat k"] Suc.prems(3-7) ty(1) idx obtain pdu s1 where b:
    "build_fragment j (of_nat k) s = (LG_HDR_LEN + LG_FRAG_HDR_LEN + length (chunk_of msg k), pdu, s1)"
    "pdu ! LG_OFF_FCF = ty" "c_hs s1 = c_hs s"
    "take (LG_FRAG_HDR_LEN + length (chunk_of msg k)) (drop LG_HDR_LEN pdu) = [of_nat k, of_nat F] @ chunk_of msg k"
    by auto
  from received_step [OF assms(1) Suc.prems(1,2)] obtain h where h:
    "reassemble_body ty LG_FRAG_CAP ([of_nat k, of_nat F] @ chunk_of msg k) (c_hs r) = (Suc k = F, h)"
    "if Suc k = F then complete msg h else received ty msg (Suc k) h" by blast
  have re: "reassemble i pdu (LG_HDR_LEN + LG_FRAG_HDR_LEN + length (chunk_of msg k)) r = (Suc k = F, r\<lparr>c_hs := h\<rparr>)"
    using reassemble_plain [of pdu _ i r] b(2,4) h(1) ty by (simp add: lg_frame_type_def)
  have up: "[k..<F] = k # [Suc k..<F]" using Suc.prems(1) by (rule upt_conv_Cons)
  show ?case
  proof (cases "Suc k = F")
    case True
    then show ?thesis using b(1) re h(2) by (simp add: up)
  next
    case False
    have "\<exists>r'. feed i (fragments j (map of_nat [Suc k..<F]) s1) (r\<lparr>c_hs := h\<rparr>) = (replicate (F - Suc (Suc k)) False @ [True], r') \<and>
        complete msg (c_hs r')"
      by (rule Suc.hyps(1)) (use Suc False h(2) b(3) in simp_all)
    moreover have "F - Suc k = Suc (F - Suc (Suc k))" using False Suc.prems(1) by simp
    ultimately show ?thesis using b(1) re False by (auto simp: up)
  qed
qed simp

text \<open>C15: a handshake message of any length the buffer holds (up to 288 bytes), staged and sent in the clear as
  one to three frames, is put together at the receiver exactly as it was, whatever the receiver had
  collected before; and only the last frame completes it.\<close>

theorem fragments_reassemble:
  fixes s0 r :: ctx and ty :: u8 and msg :: "u8 list"
  assumes "0 < length msg" "length msg \<le> LG_XFER_MAX" "length (hs_tx (c_hs s0)) = LG_XFER_MAX"
    and "ty = LG_FT_JOIN_REQ \<or> ty = LG_FT_JOIN_RSP \<or> ty = LG_FT_RESUME_REQ"
  defines "s \<equiv> stage_message ty False (length msg) (hs_put msg s0)"
  defines "F \<equiv> unat (hs_frag_total (c_hs s))"
  shows "\<exists>r'. feed i (fragments j (map of_nat [0..<F]) s) r = (replicate (F - 1) False @ [True], r') \<and>
    xf_complete (hs_rx (c_hs r')) \<and> take (xf_len (hs_rx (c_hs r'))) (xf_buf (hs_rx (c_hs r'))) = msg"
proof -
  let ?F = "(length msg + LG_FRAG_CAP - 1) div LG_FRAG_CAP"
  have c: "cut (length msg) ?F"
  proof -
    have "0 < ?F" "?F \<le> 3" "(?F - 1) * LG_FRAG_CAP < length msg" "length msg \<le> ?F * LG_FRAG_CAP"
      using assms(1,2) by (simp_all, linarith+)
    then show ?thesis using assms(1,2) by (simp add: cut_def)
  qed
  have F: "hs_frag_total (c_hs s) = of_nat ?F" "F = ?F"
  proof -
    have "?F < 4" "0 < ?F" using c by (simp_all add: cut_def)
    then show t: "hs_frag_total (c_hs s) = of_nat ?F"
      using small_idx [of ?F] by (auto simp: s_def stage_message_def frag_cap_def Let_def hs_put_def upd_hs_def simp flip: unat_gt_0)
    show "F = ?F" using t small_idx [OF \<open>?F < 4\<close>] by (simp add: F_def)
  qed
  have ty: "\<not> has_flag ty LG_FCF_SEC" "ty AND LG_FCF_TYPE_MASK = ty" using assms(4) by (auto simp: ft_defs fcf_defs)
  have s: "\<not> hs_tx_secured (c_hs s)" "hs_tx_len (c_hs s) = length msg" "hs_tx_type (c_hs s) = ty"
    "take (length msg) (hs_tx (c_hs s)) = msg"
    using assms(2,3) by (simp_all add: s_def stage_message_def hs_put_def upd_hs_def Let_def blit_def)
  have start: "received ty msg 0 (c_hs r)" by (simp add: received_def)
  have pos: "0 < ?F" using c by (simp add: cut_def)
  obtain r' where r': "feed i (fragments j (map of_nat [0..<?F]) s) r = (replicate (?F - Suc 0) False @ [True], r')" "complete msg (c_hs r')"
    using feed_from [OF c pos start s(1) _ _ s(3) F(1) ty, of i j] s(2,4) by metis
  then show ?thesis unfolding F(2) complete_def One_nat_def by blast
qed

theorem fragments_reassemble_witness:
  "\<exists>r'. feed 0 (fragments 0 (map of_nat [0..<3]) (stage_message LG_FT_JOIN_RSP False 276 (hs_put (replicate 276 7) demo_node))) demo_node =
      ([False, False, True], r') \<and> take (xf_len (hs_rx (c_hs r'))) (xf_buf (hs_rx (c_hs r'))) = replicate 276 7"
proof -
  have h: "length (hs_tx (c_hs demo_node)) = LG_XFER_MAX" by (simp add: demo_node_def node_zero_def hs_zero_def)
  have F: "unat (hs_frag_total (c_hs (stage_message LG_FT_JOIN_RSP False (length (replicate 276 (7 :: u8))) (hs_put (replicate 276 7) demo_node)))) = 3"
    by (simp add: stage_message_def hs_put_def upd_hs_def frag_cap_def Let_def)
  from fragments_reassemble [of "replicate 276 7" demo_node LG_FT_JOIN_RSP 0 0 demo_node, unfolded F] h show ?thesis
    by (auto simp: numeral_2_eq_2)
qed

end
