(* ===== verification/LG_Sched.thy ===== *)
theory LG_Sched
  imports LG_Join
begin

text \<open>
  The single-event scheduler (\<open>lg_sched.c\<close>): gathering candidates, choosing one, planning its event,
  asking the arbiter for the radio, dispatching what the arbiter and the radio report, and settling
  the finished event. An event's \<open>ops\<close> table is determined by its kind, so it is not a field. Where a
  link may have to catch up with the clock the result is in \<open>option\<close>.
\<close>

abbreviation (input) LG_SCHED_MIN_HORIZON_US :: u64 where "LG_SCHED_MIN_HORIZON_US \<equiv> 400"
abbreviation (input) LG_BEACON_LEN_US :: u32 where "LG_BEACON_LEN_US \<equiv> 6000"
abbreviation (input) LG_CHAN_EVAL_LEN_US :: u32 where "LG_CHAN_EVAL_LEN_US \<equiv> 1500"
abbreviation (input) LG_SCHED_CONTEND_US :: u64 where "LG_SCHED_CONTEND_US \<equiv> 45000"
abbreviation (input) LG_JOIN_SLOT_LEN_US :: u32 where "LG_JOIN_SLOT_LEN_US \<equiv> 20000"
abbreviation (input) LG_JOIN_WINDOW_LEN_US :: u32 where "LG_JOIN_WINDOW_LEN_US \<equiv> 40000"

section \<open>Candidates\<close>

text \<open>The priority classes, in the order of their values.\<close>

datatype prio = LG_PRIO_SCAN | LG_PRIO_NORMAL | LG_PRIO_PARENT | LG_PRIO_HANDSHAKE

definition prio_val :: "prio \<Rightarrow> nat" where
  "prio_val p = (case p of LG_PRIO_SCAN \<Rightarrow> 0 | LG_PRIO_NORMAL \<Rightarrow> 1 | LG_PRIO_PARENT \<Rightarrow> 2 | LG_PRIO_HANDSHAKE \<Rightarrow> 3)"

lemma prio_val_inj: "prio_val p = prio_val q \<longleftrightarrow> p = q"
  by (cases p; cases q) (simp_all add: prio_val_def)

instantiation prio :: linorder
begin

definition less_eq_prio :: "prio \<Rightarrow> prio \<Rightarrow> bool" where "p \<le> q \<longleftrightarrow> prio_val p \<le> prio_val q"
definition less_prio :: "prio \<Rightarrow> prio \<Rightarrow> bool" where "p < q \<longleftrightarrow> prio_val p < prio_val q"

instance
  by standard (auto simp: less_eq_prio_def less_prio_def prio_val_inj)

end

record candidate =
  cd_kind :: ev_kind
  cd_anchor_us :: u64
  cd_neigh :: "nat option"
  cd_prio :: prio

definition add_candidate :: "ctx \<Rightarrow> ev_kind \<Rightarrow> u64 \<Rightarrow> nat option \<Rightarrow> prio \<Rightarrow> candidate list \<Rightarrow> candidate list" where
  "add_candidate s kind at_us n prio cs =
    (if at_us = UINT64_MAX \<or> cfg_max_neighbors (c_cfg s) + 5 \<le> length cs then cs
     else cs @ [\<lparr>cd_kind = kind, cd_anchor_us = at_us, cd_neigh = n, cd_prio = prio\<rparr>])"

text \<open>The first loop keeps the earliest; the second lets a contender with a better claim take over.\<close>

definition earliest_step :: "candidate option \<Rightarrow> candidate \<Rightarrow> candidate option" where
  "earliest_step best c =
    (case best of None \<Rightarrow> Some c | Some b \<Rightarrow> if cd_anchor_us c < cd_anchor_us b then Some c else best)"

definition contend_step :: "candidate \<Rightarrow> candidate \<Rightarrow> candidate" where
  "contend_step best c =
    (if cd_anchor_us best + LG_SCHED_CONTEND_US < cd_anchor_us c then best
     else if cd_prio best < cd_prio c \<or> cd_prio c = cd_prio best \<and> cd_anchor_us c < cd_anchor_us best then c
     else best)"

definition select_candidate :: "candidate list \<Rightarrow> candidate option" where
  "select_candidate cs =
    (case foldl earliest_step None cs of None \<Rightarrow> None | Some b \<Rightarrow> Some (foldl contend_step b cs))"

section \<open>The plan of an event\<close>

text \<open>\<open>event_plan\<close>: the state changes with the channel walk and the window it works out.\<close>

definition event_plan :: "candidate \<Rightarrow> ctx \<Rightarrow> ctx" where
  "event_plan c s =
    (let ev0 = event_zero\<lparr>ev_kind := cd_kind c, ev_anchor_us := cd_anchor_us c, ev_neigh := cd_neigh c\<rparr>;
         a = cd_anchor_us c; lead = ucast LG_SCHED_LEAD_US :: u64; rdv0 = lg_disc_rdv_chan 0 s
     in case cd_kind c of
          LG_EV_LINK \<Rightarrow>
            (case cd_neigh c of
               None \<Rightarrow> s
             | Some i \<Rightarrow>
                 let (win, s1) = lg_link_window_us i s; n = nb s1 i
                 in s1\<lparr>c_ev := ev0\<lparr>ev_chan := lg_link_next_chan i s1, ev_window_us := win,
                      ev_len_us := lg_frame_event_budget_us (win * 2),
                      ev_at_us := (if n_initiator n then a - lead else a - ucast win - lead),
                      ev_urgent := n_is_parent n\<rparr>\<rparr>)
        | LG_EV_BEACON \<Rightarrow> s\<lparr>c_ev := ev0\<lparr>ev_chan := rdv0, ev_len_us := LG_BEACON_LEN_US, ev_at_us := a - lead\<rparr>\<rparr>
        | LG_EV_TRACK \<Rightarrow> s\<lparr>c_ev := ev0\<lparr>ev_chan := rdv0, ev_close_us := a + LG_TRACK_MARGIN_US,
              ev_len_us := 2 * 1500 + LG_SCHED_LEAD_US + 2000, ev_at_us := a - LG_TRACK_MARGIN_US - lead\<rparr>\<rparr>
        | LG_EV_SCAN \<Rightarrow>
            let w = tn_scan_window_us (c_tune s)
            in s\<lparr>c_ev := ev0\<lparr>ev_chan := lg_disc_rdv_chan (unat (c_scan_chan_idx s)) s, ev_close_us := a + ucast w,
                 ev_len_us := w + LG_SCHED_LEAD_US + 1000, ev_at_us := a - lead\<rparr>\<rparr>
        | LG_EV_JOIN_TX \<Rightarrow> s\<lparr>c_ev := ev0\<lparr>ev_chan := rdv0, ev_len_us := LG_JOIN_SLOT_LEN_US, ev_at_us := a - lead\<rparr>\<rparr>
        | LG_EV_JOIN_RX \<Rightarrow>
            let span = (if cd_neigh c \<noteq> None then LG_JOIN_SLOT_LEN_US else LG_JOIN_WINDOW_LEN_US)
            in s\<lparr>c_ev := ev0\<lparr>ev_chan := rdv0, ev_close_us := a + ucast span,
                 ev_len_us := span + LG_SCHED_LEAD_US + 2000, ev_at_us := a - lead - 2000\<rparr>\<rparr>
        | LG_EV_CHAN_EVAL \<Rightarrow>
            let (chan, s1) = lg_chan_next_eval s
            in s1\<lparr>c_ev := ev0\<lparr>ev_chan := chan, ev_len_us := LG_CHAN_EVAL_LEN_US, ev_at_us := a - lead\<rparr>\<rparr>
        | LG_EV_NONE \<Rightarrow> s\<lparr>c_ev := ev0\<rparr>)"

section \<open>Choosing the next event\<close>

text \<open>One neighbour's candidate: its next link event, or its handshake slot.\<close>

definition neigh_candidate :: "nat \<Rightarrow> candidate list \<times> ctx \<Rightarrow> (candidate list \<times> ctx) option" where
  "neigh_candidate i acc =
    (case acc of (cs, s) \<Rightarrow>
       case n_state (nb s i) of
         LG_NS_LINKED \<Rightarrow>
           (case lg_link_next_event_us i s of
              None \<Rightarrow> None
            | Some (at_us, t) \<Rightarrow>
                Some (add_candidate t LG_EV_LINK at_us (Some i)
                        (if n_is_parent (nb t i) then LG_PRIO_PARENT else LG_PRIO_NORMAL) cs, t))
       | LG_NS_JOINING \<Rightarrow>
           Some (add_candidate s (if lg_join_slot_is_tx s then LG_EV_JOIN_TX else LG_EV_JOIN_RX)
                   (lg_join_next_us i s) (Some i) LG_PRIO_HANDSHAKE cs, s)
       | _ \<Rightarrow> Some (cs, s))"

fun neigh_candidates :: "nat list \<Rightarrow> candidate list \<times> ctx \<Rightarrow> (candidate list \<times> ctx) option" where
  "neigh_candidates [] acc = Some acc"
| "neigh_candidates (i # is) acc =
     (case neigh_candidate i acc of None \<Rightarrow> None | Some acc' \<Rightarrow> neigh_candidates is acc')"

definition own_candidates :: "candidate list \<Rightarrow> ctx \<Rightarrow> candidate list \<times> ctx" where
  "own_candidates cs s =
    (let cs1 = add_candidate s LG_EV_JOIN_RX (lg_join_win_next_us s) None LG_PRIO_NORMAL cs;
         cs2 = add_candidate s LG_EV_BEACON (lg_disc_next_beacon_us s) None LG_PRIO_NORMAL cs1;
         cs3 = add_candidate s LG_EV_SCAN (lg_disc_next_scan_us s) None LG_PRIO_SCAN cs2;
         cs4 = add_candidate s LG_EV_CHAN_EVAL (c_next_chan_eval_us s) None LG_PRIO_SCAN cs3
     in case lg_disc_next_track_us s of
          (at_us, tracked, t) \<Rightarrow> (add_candidate t LG_EV_TRACK at_us tracked LG_PRIO_NORMAL cs4, t))"

definition resubmit :: "ctx \<Rightarrow> ctx" where
  "resubmit s = s\<lparr>c_work_sched := True\<rparr>"

text \<open>The occurrence that is already too late is dropped, each kind in its own way.\<close>

definition drop_late :: "candidate \<Rightarrow> ctx \<Rightarrow> ctx option" where
  "drop_late c s =
    (case cd_kind c of
       LG_EV_LINK \<Rightarrow> Some (case cd_neigh c of
           None \<Rightarrow> s
         | Some i \<Rightarrow> upd_stats (\<lambda>st. st\<lparr>st_link_events_skipped := st_link_events_skipped st + 1\<rparr>) (lg_link_advance i s))
     | LG_EV_BEACON \<Rightarrow> Some (lg_disc_beacon_finish s)
     | LG_EV_SCAN \<Rightarrow> Some (lg_disc_scan_finish s)
     | LG_EV_TRACK \<Rightarrow> Some (lg_disc_track_result (cd_neigh c) False s)
     | LG_EV_CHAN_EVAL \<Rightarrow> Some (s\<lparr>c_next_chan_eval_us := c_now s + cfg_chan_eval_period_ms (c_cfg s) * 1000\<rparr>)
     | _ \<Rightarrow> lg_join_event_finish s)"

text \<open>A link whose frame is not staged yet gets it staged; if that fails its event is skipped.\<close>

definition stage_for :: "candidate \<Rightarrow> ctx \<Rightarrow> bool \<times> ctx" where
  "stage_for c s =
    (case (cd_kind c, cd_neigh c) of
       (LG_EV_LINK, Some i) \<Rightarrow>
         if n_tx_pending (nb s i) then (True, s)
         else (case lg_link_stage_tx i s of
                 (True, t) \<Rightarrow> (True, t)
               | (False, t) \<Rightarrow> (False, resubmit (lg_link_advance i t)))
     | _ \<Rightarrow> (True, s))"

definition set_ev_none :: "ctx \<Rightarrow> ctx" where
  "set_ev_none s = s\<lparr>c_ev := (c_ev s)\<lparr>ev_kind := LG_EV_NONE\<rparr>\<rparr>"

definition run_candidate :: "candidate \<Rightarrow> ctx \<Rightarrow> ctx option" where
  "run_candidate c s =
    (let s1 = event_plan c s; ev = c_ev s1
     in if ev_at_us ev < c_now s1 + LG_SCHED_MIN_HORIZON_US
        then (case drop_late c (set_ev_none s1) of None \<Rightarrow> None | Some s2 \<Rightarrow> Some (resubmit s2))
        else case lg_ts_request (ev_at_us ev) (ev_len_us ev) s1 of
               (Inr _, s2) \<Rightarrow> Some s2
             | (Inl _, s2) \<Rightarrow> Some (resubmit (set_ev_none s2)))"

text \<open>The slot is taken while an event has been requested or is running.\<close>

definition slot_taken :: "ctx \<Rightarrow> bool" where
  "slot_taken s \<longleftrightarrow> \<not> c_running s \<or> ev_kind (c_ev s) \<noteq> LG_EV_NONE \<or> lg_ts_granted s \<or> c_phy_busy s"

definition sched_pick :: "ctx \<Rightarrow> ctx option" where
  "sched_pick s =
    (if slot_taken s then Some s
     else case neigh_candidates [0..<length (c_neigh s)] ([], s) of
       None \<Rightarrow> None
     | Some (cs0, s1) \<Rightarrow>
         case own_candidates cs0 s1 of (cs, s2) \<Rightarrow>
           case select_candidate cs of
             None \<Rightarrow> Some (s2\<lparr>c_idle_armed := True\<rparr>)
           | Some c \<Rightarrow>
               (case stage_for c s2 of
                  (False, s3) \<Rightarrow> Some s3
                | (True, s3) \<Rightarrow> run_candidate c s3))"

definition sched_idle :: "ctx \<Rightarrow> ctx option" where
  "sched_idle s = sched_pick s"

section \<open>Settling a finished event\<close>

text \<open>Every link we initiate that has nothing pending is told about the new channel map.\<close>

definition announce_map :: "u16 \<Rightarrow> neigh \<Rightarrow> neigh" where
  "announce_map chan_map n =
    (if n_state n = LG_NS_LINKED \<and> n_initiator n \<and> n_pending_ctrl n = 0
     then n\<lparr>n_pending_chan_map := chan_map, n_instant := n_counter n + 6, n_ctrl_acked := False,
            n_pending_ctrl := n_pending_ctrl n OR BIT 0\<rparr>
     else n)"

definition chan_eval_finish :: "ctx \<Rightarrow> ctx" where
  "chan_eval_finish s =
    (let (changed, s1) = lg_chan_reevaluate s;
         s2 = (if changed then s1\<lparr>c_neigh := map (announce_map (c_chan_map s1)) (c_neigh s1)\<rparr> else s1)
     in s2\<lparr>c_next_chan_eval_us := c_now s2 + cfg_chan_eval_period_ms (c_cfg s2) * 1000\<rparr>)"

definition finish_event :: "ctx \<Rightarrow> ctx option" where
  "finish_event s =
    (case c_finish_kind s of
       LG_EV_LINK \<Rightarrow> Some (case c_finish_neigh s of None \<Rightarrow> s | Some i \<Rightarrow> lg_link_event_finish i s)
     | LG_EV_BEACON \<Rightarrow> Some (lg_role_evaluate (lg_disc_beacon_finish s))
     | LG_EV_SCAN \<Rightarrow> Some (lg_role_evaluate (lg_disc_scan_finish s))
     | LG_EV_JOIN_TX \<Rightarrow> lg_join_event_finish s
     | LG_EV_JOIN_RX \<Rightarrow> lg_join_event_finish s
     | LG_EV_CHAN_EVAL \<Rightarrow> Some (chan_eval_finish s)
     | _ \<Rightarrow> Some s)"

definition sched_finish :: "ctx \<Rightarrow> ctx option" where
  "sched_finish s =
    (case finish_event s of
       None \<Rightarrow> None
     | Some t \<Rightarrow> sched_pick (t\<lparr>c_finish_kind := LG_EV_NONE, c_finish_neigh := None\<rparr>))"

section \<open>What the arbiter and the radio report\<close>

text \<open>One energy measurement; \<open>noise\<close> is what the driver reads on a channel.\<close>

definition chan_eval_start :: "(u8 \<Rightarrow> int) \<Rightarrow> ctx \<Rightarrow> ctx" where
  "chan_eval_start noise s =
    (let s1 = lg_power_activity LG_PWR_ACT_CHAN_EVAL s; chan = ev_chan (c_ev s1); dbm = noise chan
     in lg_sched_event_done (if dbm \<noteq> INT8_MIN then lg_chan_noise chan dbm s1 else s1))"

definition chan_eval_aborted :: "ctx \<Rightarrow> ctx" where
  "chan_eval_aborted s = s"

text \<open>The \<open>start\<close> entry of the event's table.\<close>

definition ev_start :: "(u8 \<Rightarrow> int) \<Rightarrow> ctx \<Rightarrow> ctx" where
  "ev_start noise s =
    (case ev_kind (c_ev s) of
       LG_EV_LINK \<Rightarrow> link_start s
     | LG_EV_BEACON \<Rightarrow> beacon_start s
     | LG_EV_SCAN \<Rightarrow> scan_start s
     | LG_EV_TRACK \<Rightarrow> track_start s
     | LG_EV_JOIN_TX \<Rightarrow> join_tx_start s
     | LG_EV_JOIN_RX \<Rightarrow> join_rx_start s
     | LG_EV_CHAN_EVAL \<Rightarrow> chan_eval_start noise s
     | LG_EV_NONE \<Rightarrow> s)"

definition ev_aborted :: "ctx \<Rightarrow> ctx" where
  "ev_aborted s =
    (case ev_kind (c_ev s) of
       LG_EV_LINK \<Rightarrow> link_aborted s
     | LG_EV_BEACON \<Rightarrow> beacon_aborted s
     | LG_EV_SCAN \<Rightarrow> scan_aborted s
     | LG_EV_TRACK \<Rightarrow> track_aborted s
     | LG_EV_JOIN_TX \<Rightarrow> join_aborted s
     | LG_EV_JOIN_RX \<Rightarrow> join_aborted s
     | LG_EV_CHAN_EVAL \<Rightarrow> chan_eval_aborted s
     | LG_EV_NONE \<Rightarrow> s)"

definition ts_granted :: "(u8 \<Rightarrow> int) \<Rightarrow> ctx \<Rightarrow> ctx" where
  "ts_granted noise s = (if ev_kind (c_ev s) = LG_EV_NONE then lg_ts_release s else ev_start noise s)"

definition ts_failed :: "ctx \<Rightarrow> ctx" where
  "ts_failed s =
    (let s1 = upd_stats (\<lambda>st. st\<lparr>st_slots_blocked := st_slots_blocked st + 1\<rparr>) s
     in if ev_kind (c_ev s1) = LG_EV_NONE then s1 else lg_sched_event_done (ev_aborted s1))"

text \<open>A kind without an entry for the report just ends its event.\<close>

definition phy_tx_done :: "u64 \<Rightarrow> ctx \<Rightarrow> ctx" where
  "phy_tx_done air_end_us s =
    (case ev_kind (c_ev s) of
       LG_EV_LINK \<Rightarrow> link_tx_done air_end_us s
     | LG_EV_BEACON \<Rightarrow> beacon_tx_done air_end_us s
     | LG_EV_JOIN_TX \<Rightarrow> join_tx_done air_end_us s
     | _ \<Rightarrow> lg_sched_event_done s)"

definition phy_rx_done :: "phy_rx \<Rightarrow> ctx \<Rightarrow> ctx" where
  "phy_rx_done rx s =
    (case ev_kind (c_ev s) of
       LG_EV_LINK \<Rightarrow> link_rx_done rx s
     | LG_EV_SCAN \<Rightarrow> scan_rx_done rx s
     | LG_EV_TRACK \<Rightarrow> track_rx_done rx s
     | LG_EV_JOIN_RX \<Rightarrow> join_rx_done rx s
     | _ \<Rightarrow> lg_sched_event_done s)"

definition phy_rx_failed :: "phy_rx_fail \<Rightarrow> ctx \<Rightarrow> ctx" where
  "phy_rx_failed reason s =
    (case ev_kind (c_ev s) of
       LG_EV_LINK \<Rightarrow> link_rx_fail reason s
     | LG_EV_BEACON \<Rightarrow> beacon_rx_fail reason s
     | LG_EV_SCAN \<Rightarrow> scan_rx_fail reason s
     | LG_EV_TRACK \<Rightarrow> track_rx_fail reason s
     | LG_EV_JOIN_RX \<Rightarrow> join_rx_fail reason s
     | _ \<Rightarrow> lg_sched_event_done s)"

section \<open>Lifecycle\<close>

text \<open>\<open>phy\<close> is the driver's result, the flags the timer channels the arbiter gets.\<close>

definition lg_sched_init :: "errno option \<Rightarrow> bool \<Rightarrow> bool \<Rightarrow> ctx \<Rightarrow> (errno + unit) \<times> ctx" where
  "lg_sched_init phy grant_chan fine_chan s =
    (case phy of
       Some e \<Rightarrow> (Inl e, s)
     | None \<Rightarrow>
         (case lg_ts_init grant_chan fine_chan s of
            (Inl e, s1) \<Rightarrow> (Inl e, s1)
          | (Inr _, s1) \<Rightarrow> (Inr (), (set_ev_none s1)\<lparr>c_running := True\<rparr>)))"

definition lg_sched_stop :: "ctx \<Rightarrow> ctx" where
  "lg_sched_stop s =
    set_ev_none (lg_ts_uninit (lg_ts_release (lg_phy_stop (s\<lparr>c_running := False, c_idle_armed := False\<rparr>))))"

section \<open>The choice\<close>

lemma earliest_step_fold:
  "foldl earliest_step (Some b) cs = Some e \<Longrightarrow>
     e \<in> insert b (set cs) \<and> (\<forall>c\<in>insert b (set cs). cd_anchor_us e \<le> cd_anchor_us c)"
proof (induction cs arbitrary: b)
  case (Cons c cs)
  from Cons.IH [of "if cd_anchor_us c < cd_anchor_us b then c else b"] Cons.prems
  show ?case by (auto simp: earliest_step_def split: if_splits)
qed simp

lemma earliest_some: "\<exists>e. foldl earliest_step (Some b) cs = Some e"
  by (induction cs arbitrary: b) (auto simp: earliest_step_def)

lemma earliest_first:
  assumes "foldl earliest_step None cs = Some e"
  shows "e \<in> set cs \<and> (\<forall>c\<in>set cs. cd_anchor_us e \<le> cd_anchor_us c)"
  using assms by (cases cs) (auto simp: earliest_step_def dest!: earliest_step_fold)

text \<open>Anchors as numbers, so that the 45 ms can be added to them without wrapping.\<close>

definition anchor_of :: "candidate \<Rightarrow> nat" where
  "anchor_of c = unat (cd_anchor_us c)"

definition far_off :: "candidate \<Rightarrow> bool" where
  "far_off c \<longleftrightarrow> 9223372036854775808 \<le> cd_anchor_us c"

text \<open>A better claim: a higher class, or the same class and no later.\<close>

definition beats :: "candidate \<Rightarrow> candidate \<Rightarrow> bool" where
  "beats b c \<longleftrightarrow> cd_prio c < cd_prio b \<or> cd_prio c = cd_prio b \<and> anchor_of b \<le> anchor_of c"

lemma beats_refl [simp]: "beats b b"
  by (simp add: beats_def)

lemma beats_trans: "beats a b \<Longrightarrow> beats b c \<Longrightarrow> beats a c"
  by (auto simp: beats_def)

lemma contend_step_nat:
  assumes "\<not> far_off b"
  shows "contend_step b c = (if anchor_of b + 45000 < anchor_of c \<or> beats b c then b else c)"
proof -
  have "unat (cd_anchor_us b + 45000) = anchor_of b + 45000"
    using assms by (simp add: far_off_def anchor_of_def unat_word_ariths word_le_nat_alt)
  then show ?thesis
    by (auto simp: contend_step_def beats_def anchor_of_def word_less_nat_alt not_less not_le)
qed

text \<open>What the second loop keeps, seen from the earliest candidate \<open>e\<close>: every step up in class allows at
  most 45 ms more.\<close>

definition within :: "candidate \<Rightarrow> candidate \<Rightarrow> bool" where
  "within e b \<longleftrightarrow> beats b e \<and> anchor_of e \<le> anchor_of b \<and>
     anchor_of b \<le> anchor_of e + 45000 * (prio_val (cd_prio b) - prio_val (cd_prio e))"

lemma contend_step_within:
  assumes "within e b" "anchor_of e \<le> anchor_of c" "\<not> far_off b"
  shows "within e (contend_step b c) \<and> beats (contend_step b c) b \<and>
    (anchor_of c \<le> anchor_of e + 45000 \<longrightarrow> beats (contend_step b c) c)"
proof (cases "anchor_of b + 45000 < anchor_of c \<or> beats b c")
  case True
  then show ?thesis using assms by (auto simp: contend_step_nat within_def)
next
  case False
  then have c: "contend_step b c = c" "beats c b" "anchor_of c \<le> anchor_of b + 45000"
    "cd_prio b < cd_prio c \<or> cd_prio b = cd_prio c \<and> anchor_of c < anchor_of b"
    using assms(3) by (auto simp: contend_step_nat beats_def)
  have "prio_val (cd_prio e) \<le> prio_val (cd_prio b)"
    using assms(1) by (auto simp: within_def beats_def less_prio_def)
  with c assms(1,2) show ?thesis
    by (auto simp: within_def less_prio_def intro: beats_trans)
qed

lemma contend_fold:
  assumes "within e b" "\<forall>c\<in>set cs. anchor_of e \<le> anchor_of c \<and> \<not> far_off c" "\<not> far_off b"
  shows "within e (foldl contend_step b cs) \<and> beats (foldl contend_step b cs) b \<and>
    foldl contend_step b cs \<in> insert b (set cs) \<and>
    (\<forall>c\<in>set cs. anchor_of c \<le> anchor_of e + 45000 \<longrightarrow> beats (foldl contend_step b cs) c)"
  using assms
proof (induction cs arbitrary: b)
  case (Cons c cs)
  let ?b = "contend_step b c"
  have b: "?b \<in> {b, c}" using Cons.prems by (simp add: contend_step_nat)
  note step = contend_step_within [OF Cons.prems(1) _ Cons.prems(3), of c]
  have "\<not> far_off ?b" using b Cons.prems by auto
  with Cons.IH [of ?b] step Cons.prems(2)
  have ih: "within e (foldl contend_step ?b cs)" "beats (foldl contend_step ?b cs) ?b"
    "foldl contend_step ?b cs \<in> insert ?b (set cs)"
    "\<forall>d\<in>set cs. anchor_of d \<le> anchor_of e + 45000 \<longrightarrow> beats (foldl contend_step ?b cs) d" by auto
  then show ?case using step Cons.prems(2) b by (auto intro: beats_trans)
qed simp

text \<open>C6: the scheduler picks a candidate whenever there is one. It is at least as good (a higher class, or
  the same class and no later) as every candidate that starts within the contention window of 45 ms
  after the earliest one, so an occurrence is displaced only by a better claim; and it starts at most 45
  ms after the earliest for each class it is above it, 135 ms at the very most. (The window is measured
  from the best candidate so far, so a chain of claims can go beyond a single window.)\<close>

theorem select_candidate_best:
  assumes "\<forall>c\<in>set cs. \<not> far_off c" "cs \<noteq> []"
  shows "\<exists>b e. select_candidate cs = Some b \<and> b \<in> set cs \<and> e \<in> set cs \<and> (\<forall>c\<in>set cs. anchor_of e \<le> anchor_of c) \<and>
    (\<forall>c\<in>set cs. anchor_of c \<le> anchor_of e + 45000 \<longrightarrow> beats b c) \<and>
    anchor_of b \<le> anchor_of e + 45000 * (prio_val (cd_prio b) - prio_val (cd_prio e)) \<and>
    anchor_of b \<le> anchor_of e + 135000"
proof -
  obtain e where e: "foldl earliest_step None cs = Some e"
    using assms(2) earliest_some by (cases cs) (auto simp: earliest_step_def)
  then have e': "e \<in> set cs" "\<forall>c\<in>set cs. anchor_of e \<le> anchor_of c"
    using earliest_first [OF e] by (auto simp: anchor_of_def word_le_nat_alt)
  let ?b = "foldl contend_step e cs"
  have "within e e" by (simp add: within_def)
  from contend_fold [OF this, of cs] e' assms(1)
  have b: "within e ?b" "?b \<in> set cs" "\<forall>c\<in>set cs. anchor_of c \<le> anchor_of e + 45000 \<longrightarrow> beats ?b c" by auto
  have "prio_val (cd_prio ?b) \<le> 3" by (simp add: prio_val_def split: prio.split)
  then have "45000 * (prio_val (cd_prio ?b) - prio_val (cd_prio e)) \<le> 135000" by simp
  moreover have "anchor_of ?b \<le> anchor_of e + 45000 * (prio_val (cd_prio ?b) - prio_val (cd_prio e))"
    using b(1) by (simp add: within_def)
  ultimately show ?thesis using e e' b(2,3) unfolding select_candidate_def by auto
qed

definition demo_cands :: "candidate list" where
  "demo_cands =
     [\<lparr>cd_kind = LG_EV_SCAN, cd_anchor_us = 10000, cd_neigh = None, cd_prio = LG_PRIO_SCAN\<rparr>,
      \<lparr>cd_kind = LG_EV_LINK, cd_anchor_us = 50000, cd_neigh = Some 1, cd_prio = LG_PRIO_NORMAL\<rparr>,
      \<lparr>cd_kind = LG_EV_LINK, cd_anchor_us = 90000, cd_neigh = Some 2, cd_prio = LG_PRIO_PARENT\<rparr>,
      \<lparr>cd_kind = LG_EV_JOIN_RX, cd_anchor_us = 130000, cd_neigh = Some 3, cd_prio = LG_PRIO_HANDSHAKE\<rparr>]"

theorem select_candidate_best_witness:
  "\<exists>b. select_candidate demo_cands = Some b \<and> beats b (demo_cands ! 0) \<and> cd_anchor_us b = 130000"
proof -
  have h: "\<forall>c\<in>set demo_cands. \<not> far_off c" "demo_cands \<noteq> []" by (simp_all add: demo_cands_def far_off_def)
  have s: "select_candidate demo_cands = Some (demo_cands ! 3)" by code_simp
  from select_candidate_best [OF h] obtain b e where
    "select_candidate demo_cands = Some b" "e \<in> set demo_cands" "\<forall>c\<in>set demo_cands. anchor_of e \<le> anchor_of c"
    "\<forall>c\<in>set demo_cands. anchor_of c \<le> anchor_of e + 45000 \<longrightarrow> beats b c" by blast
  with s show ?thesis by (auto simp: demo_cands_def anchor_of_def)
qed

section \<open>The scheduler always comes back\<close>

lemma contend_member: "foldl contend_step b cs \<in> insert b (set cs)"
  by (induction cs arbitrary: b) (auto simp: contend_step_def split: if_splits)

lemma select_member:
  assumes "select_candidate cs = Some c"
  shows "c \<in> set cs"
proof -
  obtain e where e: "foldl earliest_step None cs = Some e" "c = foldl contend_step e cs"
    using assms by (auto simp: select_candidate_def split: option.splits)
  then show ?thesis using earliest_first [OF e(1)] contend_member [of e cs] by auto
qed

text \<open>A candidate is never of the empty kind, and a link's candidate names its neighbour.\<close>

definition proper :: "candidate \<Rightarrow> bool" where
  "proper c \<longleftrightarrow> cd_kind c \<noteq> LG_EV_NONE \<and> (cd_kind c = LG_EV_LINK \<longrightarrow> cd_neigh c \<noteq> None)"

lemma add_candidate_proper:
  assumes "list_all proper cs" "k \<noteq> LG_EV_NONE" "k = LG_EV_LINK \<longrightarrow> n \<noteq> None"
  shows "list_all proper (add_candidate s k a n p cs)"
  using assms by (auto simp: add_candidate_def proper_def)

lemma neigh_candidate_proper:
  assumes "neigh_candidate i (cs, s) = Some (cs', s')" "list_all proper cs"
  shows "list_all proper cs'"
  using assms by (auto simp: neigh_candidate_def add_candidate_proper split: neigh_state.splits option.splits prod.splits)

lemma neigh_candidates_proper:
  "neigh_candidates is (cs, s) = Some (cs', s') \<Longrightarrow> list_all proper cs \<Longrightarrow> list_all proper cs'"
proof (induction "is" arbitrary: cs s)
  case (Cons i "is")
  then obtain cs1 s1 where 1: "neigh_candidate i (cs, s) = Some (cs1, s1)" "neigh_candidates is (cs1, s1) = Some (cs', s')"
    by (auto split: option.splits)
  show ?case by (rule Cons.IH [OF 1(2) neigh_candidate_proper [OF 1(1) Cons.prems(2)]])
qed simp

lemma own_candidates_proper:
  assumes "own_candidates cs s = (cs', s')" "list_all proper cs"
  shows "list_all proper cs'"
  using assms by (auto simp: own_candidates_def add_candidate_proper Let_def split: prod.splits)

lemma event_plan_kind: "proper c \<Longrightarrow> ev_kind (c_ev (event_plan c s)) = cd_kind c"
  by (auto simp: event_plan_def proper_def Let_def split: ev_kind.splits option.splits prod.splits)

text \<open>An event has been asked for, in time and for no longer than the arbiter grants.\<close>

definition event_requested :: "ctx \<Rightarrow> bool" where
  "event_requested t \<longleftrightarrow> ev_kind (c_ev t) \<noteq> LG_EV_NONE \<and> ts_req_pending (c_ts t) \<and>
     ts_req_at_us (c_ts t) = ev_at_us (c_ev t) \<and> c_now t + LG_SCHED_MIN_HORIZON_US \<le> ev_at_us (c_ev t) \<and>
     ts_req_len_us (c_ts t) = min (ev_len_us (c_ev t)) LG_TS_MAX_GRANT_US"

lemma ts_request_effect:
  assumes "lg_ts_request at_us len_us s = (Inr (), t)"
  shows "c_ev t = c_ev s \<and> c_now t = c_now s \<and> ts_req_pending (c_ts t) \<and> ts_req_at_us (c_ts t) = at_us \<and>
    ts_req_len_us (c_ts t) = min len_us LG_TS_MAX_GRANT_US"
  using assms
  by (auto simp: lg_ts_request_def refuse_request_def sys_rand32_get_def upd_ts_def Let_def split: if_splits prod.splits)

lemma run_candidate_effect:
  assumes "run_candidate c s = Some t" "proper c"
  shows "c_work_sched t \<or> event_requested t"
proof -
  let ?s = "event_plan c s"
  show ?thesis
  proof (cases "ev_at_us (c_ev ?s) < c_now ?s + LG_SCHED_MIN_HORIZON_US")
    case True
    then show ?thesis using assms(1) by (auto simp: run_candidate_def Let_def resubmit_def split: option.splits)
  next
    case False
    obtain r u where req: "lg_ts_request (ev_at_us (c_ev ?s)) (ev_len_us (c_ev ?s)) ?s = (r, u)" by (rule prod.exhaust)
    show ?thesis
    proof (cases r)
      case (Inl e)
      then show ?thesis using assms(1) False req by (auto simp: run_candidate_def Let_def resubmit_def)
    next
      case (Inr x)
      then have "t = u" using assms(1) False req by (simp add: run_candidate_def Let_def)
      have "lg_ts_request (ev_at_us (c_ev ?s)) (ev_len_us (c_ev ?s)) ?s = (Inr (), u)" using req Inr by simp
      from ts_request_effect [OF this] have "event_requested t"
        using False event_plan_kind [OF assms(2), of s] assms(2) \<open>t = u\<close> by (simp add: event_requested_def proper_def not_less)
      then show ?thesis ..
    qed
  qed
qed

text \<open>Whenever the scheduler runs and the radio is free it either has an event pending with the arbiter
  - planned at least 400 us ahead, for the time the plan asks for - or has put itself back on the work
  queue, or has armed the idle poll: a node that is running never sits without a next step, whatever
  was too late, could not be staged or was turned down.\<close>

theorem scheduler_never_stalls:
  assumes "\<not> slot_taken s" "sched_pick (s\<lparr>c_work_sched := False, c_idle_armed := False\<rparr>) = Some t"
  shows "c_work_sched t \<or> c_idle_armed t \<or> event_requested t"
proof -
  define u where "u = s\<lparr>c_work_sched := False, c_idle_armed := False\<rparr>"
  have free: "\<not> slot_taken u" using assms(1) by (simp add: u_def slot_taken_def lg_ts_granted_def)
  then obtain cs0 s1 where nc: "neigh_candidates [0..<length (c_neigh u)] ([], u) = Some (cs0, s1)"
    using assms(2) by (auto simp: sched_pick_def u_def split: option.splits)
  obtain cs s2 where oc: "own_candidates cs0 s1 = (cs, s2)" by (rule prod.exhaust)
  have good: "list_all proper cs"
    by (rule own_candidates_proper [OF oc neigh_candidates_proper [OF nc]]) simp
  show ?thesis
  proof (cases "select_candidate cs")
    case None
    then have "t = s2\<lparr>c_idle_armed := True\<rparr>"
      using assms(2) free nc oc unfolding sched_pick_def u_def [symmetric] by simp
    then show ?thesis by simp
  next
    case (Some c)
    obtain ok s3 where st: "stage_for c s2 = (ok, s3)" by (rule prod.exhaust)
    have t: "(if ok then run_candidate c s3 else Some s3) = Some t"
      using assms(2) free nc oc Some st unfolding sched_pick_def u_def [symmetric] by (cases ok) simp_all
    show ?thesis
    proof (cases ok)
      case True
      with t run_candidate_effect [of c s3 t] good select_member [OF Some] show ?thesis by (auto simp: list_all_iff)
    next
      case False
      with st have "c_work_sched s3"
        by (auto simp: stage_for_def resubmit_def split: ev_kind.splits option.splits if_splits prod.splits bool.splits)
      with t False show ?thesis by simp
    qed
  qed
qed

definition demo_sched :: ctx where
  "demo_sched = demo_node\<lparr>c_running := True, c_now := 1000, c_next_scan_us := 70000, c_next_beacon_us := 50000,
     c_next_chan_eval_us := 90000, c_ev := event_zero\<rparr>"

theorem scheduler_never_stalls_witness:
  "\<exists>t. sched_pick (demo_sched\<lparr>c_work_sched := False, c_idle_armed := False\<rparr>) = Some t \<and>
     (c_work_sched t \<or> c_idle_armed t \<or> event_requested t)"
proof -
  have h: "\<not> slot_taken demo_sched" by code_simp
  have "(sched_pick (demo_sched\<lparr>c_work_sched := False, c_idle_armed := False\<rparr>) = None) = False" by code_simp
  then obtain t where t: "sched_pick (demo_sched\<lparr>c_work_sched := False, c_idle_armed := False\<rparr>) = Some t" by auto
  from scheduler_never_stalls [OF h t] t show ?thesis by blast
qed

section \<open>A refused slot after a good event\<close>

lemma event_miss_keeps:
  assumes "n_last_rx_us (nb s i) = 0 \<or> \<not> ucast (n_sup_timeout_us (nb s i)) < c_now s - n_last_rx_us (nb s i)"
  defines "t \<equiv> lg_link_event_miss i s"
  shows "c_evst t = c_evst s \<and> c_txq t = c_txq s \<and> c_radio t = c_radio s \<and> c_ev t = c_ev s \<and>
    n_tx_needs_ack (nb t i) = n_tx_needs_ack (nb s i) \<and> n_addr (nb t i) = n_addr (nb s i)"
proof -
  have same: "n_last_rx_us (neigh_tx_result a n) = n_last_rx_us n" "n_sup_timeout_us (neigh_tx_result a n) = n_sup_timeout_us n"
    "n_tx_needs_ack (neigh_tx_result a n) = n_tx_needs_ack n" "n_addr (neigh_tx_result a n) = n_addr n" for a n
    by (simp_all add: neigh_tx_result_def neigh_tx_sample_def neigh_update_cost_def Let_def)
  let ?u = "lg_chan_result (lg_link_next_chan i (lg_neigh_tx_result i False s)) False (lg_neigh_tx_result i False s)"
  have u: "c_evst ?u = c_evst s" "c_txq ?u = c_txq s" "c_radio ?u = c_radio s" "c_ev ?u = c_ev s" "c_now ?u = c_now s"
    "nb ?u i = nb (lg_neigh_tx_result i False s) i"
    by (simp_all add: lg_chan_result_def lg_neigh_tx_result_def upd_neigh_def Let_def)
  have n: "n_last_rx_us (nb ?u i) = n_last_rx_us (nb s i)" "n_sup_timeout_us (nb ?u i) = n_sup_timeout_us (nb s i)"
    "n_tx_needs_ack (nb ?u i) = n_tx_needs_ack (nb s i)" "n_addr (nb ?u i) = n_addr (nb s i)"
    unfolding u(6) by (simp_all add: lg_neigh_tx_result_def nb_upd_any same)
  have "t = ?u" using assms(1) u(5) n(1,2) by (auto simp: t_def lg_link_event_miss_def Let_def)
  then show ?thesis using u(1-4) n(3,4) by simp
qed

text \<open>C30: a message can be lost without ever going on the air: what an event achieved is only cleared when the
  next one starts. If the arbiter refuses the slot of the event that follows a successful one, the
  event is settled with the old flags: nothing is transmitted, but the data frame that was staged for
  it counts as acknowledged and its message leaves the queue.\<close>

theorem refused_slot_loses_message:
  fixes s :: ctx and i k :: nat
  assumes "ev_kind (c_ev s) = LG_EV_LINK" "ev_neigh (c_ev s) = Some i"
    and "n_last_rx_us (nb s i) = 0 \<or> \<not> ucast (n_sup_timeout_us (nb s i)) < c_now s - n_last_rx_us (nb s i)"
    and stale: "es_got_rx (c_evst s)" "es_sent_tx (c_evst s)" and staged: "n_tx_needs_ack (nb s i)"
    and queue: "fst (lg_txq_peek (n_addr (nb s i)) (ts_failed s)) = Some k" "k < length (c_txq s)" "m_used (c_txq s ! k)"
  shows "c_radio (ts_failed s) = c_radio s @ [PhyStop] \<and> m_used (c_txq (ts_failed s) ! k) \<and>
    (\<exists>t. finish_event (ts_failed s) = Some t \<and> \<not> m_used (c_txq t ! k))"
proof -
  let ?s = "upd_stats (\<lambda>st. st\<lparr>st_slots_blocked := st_slots_blocked st + 1\<rparr>) s"
  define m where "m = lg_link_event_miss i ?s"
  have m: "c_evst m = c_evst s" "c_txq m = c_txq s" "c_radio m = c_radio s" "c_ev m = c_ev s"
    "n_tx_needs_ack (nb m i)" "n_addr (nb m i) = n_addr (nb s i)"
    using event_miss_keeps [of ?s i] assms(3) staged by (simp_all add: m_def upd_stats_def)
  have f: "ts_failed s = lg_sched_event_done m"
    using assms(1,2) by (simp add: ts_failed_def ev_aborted_def link_aborted_def Let_def m_def upd_stats_def)
  have d: "c_evst (ts_failed s) = c_evst s" "c_txq (ts_failed s) = c_txq s" "c_radio (ts_failed s) = c_radio s @ [PhyStop]"
    "c_neigh (ts_failed s) = c_neigh m" "c_finish_kind (ts_failed s) = LG_EV_LINK" "c_finish_neigh (ts_failed s) = Some i"
    unfolding f using m assms(1,2)
    by (simp_all add: lg_sched_event_done_def lg_phy_stop_def lg_ts_release_def upd_ts_def Let_def)
  let ?t = "lg_link_event_finish i (ts_failed s)"
  obtain v where pk: "lg_txq_peek (n_addr (nb (ts_failed s) i)) (ts_failed s) = (Some k, v)"
    using queue(1) m(6) d(4) by (cases "lg_txq_peek (n_addr (nb s i)) (ts_failed s)") simp
  have "c_txq v = c_txq (ts_failed s)" using peek_queue [of "n_addr (nb (ts_failed s) i)" "ts_failed s"] pk by simp
  then have "c_txq ?t ! k = txmsg_zero"
    using d stale m(5) pk queue(2) by (simp add: lg_link_event_finish_def lg_txq_free_def Let_def)
  then show ?thesis using d queue(3) by (simp add: finish_event_def txmsg_zero_def)
qed

text \<open>A link whose last event went well, at the moment its next slot is refused.\<close>

definition demo_refused :: ctx where
  "demo_refused = demo_ctrl_event\<lparr>c_ev := event_zero\<lparr>ev_kind := LG_EV_LINK, ev_neigh := Some 1\<rparr>\<rparr>"

theorem refused_slot_loses_message_witness:
  "m_used (c_txq (ts_failed demo_refused) ! 0) \<and>
   (\<exists>t. finish_event (ts_failed demo_refused) = Some t \<and> \<not> m_used (c_txq t ! 0))"
proof -
  have h: "ev_kind (c_ev demo_refused) = LG_EV_LINK" "ev_neigh (c_ev demo_refused) = Some 1"
    "n_last_rx_us (nb demo_refused 1) = 0 \<or>
      \<not> ucast (n_sup_timeout_us (nb demo_refused 1)) < c_now demo_refused - n_last_rx_us (nb demo_refused 1)"
    "es_got_rx (c_evst demo_refused)" "es_sent_tx (c_evst demo_refused)" "n_tx_needs_ack (nb demo_refused 1)"
    "fst (lg_txq_peek (n_addr (nb demo_refused 1)) (ts_failed demo_refused)) = Some 0"
    "0 < length (c_txq demo_refused)" "m_used (c_txq demo_refused ! 0)" by code_simp+
  from refused_slot_loses_message [OF h] show ?thesis by blast
qed

end
