(* ===== verification/LG_Core.thy ===== *)
theory LG_Core
  imports LG_Sched LG_Agree
begin

text \<open>
  The node as a whole (\<open>lg_core.c\<close>): the dispatch of received frames, provisioning, the callbacks,
  starting and stopping. \<open>lg_rx_post\<close> and the notifications are in \<open>LG_Ring\<close>, the transmit queue in
  \<open>LG_Queue\<close>, tuning in \<open>LG_Tuning\<close>. The network and address filters set in the radio driver are not state.
\<close>

section \<open>Received frames\<close>

definition is_join_type :: "u8 \<Rightarrow> bool" where
  "is_join_type ty \<longleftrightarrow> ty = LG_FT_JOIN_REQ \<or> ty = LG_FT_JOIN_RSP \<or> ty = LG_FT_JOIN_CFM \<or>
     ty = LG_FT_JOIN_ACK \<or> ty = LG_FT_RESUME_REQ \<or> ty = LG_FT_RESUME_RSP"

text \<open>What is neither a beacon nor part of a handshake has to come from a linked neighbour, protected.\<close>

definition dispatch_secured :: "rx_rec \<Rightarrow> u8 \<Rightarrow> u16 \<Rightarrow> ctx \<Rightarrow> ctx" where
  "dispatch_secured rec fcf src s =
    (case lg_neigh_find src s of
       None \<Rightarrow> s
     | Some i \<Rightarrow>
         if n_state (nb s i) \<noteq> LG_NS_LINKED then s
         else if \<not> has_flag fcf LG_FCF_SEC
         then upd_stats (\<lambda>st. st\<lparr>st_auth_failures := st_auth_failures st + 1\<rparr>) s
         else case lg_sec_decrypt i (rx_pdu rec) (rx_len rec) s of
                (Inl _, _, s1) \<Rightarrow> s1
              | (Inr len, pdu, s1) \<Rightarrow>
                  lg_link_rx_frame i fcf (drop LG_HDR_LEN_SEC pdu) (len - LG_HDR_LEN_SEC) (rx_rssi rec) s1)"

definition dispatch :: "rx_rec \<Rightarrow> ctx \<Rightarrow> ctx option" where
  "dispatch rec s =
    (case lg_frame_hdr_get (cfg_mic_len (c_cfg s)) (rx_pdu rec) (rx_len rec) (c_netid16 s) of
       None \<Rightarrow> Some s
     | Some (fcf, sq, dst, src) \<Rightarrow>
         if src = c_addr s then Some s
         else if dst \<noteq> c_addr s \<and> dst \<noteq> LG_ADDR_BROADCAST then Some s
         else let ty = fcf AND LG_FCF_TYPE_MASK
              in if ty = LG_FT_BEACON
                 then Some (lg_disc_beacon_rx (rx_pdu rec) (rx_len rec) (rx_rssi rec) (rx_air_start_us rec) s)
                 else if is_join_type ty
                 then lg_join_rx_pdu (rx_pdu rec) (rx_len rec) (rx_rssi rec) (rx_air_start_us rec) s
                 else Some (dispatch_secured rec fcf src s))"

text \<open>The loop of \<open>rx_handler\<close>; a record leaves the ring after it was dispatched.\<close>

fun rx_loop :: "nat \<Rightarrow> ctx \<Rightarrow> ctx option" where
  "rx_loop 0 s = Some s"
| "rx_loop (Suc n) s =
     (if rg_tail (c_rx_ring s) = rg_head (c_rx_ring s) then Some s
      else case dispatch (ring_peek (c_rx_ring s)) s of
             None \<Rightarrow> None
           | Some t \<Rightarrow> rx_loop n (t\<lparr>c_rx_ring := ring_drop (c_rx_ring t)\<rparr>))"

definition rx_handler :: "ctx \<Rightarrow> ctx option" where
  "rx_handler s = rx_loop (unat (ring_used (c_rx_ring s))) (s\<lparr>c_work_rx := False\<rparr>)"

section \<open>Provisioning and lifecycle\<close>

record identity =
  id_network_id :: u32
  id_cert :: "u8 list option"
  id_priv_key :: "u8 list option"
  id_ca_pub_key :: "u8 list option"
  id_net_key :: "u8 list option"

definition has_len :: "u8 list option \<Rightarrow> nat \<Rightarrow> bool" where
  "has_len p n = (case p of None \<Rightarrow> False | Some bs \<Rightarrow> length bs = n)"

definition identity_ok :: "identity \<Rightarrow> bool" where
  "identity_ok d \<longleftrightarrow> has_len (id_cert d) LG_CERT_LEN \<and> has_len (id_priv_key d) LG_EC_PRIV_LEN \<and>
     has_len (id_ca_pub_key d) LG_EC_PUB_LEN \<and> has_len (id_net_key d) LG_KEY_LEN"

definition lg_provision :: "bool \<Rightarrow> identity option \<Rightarrow> ctx \<Rightarrow> (errno + unit) \<times> ctx" where
  "lg_provision psa_ok ident s =
    (case ident of
       None \<Rightarrow> (Inl EINVAL, s)
     | Some d \<Rightarrow>
         if \<not> identity_ok d then (Inl EINVAL, s)
         else if c_started s then (Inl EBUSY, s)
         else
           let s1 = s\<lparr>c_network_id := id_network_id d, c_netid16 := ucast (id_network_id d), c_cert := id_cert d,
                      c_priv_key := id_priv_key d, c_ca_pub := id_ca_pub_key d, c_net_key := the (id_net_key d)\<rparr>
           in case lg_sec_init psa_ok s1 of
                (Inl _, s2) \<Rightarrow> (Inl EIO, s2)
              | (Inr _, s2) \<Rightarrow>
                  (case lg_sec_cert_verify s2 (own_cert s2) of
                     Inl _ \<Rightarrow> (Inl EACCES, s2)
                   | Inr (addr, _, _) \<Rightarrow> (Inr (), s2\<lparr>c_addr := addr\<rparr>)))"

text \<open>Which of the two callbacks are set; \<open>None\<close> is the null pointer.\<close>

definition lg_callbacks_register :: "(bool \<times> bool) option \<Rightarrow> ctx \<Rightarrow> ctx" where
  "lg_callbacks_register cb s =
    (case cb of None \<Rightarrow> s\<lparr>c_cb_rx := False, c_cb_evt := False\<rparr> | Some (rx, evt) \<Rightarrow> s\<lparr>c_cb_rx := rx, c_cb_evt := evt\<rparr>)"

definition start_tables :: "ctx \<Rightarrow> ctx" where
  "start_tables s =
    s\<lparr>c_neigh := map (\<lambda>n. n\<lparr>n_state := LG_NS_FREE\<rparr>) (c_neigh s), c_txq := map (\<lambda>_. txmsg_zero) (c_txq s),
      c_stats := stats_zero, c_msg_id_next := 1, c_link_count := 0\<rparr>"

definition lg_start :: "errno option \<Rightarrow> bool \<Rightarrow> bool \<Rightarrow> ctx \<Rightarrow> (errno + unit) \<times> ctx" where
  "lg_start phy grant_chan fine_chan s =
    (if c_started s then (Inl EALREADY, s)
     else if c_addr s = LG_ADDR_INVALID then (Inl EACCES, s)
     else case lg_sec_cert_verify s (own_cert s) of
       Inl e \<Rightarrow> (Inl e, s)
     | Inr _ \<Rightarrow>
         let s1 = lg_join_init (lg_route_init (lg_role_init (lg_chan_init (lg_power_init (lg_tuning_init (start_tables s))))))
         in case lg_sched_init phy grant_chan fine_chan s1 of
              (Inl e, s2) \<Rightarrow> (Inl e, s2)
            | (Inr _, s2) \<Rightarrow>
                (Inr (), lg_sched_kick (lg_disc_beacon_finish (lg_role_evaluate (lg_disc_init (s2\<lparr>c_started := True\<rparr>))))))"

definition down_if_linked :: "ctx \<Rightarrow> nat \<Rightarrow> ctx" where
  "down_if_linked s i = (if n_state (nb s i) = LG_NS_LINKED then lg_link_down i s else s)"

definition lg_stop :: "ctx \<Rightarrow> (errno + unit) \<times> ctx" where
  "lg_stop s =
    (if \<not> c_started s then (Inl EALREADY, s)
     else (Inr (), lg_sched_stop ((foldl down_if_linked s [0..<length (c_neigh s)])\<lparr>c_started := False\<rparr>)))"

definition lg_local_addr :: "ctx \<Rightarrow> u16" where
  "lg_local_addr s = c_addr s"

section \<open>What a received frame can do\<close>

text \<open>A frame that came from a linked neighbour, under its key, and was not accepted before.\<close>

definition vouched_frame :: "rx_rec \<Rightarrow> ctx \<Rightarrow> bool" where
  "vouched_frame rec s \<longleftrightarrow>
    (let pdu = rx_pdu rec; len = rx_len rec; src = lg_get_le16 pdu LG_OFF_SRC; ctr = lg_get_le32 pdu LG_OFF_FCTR
     in case lg_neigh_find src s of
          None \<Rightarrow> False
        | Some i \<Rightarrow> n_state (nb s i) = LG_NS_LINKED \<and> n_has_key (nb s i) \<and> has_flag (pdu ! LG_OFF_FCF) LG_FCF_SEC \<and>
            psa_aead_decrypt s (n_key_id (nb s i)) (cfg_mic_len (c_cfg s)) (nonce_build src ctr)
              (take LG_HDR_LEN_SEC pdu) (take (len - LG_HDR_LEN_SEC) (drop LG_HDR_LEN_SEC pdu)) \<noteq> None \<and>
            fst (replay_check i ctr s))"

text \<open>A beacon sealed with the network's key.\<close>

definition vouched_beacon :: "rx_rec \<Rightarrow> ctx \<Rightarrow> bool" where
  "vouched_beacon rec s \<longleftrightarrow> lg_frame_type (rx_pdu rec) = LG_FT_BEACON \<and>
     (\<exists>n. lg_sec_beacon_open s (rx_pdu rec) (rx_len rec) = Inr n)"

definition only_stats :: "ctx \<Rightarrow> ctx \<Rightarrow> bool" where
  "only_stats s t \<longleftrightarrow> t = s\<lparr>c_stats := c_stats t\<rparr>"

lemma only_stats_refl [simp]: "only_stats s s"
  by (simp add: only_stats_def)

lemma only_stats_upd [simp]: "only_stats s (upd_stats f s)"
  by (simp add: only_stats_def upd_stats_def)

lemma decrypt_rejects:
  assumes "lg_sec_decrypt i pdu len s = (Inl e, pdu', t)"
  shows "only_stats s t"
proof -
  have same: "replay_check i ctr s = (False, s1) \<Longrightarrow> s1 = s" for ctr s1
    by (simp add: replay_check_def Let_def split: if_splits)
  show ?thesis using assms
    by (auto simp: lg_sec_decrypt_def Let_def dest!: same split: if_splits option.splits prod.splits bool.splits)
qed

lemma decrypt_accepts:
  assumes "lg_sec_decrypt i pdu len s = (Inr n, pdu', t)"
  shows "n_has_key (nb s i) \<and> fst (replay_check i (lg_get_le32 pdu LG_OFF_FCTR) s) \<and>
    psa_aead_decrypt s (n_key_id (nb s i)) (cfg_mic_len (c_cfg s))
      (nonce_build (lg_get_le16 pdu LG_OFF_SRC) (lg_get_le32 pdu LG_OFF_FCTR))
      (take LG_HDR_LEN_SEC pdu) (take (len - LG_HDR_LEN_SEC) (drop LG_HDR_LEN_SEC pdu)) \<noteq> None"
  using assms by (auto simp: lg_sec_decrypt_def Let_def split: if_splits option.splits prod.splits bool.splits)

lemma dispatch_secured_gate:
  assumes "\<not> vouched_frame rec s" "fcf = rx_pdu rec ! LG_OFF_FCF" "src = lg_get_le16 (rx_pdu rec) LG_OFF_SRC"
  shows "only_stats s (dispatch_secured rec fcf src s)"
proof (cases "lg_neigh_find src s")
  case (Some i)
  obtain r pdu t where d: "lg_sec_decrypt i (rx_pdu rec) (rx_len rec) s = (r, pdu, t)" by (metis prod.exhaust)
  show ?thesis
  proof (cases r)
    case (Inl e)
    with d Some decrypt_rejects [of i "rx_pdu rec" "rx_len rec" s e pdu t] show ?thesis
      by (simp add: dispatch_secured_def)
  next
    case (Inr n)
    note decrypt_accepts [OF d [unfolded Inr]]
    with assms Some d Inr show ?thesis by (auto simp: dispatch_secured_def vouched_frame_def Let_def)
  qed
qed (simp add: dispatch_secured_def)

lemma beacon_gate:
  assumes "\<not> vouched_beacon rec s"
  shows "only_stats s (lg_disc_beacon_rx (rx_pdu rec) (rx_len rec) rssi air s)"
proof -
  have "fst (beacon_parse (rx_pdu rec) (rx_len rec) s) = None \<and> only_stats s (snd (beacon_parse (rx_pdu rec) (rx_len rec) s))"
    using assms by (auto simp: beacon_parse_def vouched_beacon_def split: sum.splits)
  then show ?thesis by (auto simp: lg_disc_beacon_rx_def split: option.splits prod.splits)
qed

text \<open>C14: past the handshake only frames somebody vouches for have any effect. Whatever arrives, if it is no
  handshake fragment, no beacon sealed with the network's key and no frame of a linked neighbour that
  decrypts under the key of that link with a counter not used before, then it changes nothing but the
  statistics: no neighbour, no route, no queue, nothing the application sees.\<close>

theorem dispatch_only_authentic:
  assumes "dispatch rec s = Some t" "\<not> is_join_type (lg_frame_type (rx_pdu rec))"
    and "\<not> vouched_beacon rec s" "\<not> vouched_frame rec s"
  shows "t = s\<lparr>c_stats := c_stats t\<rparr>"
proof (cases "lg_frame_hdr_get (cfg_mic_len (c_cfg s)) (rx_pdu rec) (rx_len rec) (c_netid16 s)")
  case None
  then show ?thesis using assms(1) by (simp add: dispatch_def)
next
  case (Some h)
  obtain fcf sq dst src where h: "h = (fcf, sq, dst, src)" by (cases h)
  have hd: "fcf = rx_pdu rec ! LG_OFF_FCF" "src = lg_get_le16 (rx_pdu rec) LG_OFF_SRC"
    using Some h by (auto simp: lg_frame_hdr_get_def Let_def split: if_splits)
  from assms(1,2) Some h hd
  have "t = s \<or> t = lg_disc_beacon_rx (rx_pdu rec) (rx_len rec) (rx_rssi rec) (rx_air_start_us rec) s \<or>
      t = dispatch_secured rec fcf src s"
    by (auto simp: dispatch_def Let_def lg_frame_type_def split: if_splits)
  then have "only_stats s t"
    using beacon_gate [OF assms(3)] dispatch_secured_gate [OF assms(4) hd] by auto
  then show ?thesis by (simp add: only_stats_def)
qed

text \<open>A protected frame of the linked neighbour 22 whose tag is wrong.\<close>

definition demo_forged :: rx_rec where
  "demo_forged = rx_rec_zero\<lparr>rx_len := 16,
     rx_pdu := blit (replicate LG_PDU_MAX 0) 0 (hdr_bytes 0 (LG_FT_DATA OR LG_FCF_SEC) 1 5 22 @ [1, 0, 0, 0, 7, 7, 7, 7])\<rparr>"

theorem dispatch_only_authentic_witness:
  "\<exists>t. dispatch demo_forged demo_mesh_keys = Some t \<and> t = demo_mesh_keys\<lparr>c_stats := c_stats t\<rparr> \<and>
     lg_neigh_find 22 demo_mesh_keys = Some 1"
proof -
  have h: "\<not> is_join_type (lg_frame_type (rx_pdu demo_forged))" "\<not> vouched_frame demo_forged demo_mesh_keys"
    and f: "lg_neigh_find 22 demo_mesh_keys = Some 1" by code_simp+
  have b: "\<not> vouched_beacon demo_forged demo_mesh_keys"
  proof -
    have "lg_frame_type (rx_pdu demo_forged) \<noteq> LG_FT_BEACON" by code_simp
    then show ?thesis by (simp add: vouched_beacon_def)
  qed
  have "(dispatch demo_forged demo_mesh_keys = None) = False" by code_simp
  then obtain t where t: "dispatch demo_forged demo_mesh_keys = Some t" by auto
  from dispatch_only_authentic [OF t h(1) b h(2)] t f show ?thesis by blast
qed

section \<open>Stopping\<close>

lemma link_down_cfg [simp]: "c_cfg (lg_link_down i s) = c_cfg s"
proof (cases "n_state (nb s i) = LG_NS_LINKED")
  case True
  then show ?thesis
    by (simp add: lg_link_down_def Let_def free_links_changed [OF free_fields(3)] lg_sec_forget_key_def upd_neigh_def
        lg_route_flush_via_def)
qed (simp add: lg_link_down_def)

lemma down_if_linked_cfg [simp]: "c_cfg (down_if_linked s i) = c_cfg s"
  by (simp add: down_if_linked_def)

text \<open>What the loop over the first \<open>k\<close> entries leaves behind.\<close>

definition downed :: "nat \<Rightarrow> ctx \<Rightarrow> ctx \<Rightarrow> bool" where
  "downed k s t \<longleftrightarrow> length (c_neigh t) = length (c_neigh s) \<and>
     (\<forall>j<length (c_neigh s).
        if j < k \<and> n_state (nb s j) = LG_NS_LINKED then n_state (nb t j) = LG_NS_LOST \<and> \<not> n_has_key (nb t j)
        else n_state (nb t j) = n_state (nb s j) \<and> n_has_key (nb t j) = n_has_key (nb s j))"

lemma down_if_linked_step:
  assumes "downed k s t" "k < length (c_neigh s)" "1 \<le> cfg_max_parents (c_cfg t)"
  shows "downed (Suc k) s (down_if_linked t k)"
proof (cases "n_state (nb t k) = LG_NS_LINKED")
  case False
  then show ?thesis using assms(1) by (auto simp: downed_def down_if_linked_def less_Suc_eq)
next
  case True
  have k: "k < length (c_neigh t)" using assms(1,2) by (simp add: downed_def)
  have was: "n_state (nb s k) = LG_NS_LINKED" using assms(1,2) True by (auto simp: downed_def)
  from link_down_facts [OF k assms(3)] True
  have d: "n_state (nb (lg_link_down k t) k) = LG_NS_LOST" "\<not> n_has_key (nb (lg_link_down k t) k)"
    "length (c_neigh (lg_link_down k t)) = length (c_neigh t)"
    "\<And>j. j < length (c_neigh t) \<Longrightarrow> j \<noteq> k \<Longrightarrow> n_state (nb (lg_link_down k t) j) = n_state (nb t j) \<and>
      n_has_key (nb (lg_link_down k t) j) = n_has_key (nb t j)" by simp_all
  have "if j < Suc k \<and> n_state (nb s j) = LG_NS_LINKED
      then n_state (nb (lg_link_down k t) j) = LG_NS_LOST \<and> \<not> n_has_key (nb (lg_link_down k t) j)
      else n_state (nb (lg_link_down k t) j) = n_state (nb s j) \<and> n_has_key (nb (lg_link_down k t) j) = n_has_key (nb s j)"
    if "j < length (c_neigh s)" for j
  proof (cases "j = k")
    case False
    then have "j < Suc k \<longleftrightarrow> j < k" by auto
    with False that d(4) [of j] assms(1) show ?thesis by (simp add: downed_def split: if_splits)
  qed (use d(1,2) was in simp)
  then show ?thesis using assms(1) d(3) True by (simp add: downed_def down_if_linked_def)
qed

lemma down_all:
  assumes "1 \<le> cfg_max_parents (c_cfg s)" "k \<le> length (c_neigh s)"
  shows "downed k s (foldl down_if_linked s [0..<k]) \<and> c_cfg (foldl down_if_linked s [0..<k]) = c_cfg s"
  using assms(2)
proof (induction k)
  case (Suc k)
  then show ?case using down_if_linked_step [of k s "foldl down_if_linked s [0..<k]"] assms(1)
    by simp
qed (simp add: downed_def)



section \<open>Provisioning\<close>

text \<open>C37: a node can run under an address its certificate does not name. Provisioning writes the new
  credentials first and the address last; if bringing up the crypto fails in between, the call returns
  an error but the new certificate stays beside the old address, and since starting only checks that
  the certificate verifies, not whose it is, the node then starts.\<close>

theorem failed_provision_splits_identity:
  fixes d :: identity
  assumes "identity_ok d" "\<not> c_started s" "c_addr s \<noteq> LG_ADDR_INVALID"
  defines "t \<equiv> snd (lg_provision False (Some d) s)"
  assumes "lg_sec_cert_verify t (own_cert t) = Inr (addr, role, pub)" "addr \<noteq> c_addr s"
  shows "fst (lg_provision False (Some d) s) = Inl EIO \<and> lg_local_addr t = c_addr s \<and>
    own_cert t = the (id_cert d) \<and> fst (lg_start None True True t) = Inr () \<and>
    lg_get_le16 (own_cert t) LG_CERT_OFF_ADDR \<noteq> lg_local_addr t"
proof -
  obtain c where c: "id_cert d = Some c" using assms(1) by (auto simp: identity_ok_def has_len_def split: option.splits)
  have t: "fst (lg_provision False (Some d) s) = Inl EIO" "c_addr t = c_addr s" "c_cert t = Some c" "\<not> c_started t"
    using assms(1,2) c by (simp_all add: t_def lg_provision_def lg_sec_init_def Let_def)
  have "fst (lg_start None True True t) = Inr ()"
    using t assms(3,5) by (simp add: lg_start_def lg_sched_init_def lg_ts_init_def Let_def)
  moreover have "addr = lg_get_le16 (own_cert t) LG_CERT_OFF_ADDR"
    using assms(5) by (auto simp: lg_sec_cert_verify_def Let_def split: if_splits option.splits sum.splits)
  ultimately show ?thesis using t assms(6) c by (simp add: lg_local_addr_def own_cert_def)
qed

definition demo_identity :: identity where
  "demo_identity = \<lparr>id_network_id = 1, id_cert = Some (demo_cert 7 3), id_priv_key = Some (replicate 32 3),
     id_ca_pub_key = Some (replicate 64 9), id_net_key = Some (replicate 16 1)\<rparr>"

theorem failed_provision_splits_identity_witness:
  "fst (lg_provision False (Some demo_identity) (demo_end 5 9 2)) = Inl EIO \<and>
   lg_local_addr (snd (lg_provision False (Some demo_identity) (demo_end 5 9 2))) = 5 \<and>
   own_cert (snd (lg_provision False (Some demo_identity) (demo_end 5 9 2))) = demo_cert 7 3"
proof -
  have h: "identity_ok demo_identity" "\<not> c_started (demo_end 5 9 2)" "c_addr (demo_end 5 9 2) \<noteq> LG_ADDR_INVALID"
    and v: "lg_sec_cert_verify (snd (lg_provision False (Some demo_identity) (demo_end 5 9 2)))
      (own_cert (snd (lg_provision False (Some demo_identity) (demo_end 5 9 2)))) = Inr (7, 0, replicate 64 3)"
    and a: "7 \<noteq> c_addr (demo_end 5 9 2)" "c_addr (demo_end 5 9 2) = 5" "the (id_cert demo_identity) = demo_cert 7 3"
    by code_simp+
  from failed_provision_splits_identity [OF h v a(1)] a show ?thesis by simp
qed

end
