(* ===== verification/LG_Quiet.thy ===== *)
theory LG_Quiet
  imports LG_Core
begin

text \<open>
  What almost every operation of a node leaves alone. An operation is quiet when it does not touch the
  event, the arbiter, the radio's state, the lifecycle flags or the receive ring, keeps every table at
  its size, and does not drop a pending run of the scheduler. The collection \<open>quiet\<close> has one rule per
  operation, so that a handler is quiet by simplification over its definition.
\<close>

section \<open>The relation\<close>

definition hs_ptr_ok :: "handshake \<Rightarrow> nat \<Rightarrow> bool" where
  "hs_ptr_ok h n \<longleftrightarrow> (case hs_n h of None \<Rightarrow> True | Some i \<Rightarrow> i < n)"

definition fixed :: "ctx \<Rightarrow> _" where
  "fixed s = (c_cfg s, c_running s, c_started s, c_ev s, c_ts s, c_phy_busy s,
     c_work_finish s, c_finish_kind s, c_finish_neigh s, c_idle_armed s,
     length (c_neigh s), length (c_routes s), length (c_txq s), length (c_chan s),
     length (c_gossip s), length (c_dup_cache s), length (c_beacon_copy s))"

text \<open>The receive ring may only grow.\<close>

definition rx_bufs :: "rx_rec ring \<Rightarrow> bool" where
  "rx_bufs r \<longleftrightarrow> ring_ok r \<and> (\<forall>rec\<in>set (rg_buf r). length (rx_pdu rec) = LG_PDU_MAX)"

definition rx_grows :: "rx_rec ring \<Rightarrow> rx_rec ring \<Rightarrow> bool" where
  "rx_grows r q \<longleftrightarrow> (rx_bufs r \<longrightarrow> rx_bufs q \<and> (rg_tail r \<noteq> rg_head r \<longrightarrow> rg_tail q \<noteq> rg_head q))"

lemma rx_grows_refl [simp]: "rx_grows r r"
  by (simp add: rx_grows_def)

lemma rx_grows_trans: "rx_grows r q \<Longrightarrow> rx_grows q p \<Longrightarrow> rx_grows r p"
  by (auto simp: rx_grows_def)

definition quiet :: "ctx \<Rightarrow> ctx \<Rightarrow> bool" where
  "quiet s t \<longleftrightarrow> fixed t = fixed s \<and>
     (c_work_sched s \<longrightarrow> c_work_sched t) \<and> (c_dup_next s < LG_DUP_CACHE_SIZE \<longrightarrow> c_dup_next t < LG_DUP_CACHE_SIZE) \<and>
     (ring_ok (c_notify_ring s) \<longrightarrow> ring_ok (c_notify_ring t)) \<and>
     rx_grows (c_rx_ring s) (c_rx_ring t) \<and>
     (hs_ptr_ok (c_hs s) (length (c_neigh s)) \<longrightarrow> hs_ptr_ok (c_hs t) (length (c_neigh s)))"

lemma quiet_refl [simp]: "quiet s s"
  by (simp add: quiet_def)

lemma fixedD:
  assumes "fixed t = fixed s"
  shows "c_cfg t = c_cfg s" "c_running t = c_running s" "c_started t = c_started s" "c_ev t = c_ev s" "c_ts t = c_ts s" "c_phy_busy t = c_phy_busy s" "c_work_finish t = c_work_finish s" "c_finish_kind t = c_finish_kind s" "c_finish_neigh t = c_finish_neigh s" "c_idle_armed t = c_idle_armed s"
    "length (c_neigh t) = length (c_neigh s)" "length (c_routes t) = length (c_routes s)" "length (c_txq t) = length (c_txq s)" "length (c_chan t) = length (c_chan s)" "length (c_gossip t) = length (c_gossip s)" "length (c_dup_cache t) = length (c_dup_cache s)" "length (c_beacon_copy t) = length (c_beacon_copy s)"
  using assms unfolding fixed_def prod.inject by blast+

lemma quiet_trans: "quiet s t \<Longrightarrow> quiet t u \<Longrightarrow> quiet s u"
  unfolding quiet_def by (auto simp: fixedD(11) [of t s] intro: rx_grows_trans)

lemma fixed_updates [simp]:
  "fixed (t\<lparr>c_cr := x0\<rparr>) = fixed t"
  "fixed (t\<lparr>c_now := x1\<rparr>) = fixed t"
  "fixed (t\<lparr>c_rng := x2\<rparr>) = fixed t"
  "fixed (t\<lparr>c_rng_n := x3\<rparr>) = fixed t"
  "fixed (t\<lparr>c_phy_ok := x4\<rparr>) = fixed t"
  "fixed (t\<lparr>c_radio := x5\<rparr>) = fixed t"
  "fixed (t\<lparr>c_pw := x6\<rparr>) = fixed t"
  "fixed (t\<lparr>c_app := x7\<rparr>) = fixed t"
  "fixed (t\<lparr>c_cb_rx := x8\<rparr>) = fixed t"
  "fixed (t\<lparr>c_cb_evt := x9\<rparr>) = fixed t"
  "fixed (t\<lparr>c_network_id := x10\<rparr>) = fixed t"
  "fixed (t\<lparr>c_netid16 := x11\<rparr>) = fixed t"
  "fixed (t\<lparr>c_addr := x12\<rparr>) = fixed t"
  "fixed (t\<lparr>c_role := x13\<rparr>) = fixed t"
  "fixed (t\<lparr>c_backhaul_active := x14\<rparr>) = fixed t"
  "fixed (t\<lparr>c_unrouted_seen_us := x15\<rparr>) = fixed t"
  "fixed (t\<lparr>c_role_changed_us := x16\<rparr>) = fixed t"
  "fixed (t\<lparr>c_cert := x17\<rparr>) = fixed t"
  "fixed (t\<lparr>c_priv_key := x18\<rparr>) = fixed t"
  "fixed (t\<lparr>c_ca_pub := x19\<rparr>) = fixed t"
  "fixed (t\<lparr>c_net_key := x20\<rparr>) = fixed t"
  "fixed (t\<lparr>c_net_key_id := x21\<rparr>) = fixed t"
  "fixed (t\<lparr>c_rank := x22\<rparr>) = fixed t"
  "fixed (t\<lparr>c_link_count := x23\<rparr>) = fixed t"
  "fixed (t\<lparr>c_msg_id_next := x24\<rparr>) = fixed t"
  "fixed (t\<lparr>c_chan_map := x25\<rparr>) = fixed t"
  "fixed (t\<lparr>c_next_beacon_us := x26\<rparr>) = fixed t"
  "fixed (t\<lparr>c_next_scan_us := x27\<rparr>) = fixed t"
  "fixed (t\<lparr>c_next_chan_eval_us := x28\<rparr>) = fixed t"
  "fixed (t\<lparr>c_beacons_heard := x29\<rparr>) = fixed t"
  "fixed (t\<lparr>c_scan_chan_idx := x30\<rparr>) = fixed t"
  "fixed (t\<lparr>c_want_addr := x31\<rparr>) = fixed t"
  "fixed (t\<lparr>c_want_until_us := x32\<rparr>) = fixed t"
  "fixed (t\<lparr>c_join_win_us := x33\<rparr>) = fixed t"
  "fixed (t\<lparr>c_joiner_hint_us := x34\<rparr>) = fixed t"
  "fixed (t\<lparr>c_link_change_us := x35\<rparr>) = fixed t"
  "fixed (t\<lparr>c_adv_urgent := x36\<rparr>) = fixed t"
  "fixed (t\<lparr>c_beacon_offers_join := x37\<rparr>) = fixed t"
  "fixed (t\<lparr>c_last_join_window_us := x38\<rparr>) = fixed t"
  "fixed (t\<lparr>c_beacon_epoch := x39\<rparr>) = fixed t"
  "fixed (t\<lparr>c_beacon_planned_us := x40\<rparr>) = fixed t"
  "fixed (t\<lparr>c_stats := x41\<rparr>) = fixed t"
  "fixed (t\<lparr>c_tune := x42\<rparr>) = fixed t"
  "fixed (t\<lparr>c_chan_eval_next := x43\<rparr>) = fixed t"
  "fixed (t\<lparr>c_evst := x44\<rparr>) = fixed t"
  "fixed (t\<lparr>c_beacon_copy_idx := x45\<rparr>) = fixed t"
  "fixed (t\<lparr>c_work_rx := x46\<rparr>) = fixed t"
  "fixed (t\<lparr>c_work_notify := x47\<rparr>) = fixed t"
  "fixed (t\<lparr>c_work_sched := x48\<rparr>) = fixed t"
  "fixed (t\<lparr>c_dup_next := x49\<rparr>) = fixed t"
  "fixed (t\<lparr>c_notify_ring := x50\<rparr>) = fixed t"
  "fixed (t\<lparr>c_hs := x51\<rparr>) = fixed t"
  by (simp_all add: fixed_def)

lemma fixed_tables [simp]:
  "length x0 = length (c_neigh t) \<Longrightarrow> fixed (t\<lparr>c_neigh := x0\<rparr>) = fixed t"
  "length x1 = length (c_routes t) \<Longrightarrow> fixed (t\<lparr>c_routes := x1\<rparr>) = fixed t"
  "length x2 = length (c_txq t) \<Longrightarrow> fixed (t\<lparr>c_txq := x2\<rparr>) = fixed t"
  "length x3 = length (c_chan t) \<Longrightarrow> fixed (t\<lparr>c_chan := x3\<rparr>) = fixed t"
  "length x4 = length (c_gossip t) \<Longrightarrow> fixed (t\<lparr>c_gossip := x4\<rparr>) = fixed t"
  "length x5 = length (c_dup_cache t) \<Longrightarrow> fixed (t\<lparr>c_dup_cache := x5\<rparr>) = fixed t"
  "length x6 = length (c_beacon_copy t) \<Longrightarrow> fixed (t\<lparr>c_beacon_copy := x6\<rparr>) = fixed t"
  by (simp_all add: fixed_def)

named_theorems quiet "operations that are quiet"

lemma quiet_updates [simp]:
  "quiet s (t\<lparr>c_cr := x0\<rparr>) \<longleftrightarrow> quiet s t"
  "quiet s (t\<lparr>c_now := x1\<rparr>) \<longleftrightarrow> quiet s t"
  "quiet s (t\<lparr>c_rng := x2\<rparr>) \<longleftrightarrow> quiet s t"
  "quiet s (t\<lparr>c_rng_n := x3\<rparr>) \<longleftrightarrow> quiet s t"
  "quiet s (t\<lparr>c_phy_ok := x4\<rparr>) \<longleftrightarrow> quiet s t"
  "quiet s (t\<lparr>c_radio := x5\<rparr>) \<longleftrightarrow> quiet s t"
  "quiet s (t\<lparr>c_pw := x6\<rparr>) \<longleftrightarrow> quiet s t"
  "quiet s (t\<lparr>c_app := x7\<rparr>) \<longleftrightarrow> quiet s t"
  "quiet s (t\<lparr>c_cb_rx := x8\<rparr>) \<longleftrightarrow> quiet s t"
  "quiet s (t\<lparr>c_cb_evt := x9\<rparr>) \<longleftrightarrow> quiet s t"
  "quiet s (t\<lparr>c_network_id := x10\<rparr>) \<longleftrightarrow> quiet s t"
  "quiet s (t\<lparr>c_netid16 := x11\<rparr>) \<longleftrightarrow> quiet s t"
  "quiet s (t\<lparr>c_addr := x12\<rparr>) \<longleftrightarrow> quiet s t"
  "quiet s (t\<lparr>c_role := x13\<rparr>) \<longleftrightarrow> quiet s t"
  "quiet s (t\<lparr>c_backhaul_active := x14\<rparr>) \<longleftrightarrow> quiet s t"
  "quiet s (t\<lparr>c_unrouted_seen_us := x15\<rparr>) \<longleftrightarrow> quiet s t"
  "quiet s (t\<lparr>c_role_changed_us := x16\<rparr>) \<longleftrightarrow> quiet s t"
  "quiet s (t\<lparr>c_cert := x17\<rparr>) \<longleftrightarrow> quiet s t"
  "quiet s (t\<lparr>c_priv_key := x18\<rparr>) \<longleftrightarrow> quiet s t"
  "quiet s (t\<lparr>c_ca_pub := x19\<rparr>) \<longleftrightarrow> quiet s t"
  "quiet s (t\<lparr>c_net_key := x20\<rparr>) \<longleftrightarrow> quiet s t"
  "quiet s (t\<lparr>c_net_key_id := x21\<rparr>) \<longleftrightarrow> quiet s t"
  "quiet s (t\<lparr>c_rank := x22\<rparr>) \<longleftrightarrow> quiet s t"
  "quiet s (t\<lparr>c_link_count := x23\<rparr>) \<longleftrightarrow> quiet s t"
  "quiet s (t\<lparr>c_msg_id_next := x24\<rparr>) \<longleftrightarrow> quiet s t"
  "quiet s (t\<lparr>c_chan_map := x25\<rparr>) \<longleftrightarrow> quiet s t"
  "quiet s (t\<lparr>c_next_beacon_us := x26\<rparr>) \<longleftrightarrow> quiet s t"
  "quiet s (t\<lparr>c_next_scan_us := x27\<rparr>) \<longleftrightarrow> quiet s t"
  "quiet s (t\<lparr>c_next_chan_eval_us := x28\<rparr>) \<longleftrightarrow> quiet s t"
  "quiet s (t\<lparr>c_beacons_heard := x29\<rparr>) \<longleftrightarrow> quiet s t"
  "quiet s (t\<lparr>c_scan_chan_idx := x30\<rparr>) \<longleftrightarrow> quiet s t"
  "quiet s (t\<lparr>c_want_addr := x31\<rparr>) \<longleftrightarrow> quiet s t"
  "quiet s (t\<lparr>c_want_until_us := x32\<rparr>) \<longleftrightarrow> quiet s t"
  "quiet s (t\<lparr>c_join_win_us := x33\<rparr>) \<longleftrightarrow> quiet s t"
  "quiet s (t\<lparr>c_joiner_hint_us := x34\<rparr>) \<longleftrightarrow> quiet s t"
  "quiet s (t\<lparr>c_link_change_us := x35\<rparr>) \<longleftrightarrow> quiet s t"
  "quiet s (t\<lparr>c_adv_urgent := x36\<rparr>) \<longleftrightarrow> quiet s t"
  "quiet s (t\<lparr>c_beacon_offers_join := x37\<rparr>) \<longleftrightarrow> quiet s t"
  "quiet s (t\<lparr>c_last_join_window_us := x38\<rparr>) \<longleftrightarrow> quiet s t"
  "quiet s (t\<lparr>c_beacon_epoch := x39\<rparr>) \<longleftrightarrow> quiet s t"
  "quiet s (t\<lparr>c_beacon_planned_us := x40\<rparr>) \<longleftrightarrow> quiet s t"
  "quiet s (t\<lparr>c_stats := x41\<rparr>) \<longleftrightarrow> quiet s t"
  "quiet s (t\<lparr>c_tune := x42\<rparr>) \<longleftrightarrow> quiet s t"
  "quiet s (t\<lparr>c_chan_eval_next := x43\<rparr>) \<longleftrightarrow> quiet s t"
  "quiet s (t\<lparr>c_evst := x44\<rparr>) \<longleftrightarrow> quiet s t"
  "quiet s (t\<lparr>c_beacon_copy_idx := x45\<rparr>) \<longleftrightarrow> quiet s t"
  "quiet s (t\<lparr>c_work_rx := x46\<rparr>) \<longleftrightarrow> quiet s t"
  "quiet s (t\<lparr>c_work_notify := x47\<rparr>) \<longleftrightarrow> quiet s t"
  by (simp_all add: quiet_def)

lemma quiet_tables [simp]:
  "length x0 = length (c_neigh t) \<Longrightarrow> quiet s (t\<lparr>c_neigh := x0\<rparr>) \<longleftrightarrow> quiet s t"
  "length x1 = length (c_routes t) \<Longrightarrow> quiet s (t\<lparr>c_routes := x1\<rparr>) \<longleftrightarrow> quiet s t"
  "length x2 = length (c_txq t) \<Longrightarrow> quiet s (t\<lparr>c_txq := x2\<rparr>) \<longleftrightarrow> quiet s t"
  "length x3 = length (c_chan t) \<Longrightarrow> quiet s (t\<lparr>c_chan := x3\<rparr>) \<longleftrightarrow> quiet s t"
  "length x4 = length (c_gossip t) \<Longrightarrow> quiet s (t\<lparr>c_gossip := x4\<rparr>) \<longleftrightarrow> quiet s t"
  "length x5 = length (c_dup_cache t) \<Longrightarrow> quiet s (t\<lparr>c_dup_cache := x5\<rparr>) \<longleftrightarrow> quiet s t"
  "length x6 = length (c_beacon_copy t) \<Longrightarrow> quiet s (t\<lparr>c_beacon_copy := x6\<rparr>) \<longleftrightarrow> quiet s t"
  by (simp_all add: quiet_def)

lemma quiet_special [simp]:
  "quiet s t \<Longrightarrow> quiet s (t\<lparr>c_work_sched := True\<rparr>)"
  "quiet s t \<Longrightarrow> d < LG_DUP_CACHE_SIZE \<Longrightarrow> quiet s (t\<lparr>c_dup_next := d\<rparr>)"
  "quiet s t \<Longrightarrow> (ring_ok (c_notify_ring t) \<Longrightarrow> ring_ok r) \<Longrightarrow> quiet s (t\<lparr>c_notify_ring := r\<rparr>)"
  "quiet s t \<Longrightarrow> hs_n h = None \<or> hs_n h = hs_n (c_hs t) \<Longrightarrow> quiet s (t\<lparr>c_hs := h\<rparr>)"
  by (auto simp: quiet_def hs_ptr_ok_def dest: fixedD(11))

lemma quiet_upd [simp]:
  "quiet s (upd_neigh i f t) \<longleftrightarrow> quiet s t" "quiet s (upd_stats g t) \<longleftrightarrow> quiet s t"
  by (simp_all add: upd_neigh_def upd_stats_def)

lemma quiet_upd_hs [simp]:
  "quiet s t \<Longrightarrow> hs_n (f (c_hs t)) = None \<or> hs_n (f (c_hs t)) = hs_n (c_hs t) \<Longrightarrow> quiet s (upd_hs f t)"
  by (simp add: upd_hs_def)

lemma quiet_foldl:
  assumes "\<And>t x. quiet s t \<Longrightarrow> quiet s (f t x)" "quiet s t"
  shows "quiet s (foldl f t xs)"
  using assms by (induction xs arbitrary: t) auto

lemma quiet_branches [quiet]:
  "quiet s x \<Longrightarrow> quiet s y \<Longrightarrow> quiet s (if b then x else y)"
  "quiet s y \<Longrightarrow> (\<And>v. quiet s (f v)) \<Longrightarrow> quiet s (case a of None \<Rightarrow> y | Some v \<Rightarrow> f v)"
  "(\<And>e. quiet s (g e)) \<Longrightarrow> (\<And>v. quiet s (f v)) \<Longrightarrow> quiet s (case c of Inl e \<Rightarrow> g e | Inr v \<Rightarrow> f v)"
  "quiet s x \<Longrightarrow> quiet s y \<Longrightarrow> quiet s (case b of True \<Rightarrow> x | False \<Rightarrow> y)"
  by (simp_all split: option.split sum.split bool.split)

lemma quiet_branches_snd [quiet]:
  "quiet s (snd x) \<Longrightarrow> quiet s (snd y) \<Longrightarrow> quiet s (snd (if b then x else y))"
  "quiet s (snd y) \<Longrightarrow> (\<And>v. quiet s (snd (f v))) \<Longrightarrow> quiet s (snd (case a of None \<Rightarrow> y | Some v \<Rightarrow> f v))"
  "(\<And>e. quiet s (snd (g e))) \<Longrightarrow> (\<And>v. quiet s (snd (f v))) \<Longrightarrow> quiet s (snd (case c of Inl e \<Rightarrow> g e | Inr v \<Rightarrow> f v))"
  "quiet s (snd x) \<Longrightarrow> quiet s (snd y) \<Longrightarrow> quiet s (snd (case b of True \<Rightarrow> x | False \<Rightarrow> y))"
  by (simp_all split: option.split sum.split bool.split)

lemma quiet_branches_snd2 [quiet]:
  "quiet s (snd (snd x)) \<Longrightarrow> quiet s (snd (snd y)) \<Longrightarrow> quiet s (snd (snd (if b then x else y)))"
  "quiet s (snd (snd y)) \<Longrightarrow> (\<And>v. quiet s (snd (snd (f v)))) \<Longrightarrow> quiet s (snd (snd (case a of None \<Rightarrow> y | Some v \<Rightarrow> f v)))"
  "(\<And>e. quiet s (snd (snd (g e)))) \<Longrightarrow> (\<And>v. quiet s (snd (snd (f v)))) \<Longrightarrow>
    quiet s (snd (snd (case c of Inl e \<Rightarrow> g e | Inr v \<Rightarrow> f v)))"
  "quiet s (snd (snd x)) \<Longrightarrow> quiet s (snd (snd y)) \<Longrightarrow> quiet s (snd (snd (case b of True \<Rightarrow> x | False \<Rightarrow> y)))"
  by (simp_all split: option.split sum.split bool.split)

lemma lg_chan_result_etc_quiet [quiet]:
  assumes "quiet s t"
  shows "quiet s (lg_chan_result a1 a2 t)" "quiet s (lg_chan_noise a3 a4 t)" "quiet s (snd (lg_chan_next_eval t))"
    "quiet s (chan_reeval_step t a5)"
  using assms
  by (simp_all add: lg_chan_result_def lg_chan_noise_def lg_chan_next_eval_def chan_reeval_step_def
    Let_def case_prod_beta quiet split del: if_split)

lemma chan_reeval_loop_quiet [quiet]: "quiet s t \<Longrightarrow> quiet s (chan_reeval_loop t)"
  unfolding chan_reeval_loop_def by (rule quiet_foldl) (simp_all add: quiet)

lemma lg_chan_reevaluate_etc_quiet [quiet]:
  assumes "quiet s t"
  shows "quiet s (snd (lg_chan_reevaluate t))" "quiet s (snd (lg_sec_rand a1 t))"
    "quiet s (snd (snd (lg_sec_encrypt a2 a3 a4 a5 t)))" "quiet s (snd (replay_check a6 a7 t))"
  using assms
  by (simp_all add: lg_chan_reevaluate_def lg_sec_rand_def lg_sec_encrypt_def replay_check_def
    Let_def case_prod_beta quiet split del: if_split)

lemma lg_sec_decrypt_etc_quiet [quiet]:
  assumes "quiet s t"
  shows "quiet s (snd (snd (lg_sec_decrypt a1 a2 a3 t)))" "quiet s (snd (lg_sec_ecdh_keypair t))"
    "quiet s (snd (lg_sec_install_key a4 a5 t))" "quiet s (lg_sec_forget_key a6 t)"
    "quiet s (snd (lg_neigh_alloc a7 t))"
  using assms
  by (simp_all add: lg_sec_decrypt_def lg_sec_ecdh_keypair_def lg_sec_install_key_def lg_sec_forget_key_def
    lg_neigh_alloc_def
    Let_def case_prod_beta quiet split del: if_split)

lemma lg_neigh_free_etc_quiet [quiet]:
  assumes "quiet s t"
  shows "quiet s (lg_neigh_free a1 t)" "quiet s (lg_neigh_update_cost a2 t)"
    "quiet s (lg_neigh_tx_result a3 a4 t)" "quiet s (lg_neigh_rx_rssi a5 a6 t)"
  using assms
  by (simp_all add: lg_neigh_free_def lg_neigh_update_cost_def lg_neigh_tx_result_def lg_neigh_rx_rssi_def
    Let_def case_prod_beta quiet split del: if_split)

lemma lg_notify_quiet [quiet]: "quiet s t \<Longrightarrow> quiet s (lg_notify e p t)"
  by (auto simp: lg_notify_def ring_put_ok)

lemma notify_loop_quiet [quiet]: "quiet s t \<Longrightarrow> quiet s (notify_loop n t)"
  by (induction n t rule: notify_loop.induct)
    (auto simp: notify_take_def ring_drop_contents(1) split: option.splits prod.splits if_splits)

lemma notify_handler_etc_quiet [quiet]:
  assumes "quiet s t"
  shows "quiet s (notify_handler t)" "quiet s (snd (sys_rand32_get t))" "quiet s (upd_pw a1 t)"
  using assms
  by (simp_all add: notify_handler_def sys_rand32_get_def upd_pw_def
    Let_def case_prod_beta quiet split del: if_split)

lemma lg_power_activity_etc_quiet [quiet]:
  assumes "quiet s t"
  shows "quiet s (lg_power_activity a1 t)" "quiet s (lg_power_event_start t)" "quiet s (lg_power_turnaround t)"
    "quiet s (lg_power_charge a2 a3 t)" "quiet s (lg_sched_kick t)" "quiet s (lg_route_init t)"
    "quiet s (clear_parents t)" "quiet s (mark_parent t a4)"
  using assms
  by (simp_all add: lg_power_activity_def lg_power_event_start_def lg_power_turnaround_def lg_power_charge_def
    lg_sched_kick_def lg_route_init_def clear_parents_def mark_parent_def
    Let_def case_prod_beta quiet split del: if_split)

lemma mark_parents_quiet [quiet]: "quiet s t \<Longrightarrow> quiet s (foldl mark_parent t ps)"
  by (rule quiet_foldl) (simp_all add: quiet)

lemma lg_route_recompute_etc_quiet [quiet]:
  assumes "quiet s t"
  shows "quiet s (snd (lg_route_recompute t))" "quiet s (lg_route_add a1 a2 a3 t)"
    "quiet s (lg_route_flush_via a4 t)" "quiet s (snd (lg_route_next_hop a5 a6 t))"
    "quiet s (snd (lg_route_is_duplicate a7 a8 t))" "quiet s (snd (jitter a9 t))"
  using assms
  by (simp_all add: lg_route_recompute_def lg_route_add_def lg_route_flush_via_def lg_route_next_hop_def
    lg_route_is_duplicate_def jitter_def
    Let_def case_prod_beta quiet split del: if_split)

lemma lg_disc_init_etc_quiet [quiet]:
  assumes "quiet s t"
  shows "quiet s (lg_disc_init t)" "quiet s (lg_disc_retune t)"
  using assms
  by (simp_all add: lg_disc_init_def lg_disc_retune_def
    Let_def case_prod_beta quiet split del: if_split)

lemma lg_disc_next_track_us_quiet [quiet]: "quiet s t \<Longrightarrow> quiet s (snd (snd (lg_disc_next_track_us t)))"
proof -
  have "quiet s (snd (snd acc)) \<Longrightarrow> quiet s (snd (snd (foldl next_track_step acc ks)))" for acc ks
  proof (induction ks arbitrary: acc)
    case (Cons k ks)
    obtain b o' u where a: "acc = (b, o', u)" by (cases acc)
    show ?case using Cons by (simp add: a next_track_step_def Let_def)
  qed simp
  then show "quiet s t \<Longrightarrow> ?thesis" by (simp add: lg_disc_next_track_us_def)
qed

lemma lg_disc_track_result_etc_quiet [quiet]:
  assumes "quiet s t"
  shows "quiet s (lg_disc_track_result a1 a2 t)" "quiet s (beacon_stage_copy a3 t a4)"
  using assms
  by (simp_all add: lg_disc_track_result_def beacon_stage_copy_def
    Let_def case_prod_beta quiet split del: if_split)

lemma beacon_copies_quiet [quiet]: "quiet s t \<Longrightarrow> quiet s (foldl (beacon_stage_copy b) t ks)"
  by (rule quiet_foldl) (simp_all add: quiet)

lemma beacon_stage_quiet [quiet]: "quiet s t \<Longrightarrow> quiet s (beacon_stage t)"
  by (simp add: beacon_stage_def Let_def case_prod_beta quiet split del: if_split)

lemma lg_disc_beacon_finish_etc_quiet [quiet]:
  assumes "quiet s t"
  shows "quiet s (lg_disc_beacon_finish t)" "quiet s (lg_disc_scan_finish t)" "quiet s (role_apply a1 t)"
    "quiet s (lg_role_init t)"
  using assms
  by (simp_all add: lg_disc_beacon_finish_def lg_disc_scan_finish_def role_apply_def lg_role_init_def
    Let_def case_prod_beta quiet split del: if_split)

lemma lg_role_evaluate_etc_quiet [quiet]:
  assumes "quiet s t"
  shows "quiet s (lg_role_evaluate t)" "quiet s (lg_role_note_unrouted t)"
  using assms
  by (simp_all add: lg_role_evaluate_def lg_role_note_unrouted_def
    Let_def case_prod_beta quiet split del: if_split)

lemma lg_backhaul_set_etc_quiet [quiet]:
  assumes "quiet s t"
  shows "quiet s (lg_backhaul_set a1 t)" "quiet s (gossip_record a2 a3 t)" "quiet s (gossip_consider_seeking t)"
  using assms
  by (simp_all add: lg_backhaul_set_def gossip_record_def gossip_consider_seeking_def
    Let_def case_prod_beta quiet split del: if_split)

lemma adv_entry_step_quiet [quiet]: "quiet s t \<Longrightarrow> quiet s (adv_entry_step a1 a2 a3 t)"
  by (simp add: adv_entry_step_def Let_def case_prod_beta quiet split del: if_split)

lemma quiet_fold: "(\<And>x t. quiet s t \<Longrightarrow> quiet s (f x t)) \<Longrightarrow> quiet s t \<Longrightarrow> quiet s (fold f xs t)"
  by (induction xs arbitrary: t) auto

lemma adv_entries_quiet [quiet]: "quiet s t \<Longrightarrow> quiet s (fold (adv_entry_step i r) es t)"
  by (rule quiet_fold) (simp_all add: quiet)

lemma reg_entries_quiet [quiet]: "quiet s t \<Longrightarrow> quiet s (fold (\<lambda>a s. lg_route_add a (n_addr (nb s i)) 1 s) es t)"
  by (rule quiet_fold) (simp_all add: quiet)

lemma lg_route_handle_adv_etc_quiet [quiet]:
  assumes "quiet s t"
  shows "quiet s (lg_route_handle_adv a1 a2 a3 t)" "quiet s (lg_route_handle_reg a4 a5 a6 t)"
    "quiet s (lg_tuning_init t)" "quiet s (snd (lg_tuning_set a7 t))" "quiet s (snd (msg_next_hop a8 t))"
  using assms
  by (simp_all add: lg_route_handle_adv_def lg_route_handle_reg_def lg_tuning_init_def lg_tuning_set_def
    msg_next_hop_def
    Let_def case_prod_beta quiet split del: if_split)

lemma peek_quiet: "quiet s (snd acc) \<Longrightarrow> quiet s (snd (foldl (peek_step p) acc ks))"
proof (induction ks arbitrary: acc)
  case (Cons k ks)
  obtain o' u where a: "acc = (o', u)" by (cases acc)
  show ?case using Cons by (simp add: a peek_step_def Let_def case_prod_beta quiet split del: if_split)
qed simp

lemma lg_txq_peek_quiet [quiet]: "quiet s t \<Longrightarrow> quiet s (snd (lg_txq_peek p t))"
  by (simp add: lg_txq_peek_def peek_quiet)

lemma lg_txq_pending_etc_quiet [quiet]:
  assumes "quiet s t"
  shows "quiet s (snd (lg_txq_pending a1 t))" "quiet s (lg_txq_free a2 t)" "quiet s (lg_sched_expedite a3 t)"
    "quiet s (txq_fill a4 a5 a6 a7 a8 a9 a10 a11 a12 t)"
  using assms
  by (simp_all add: lg_txq_pending_def lg_txq_free_def lg_sched_expedite_def txq_fill_def
    Let_def case_prod_beta quiet split del: if_split)

lemma broadcast_loop_quiet [quiet]: "quiet s t \<Longrightarrow> quiet s (snd (broadcast_loop a b c d e f g ks n t))"
  by (induction a b c d e f g ks n t rule: broadcast_loop.induct) (auto simp: quiet split: option.splits)

lemma lg_send_forward_quiet [quiet]: "quiet s t \<Longrightarrow> quiet s (snd (lg_send_forward a1 a2 a3 a4 a5 a6 a7 a8 t))"
  by (simp add: lg_send_forward_def Let_def case_prod_beta quiet split del: if_split)

lemma lg_send_quiet [quiet]: "quiet s t \<Longrightarrow> quiet s (snd (lg_send a1 a2 a3 a4 a5 t))"
  by (simp add: lg_send_def Let_def case_prod_beta quiet split del: if_split)

section \<open>Operations that may not return\<close>

definition quiet_some :: "ctx \<Rightarrow> ctx option \<Rightarrow> bool" where
  "quiet_some s r \<longleftrightarrow> (\<forall>t. r = Some t \<longrightarrow> quiet s t)"

lemma quiet_some_simps [simp]:
  "quiet_some s None" "quiet_some s (Some t) \<longleftrightarrow> quiet s t"
  by (simp_all add: quiet_some_def)

lemma quiet_some_branches [quiet]:
  "quiet_some s x \<Longrightarrow> quiet_some s y \<Longrightarrow> quiet_some s (if b then x else y)"
  "quiet_some s x \<Longrightarrow> (\<And>v. quiet_some s (f v)) \<Longrightarrow> quiet_some s (case a of None \<Rightarrow> x | Some v \<Rightarrow> f v)"
  "quiet_some s x \<Longrightarrow> quiet_some s y \<Longrightarrow> quiet_some s (case b of True \<Rightarrow> x | False \<Rightarrow> y)"
  by (simp_all split: option.split bool.split)

lemma quiet_some_bind [quiet]:
  "quiet_some s m \<Longrightarrow> (\<And>u. quiet s u \<Longrightarrow> quiet_some s (f u)) \<Longrightarrow>
    quiet_some s (case m of None \<Rightarrow> None | Some u \<Rightarrow> f u)"
  by (auto simp: quiet_some_def split: option.splits)

lemma lg_link_window_us_quiet [quiet]: "quiet s t \<Longrightarrow> quiet s (snd (lg_link_window_us a1 t))"
  by (simp add: lg_link_window_us_def Let_def case_prod_beta quiet split del: if_split)

lemma anchor_catch_up_quiet [quiet]: "quiet s t \<Longrightarrow> quiet_some s (anchor_catch_up i t)"
  by (auto simp: anchor_catch_up_def Let_def case_prod_beta quiet split: option.split)

lemma lg_link_next_event_us_quiet: "quiet s t \<Longrightarrow> lg_link_next_event_us i t = Some (w, u) \<Longrightarrow> quiet s u"
  using anchor_catch_up_quiet [of s t i]
  by (auto simp: lg_link_next_event_us_def quiet_some_def split: option.splits if_splits)

lemma lg_link_advance_etc_quiet [quiet]:
  assumes "quiet s t"
  shows "quiet s (lg_link_advance a1 t)" "quiet s (links_changed a2 a3 t)"
  using assms
  by (simp_all add: lg_link_advance_def links_changed_def
    Let_def case_prod_beta quiet split del: if_split)

lemma lg_link_establish_quiet [quiet]: "quiet s t \<Longrightarrow> quiet_some s (lg_link_establish a1 a2 a3 t)"
  by (simp add: lg_link_establish_def Let_def case_prod_beta quiet split del: if_split)

lemma lg_link_down_quiet [quiet]: "quiet s t \<Longrightarrow> quiet s (lg_link_down a1 t)"
  by (simp add: lg_link_down_def Let_def case_prod_beta quiet split del: if_split)

lemma lg_link_event_miss_etc_quiet [quiet]:
  assumes "quiet s t"
  shows "quiet s (lg_link_event_miss a1 t)" "quiet s (snd (lg_neigh_make_room a2 t))"
    "quiet s (snd (stage_put a3 a4 a5 t))"
  using assms
  by (simp_all add: lg_link_event_miss_def lg_neigh_make_room_def stage_put_def
    Let_def case_prod_beta quiet split del: if_split)

lemma stage_data_quiet [quiet]: "quiet s t \<Longrightarrow> quiet s (snd (snd (stage_data a1 t)))"
  by (simp add: stage_data_def Let_def case_prod_beta quiet split del: if_split)

lemma stage_frame_quiet [quiet]: "quiet s t \<Longrightarrow> quiet s (snd (snd (stage_frame a1 t)))"
  by (simp add: stage_frame_def Let_def case_prod_beta quiet split del: if_split)

lemma lg_link_stage_tx_etc_quiet [quiet]:
  assumes "quiet s t"
  shows "quiet s (snd (lg_link_stage_tx a1 t))" "quiet s (subrate_update a2 t)"
  using assms
  by (simp_all add: lg_link_stage_tx_def subrate_update_def
    Let_def case_prod_beta quiet split del: if_split)

lemma lg_link_event_finish_etc_quiet [quiet]:
  assumes "quiet s t"
  shows "quiet s (lg_link_event_finish a1 t)" "quiet s (handle_ctrl a2 a3 a4 t)" "quiet s (msg_dropped t)"
  using assms
  by (simp_all add: lg_link_event_finish_def handle_ctrl_def msg_dropped_def
    Let_def case_prod_beta quiet split del: if_split)

lemma forward_send_quiet [quiet]: "quiet s t \<Longrightarrow> quiet s (forward_send a1 a2 a3 t)"
  by (simp add: forward_send_def Let_def case_prod_beta quiet split del: if_split)

lemma forward_data_quiet [quiet]: "quiet s t \<Longrightarrow> quiet s (forward_data a1 a2 t)"
  by (simp add: forward_data_def Let_def case_prod_beta quiet split del: if_split)

lemma handle_data_quiet [quiet]: "quiet s t \<Longrightarrow> quiet s (handle_data a1 a2 a3 a4 t)"
  by (simp add: handle_data_def Let_def case_prod_beta quiet split del: if_split)

lemma lg_link_rx_frame_quiet [quiet]: "quiet s t \<Longrightarrow> quiet s (lg_link_rx_frame a1 a2 a3 a4 a5 t)"
  by (simp add: lg_link_rx_frame_def Let_def case_prod_beta quiet split del: if_split)

section \<open>The handshake\<close>

lemma and_then_quiet [quiet]:
  "quiet s (snd m) \<Longrightarrow> (\<And>a u. quiet s u \<Longrightarrow> quiet s (snd (f a u))) \<Longrightarrow> quiet s (snd (and_then m f))"
  by (cases m) (auto simp: and_then_def split: sum.split)

lemma hs_zero_n [simp]: "hs_n hs_zero = None"
  by (simp add: hs_zero_def)

lemma length_if: "length (c_neigh x) = length (c_neigh y) \<Longrightarrow> length (c_neigh (if b then x else y)) = length (c_neigh y)"
  by simp

lemma derive_keys_etc_quiet [quiet]:
  assumes "quiet s t"
  shows "quiet s (snd (derive_keys a1 a2 a3 t))" "quiet s (snd (derive_resume_key a4 a5 t))"
    "quiet s (snd (link_params_fill t))" "quiet s (hs_put a6 t)" "quiet s (stage_message a7 a8 a9 t)"
    "quiet s (snd (snd (build_fragment a10 a11 t)))"
  using assms
  by (simp_all add: derive_keys_def derive_resume_key_def link_params_fill_def hs_put_def stage_message_def
    build_fragment_def
    Let_def case_prod_beta quiet split del: if_split)

lemma reassemble_body_hs_n: "hs_n (snd (reassemble_body ty cap body h)) = hs_n h"
  by (simp add: reassemble_body_def rx_reset_def Let_def)

lemma reassemble_quiet [quiet]: "quiet s t \<Longrightarrow> quiet s (snd (reassemble i pdu len t))"
  by (simp add: reassemble_def Let_def case_prod_beta quiet reassemble_body_hs_n split del: if_split)

lemma join_fail_etc_quiet [quiet]:
  assumes "quiet s t"
  shows "quiet s (join_fail a1 t)" "quiet s (snd (fresh_keys a2 t))"
  using assms
  by (simp_all add: join_fail_def fresh_keys_def
    Let_def case_prod_beta quiet split del: if_split)

lemma build_join_req_etc_quiet [quiet]:
  assumes "quiet s t"
  shows "quiet s (snd (build_join_req a1 t))" "quiet s (store_peer a2 a3 a4 a5 t)"
  using assms
  by (simp_all add: build_join_req_def store_peer_def
    Let_def case_prod_beta quiet split del: if_split)

lemma handle_join_req_etc_quiet [quiet]:
  assumes "quiet s t"
  shows "quiet s (snd (handle_join_req a1 a2 t))" "quiet s (snd (handle_join_rsp a3 a4 t))"
    "quiet s (stage_params a5 t)"
  using assms
  by (simp_all add: handle_join_req_def handle_join_rsp_def stage_params_def
    Let_def case_prod_beta quiet split del: if_split)

lemma handle_join_cfm_etc_quiet [quiet]:
  assumes "quiet s t"
  shows "quiet s (snd (handle_join_cfm a1 a2 t))" "quiet s (snd (build_resume_req a3 t))"
    "quiet s (snd (handle_resume_req a4 a5 t))"
  using assms
  by (simp_all add: handle_join_cfm_def build_resume_req_def handle_resume_req_def
    Let_def case_prod_beta quiet split del: if_split)

lemma quiet_hs_start:
  "quiet s t \<Longrightarrow> hs_ptr_ok h (length (c_neigh t)) \<Longrightarrow> quiet s (t\<lparr>c_hs := h\<rparr>)"
  by (auto simp: quiet_def dest: fixedD(11))

lemma lg_join_start_quiet [quiet]: "i < length (c_neigh t) \<Longrightarrow> quiet s t \<Longrightarrow> quiet s (snd (lg_join_start i t))"
  by (simp add: lg_join_start_def Let_def case_prod_beta quiet quiet_hs_start hs_ptr_ok_def length_if split del: if_split)

lemma join_establish_router_quiet [quiet]: "quiet s t \<Longrightarrow> quiet_some s (join_establish_router a1 t)"
  by (simp add: join_establish_router_def Let_def case_prod_beta quiet split del: if_split)

lemma slot_settle_n [simp]: "hs_n (slot_settle k h) = hs_n h"
  by (simp add: slot_settle_def Let_def)

lemma lg_join_event_finish_quiet [quiet]: "quiet s t \<Longrightarrow> quiet_some s (lg_join_event_finish t)"
  by (simp add: lg_join_event_finish_def Let_def case_prod_beta quiet split del: if_split)

lemma joiner_entry_quiet [quiet]: "quiet s t \<Longrightarrow> quiet s (snd (joiner_entry a1 t))"
  by (simp add: joiner_entry_def Let_def case_prod_beta quiet split del: if_split)

lemma fixed_rx_ring [simp]: "fixed (t\<lparr>c_rx_ring := r\<rparr>) = fixed t"
  by (simp add: fixed_def)

lemma rx_put_grows:
  assumes "\<not> ring_full r" "\<And>rec. length (rx_pdu rec) = LG_PDU_MAX \<Longrightarrow> length (rx_pdu (f rec)) = LG_PDU_MAX"
  shows "rx_grows r (ring_put f r)"
proof -
  have "rx_bufs (ring_put f r)" "rg_tail (ring_put f r) \<noteq> rg_head (ring_put f r)" if "rx_bufs r"
  proof -
    have r: "ring_ok r" "\<forall>rec\<in>set (rg_buf r). length (rx_pdu rec) = LG_PDU_MAX" using that by (simp_all add: rx_bufs_def)
    have "ring_ok (ring_put f r)" by (rule ring_put_ok [OF r(1) assms(1)])
    moreover have "length (rx_pdu (rg_buf r ! ring_slot (rg_head r))) = LG_PDU_MAX" using r by (simp add: ring_ok_def)
    then have "\<forall>rec\<in>set (rg_buf (ring_put f r)). length (rx_pdu rec) = LG_PDU_MAX"
      using r(2) assms(2) by (auto simp: ring_put_def Let_def dest: set_update_subset_insert [THEN subsetD])
    ultimately show "rx_bufs (ring_put f r)" by (simp add: rx_bufs_def)
    have "unat (ring_used (ring_put f r)) = Suc (unat (ring_used r))" by (rule ring_used_put [OF assms(1)])
    then have "ring_used (ring_put f r) \<noteq> 0" by (auto simp: unat_eq_0)
    then show "rg_tail (ring_put f r) \<noteq> rg_head (ring_put f r)" by (auto simp: ring_used_def)
  qed
  then show ?thesis by (simp add: rx_grows_def)
qed

lemma lg_rx_post_quiet [quiet]:
  assumes "quiet s t"
  shows "quiet s (lg_rx_post pdu len rssi chan air t)"
proof (cases "LG_PDU_MAX < len \<or> ring_full (c_rx_ring t)")
  case False
  then have "rx_grows (c_rx_ring t) (c_rx_ring (lg_rx_post pdu len rssi chan air t))"
    by (auto simp: lg_rx_post_def intro!: rx_put_grows)
  with assms False show ?thesis by (auto simp: lg_rx_post_def quiet_def intro: rx_grows_trans)
qed (use assms in \<open>simp add: lg_rx_post_def\<close>)

lemma find_idx_less: "find_idx P xs = Some i \<Longrightarrow> i < length xs"
  by (auto dest: find_idx_SomeD)

lemma lg_neigh_find_less: "lg_neigh_find a s = Some i \<Longrightarrow> i < length (c_neigh s)"
  by (auto simp: lg_neigh_find_def dest: find_idx_less split: if_splits)

lemma lg_neigh_alloc_less: "lg_neigh_alloc a s = (Some i, t) \<Longrightarrow> i < length (c_neigh t)"
  by (auto simp: lg_neigh_alloc_def dest: lg_neigh_find_less find_idx_less split: option.splits if_splits)

lemma joiner_entry_less: "joiner_entry a s = (Some i, t) \<Longrightarrow> i < length (c_neigh t)"
  by (auto simp: joiner_entry_def dest: lg_neigh_alloc_less split: option.splits prod.splits)

lemma join_accept_quiet [quiet]: "quiet s t \<Longrightarrow> quiet s (snd (join_accept ty src air t))"
  using joiner_entry_quiet [of s t src] joiner_entry_less [of src t]
  by (auto simp: join_accept_def hs_ptr_ok_def intro!: quiet_hs_start split: option.split prod.split)

lemma join_establish_joiner_quiet [quiet]: "quiet s t \<Longrightarrow> quiet_some s (join_establish_joiner a1 a2 t)"
  by (simp add: join_establish_joiner_def Let_def case_prod_beta quiet split del: if_split)

lemma join_message_quiet [quiet]: "quiet s t \<Longrightarrow> quiet_some s (join_message a1 a2 a3 t)"
  by (simp add: join_message_def Let_def case_prod_beta quiet split del: if_split)

lemma lg_join_rx_pdu_quiet [quiet]: "quiet s t \<Longrightarrow> quiet_some s (lg_join_rx_pdu a1 a2 a3 a4 t)"
  by (simp add: lg_join_rx_pdu_def Let_def case_prod_beta quiet split del: if_split)

lemma beacon_parse_etc_quiet [quiet]:
  assumes "quiet s t"
  shows "quiet s (snd (beacon_parse a1 a2 t))" "quiet s (beacon_note a3 a4 t)" "quiet s (join_aim a5 a6 a7 t)"
  using assms
  by (simp_all add: beacon_parse_def beacon_note_def join_aim_def
    Let_def case_prod_beta quiet split del: if_split)

lemma dispatch_secured_quiet [quiet]: "quiet s t \<Longrightarrow> quiet s (dispatch_secured a1 a2 a3 t)"
  by (simp add: dispatch_secured_def Let_def case_prod_beta quiet split del: if_split)

end
