(* ===== verification/LG_Node.thy ===== *)
theory LG_Node
  imports LG_Quiet
begin

text \<open>
  The node as one transition system: the work queue runs a pending item, the arbiter grants or refuses
  the pending request, the radio reports, time passes, the application calls. Two invariants hold in
  every state that can be reached: the data structures keep the sizes they are declared with and every
  stored index points into its table (\<open>types_ok\<close>), and event, arbiter and radio agree while somebody is
  always due to take the next step (\<open>control_ok\<close>).
\<close>

section \<open>The scheduler is quiet up to its event\<close>

lemma neigh_candidate_quiet:
  assumes "neigh_candidate i (cs, t) = Some (cs', u)" "quiet s t"
  shows "quiet s u"
  using assms by (auto simp: neigh_candidate_def split: neigh_state.splits option.splits dest: lg_link_next_event_us_quiet)

lemma neigh_candidates_quiet:
  "neigh_candidates is (cs, t) = Some (cs', u) \<Longrightarrow> quiet s t \<Longrightarrow> quiet s u"
proof (induction "is" arbitrary: cs t)
  case (Cons i "is")
  then obtain cs1 t1 where 1: "neigh_candidate i (cs, t) = Some (cs1, t1)" "neigh_candidates is (cs1, t1) = Some (cs', u)"
    by (auto split: option.splits)
  show ?case by (rule Cons.IH [OF 1(2) neigh_candidate_quiet [OF 1(1) Cons.prems(2)]])
qed simp

lemma own_candidates_quiet: "quiet s t \<Longrightarrow> quiet s (snd (own_candidates cs t))"
  by (simp add: own_candidates_def Let_def case_prod_beta quiet)

lemma drop_late_quiet [quiet]: "quiet s t \<Longrightarrow> quiet_some s (drop_late c t)"
  by (simp add: drop_late_def quiet split: ev_kind.split option.split)

lemma stage_for_quiet: "quiet s t \<Longrightarrow> quiet s (snd (stage_for c t))"
  by (simp add: stage_for_def resubmit_def case_prod_beta quiet split: ev_kind.split option.split)

lemma chan_eval_finish_quiet [quiet]: "quiet s t \<Longrightarrow> quiet s (chan_eval_finish t)"
  by (simp add: chan_eval_finish_def Let_def case_prod_beta quiet split del: if_split)

lemma finish_event_quiet [quiet]: "quiet s t \<Longrightarrow> quiet_some s (finish_event t)"
  by (simp add: finish_event_def quiet split: ev_kind.split option.split)

section \<open>What the handlers of the arbiter and the radio do\<close>

text \<open>A command to the radio: accepted, and the radio is busy, or refused.\<close>

definition radio_try :: "ctx \<Rightarrow> bool \<times> ctx \<Rightarrow> bool" where
  "radio_try s r \<longleftrightarrow> (if fst r then \<exists>u. quiet s u \<and> snd r = u\<lparr>c_phy_busy := True\<rparr> else quiet s (snd r))"

text \<open>A handler ends its event or leaves the radio busy; besides, it is quiet.\<close>

definition acted :: "ctx \<Rightarrow> ctx \<Rightarrow> bool" where
  "acted s t \<longleftrightarrow> (\<exists>u. quiet s u \<and> (t = lg_sched_event_done u \<or> t = u\<lparr>c_phy_busy := True\<rparr>))"

lemma phy_call_try:
  assumes "quiet s t"
  shows "radio_try s (phy_call c t)"
proof (cases "c_phy_ok t c")
  case True
  then have "snd (phy_call c t) = (t\<lparr>c_radio := c_radio t @ [c]\<rparr>)\<lparr>c_phy_busy := True\<rparr>" by (simp add: phy_call_def)
  moreover have "quiet s (t\<lparr>c_radio := c_radio t @ [c]\<rparr>)" using assms by simp
  ultimately have "\<exists>u. quiet s u \<and> snd (phy_call c t) = u\<lparr>c_phy_busy := True\<rparr>" by blast
  with True show ?thesis by (simp add: radio_try_def phy_call_def)
next
  case False
  then have "snd (phy_call c t) = t\<lparr>c_radio := c_radio t @ [c]\<rparr>" by (simp add: phy_call_def)
  with False assms show ?thesis by (simp add: radio_try_def phy_call_def)
qed

lemma radio_try_calls [quiet]:
  "quiet s t \<Longrightarrow> radio_try s (lg_phy_tx_at a c p l t)"
  "quiet s t \<Longrightarrow> radio_try s (lg_phy_rx_window o1 o2 c t)"
  "quiet s t \<Longrightarrow> radio_try s (False, t)"
  "radio_try s x \<Longrightarrow> radio_try s y \<Longrightarrow> radio_try s (if b then x else y)"
  by (simp_all add: lg_phy_tx_at_def lg_phy_rx_window_def phy_call_try radio_try_def [of s "(False, t)"])

lemma acted_done [quiet]: "quiet s t \<Longrightarrow> acted s (lg_sched_event_done t)"
  by (auto simp: acted_def)

lemma acted_try [quiet]:
  assumes "radio_try s r" "\<And>t. quiet s t \<Longrightarrow> acted s (g t)"
  shows "acted s (case fst r of True \<Rightarrow> snd r | False \<Rightarrow> g (snd r))"
  using assms by (auto simp: radio_try_def acted_def split: bool.split if_splits)

lemma acted_try_prod [quiet]:
  assumes "radio_try s r" "\<And>t. quiet s t \<Longrightarrow> acted s (g t)"
  shows "acted s (case r of (True, t) \<Rightarrow> t | (False, t) \<Rightarrow> g t)"
  using acted_try [OF assms] by (simp add: case_prod_beta)

lemma acted_branches [quiet]:
  "acted s x \<Longrightarrow> acted s y \<Longrightarrow> acted s (if b then x else y)"
  "acted s y \<Longrightarrow> (\<And>v. acted s (f v)) \<Longrightarrow> acted s (case a of None \<Rightarrow> y | Some v \<Rightarrow> f v)"
  by (simp_all split: option.split)

lemma send_try [quiet]:
  "quiet s t \<Longrightarrow> radio_try s (send_copy i at_us t)" "quiet s t \<Longrightarrow> radio_try s (send_fragment i k at_us t)"
  by (simp_all add: send_copy_def send_fragment_def case_prod_beta Let_def quiet split del: if_split)

lemma scan_continue_acts [quiet]: "quiet s t \<Longrightarrow> acted s (scan_continue t)"
  by (simp add: scan_continue_def Let_def case_prod_beta quiet split del: if_split)

lemma start_acts:
  assumes "quiet s t"
  shows "acted s (beacon_start t)" "acted s (scan_start t)" "acted s (track_start t)" "acted s (join_tx_start t)"
    "acted s (join_rx_start t)" "acted s (chan_eval_start noise t)" "ev_neigh (c_ev t) = Some i \<Longrightarrow> acted s (link_start t)"
  using assms
  by (simp_all add: beacon_start_def scan_start_def track_start_def join_tx_start_def join_rx_start_def
    chan_eval_start_def link_start_def Let_def case_prod_beta quiet split del: if_split)

lemma beacon_close_acts [quiet]: "quiet s t \<Longrightarrow> acted s (beacon_close a t)"
  by (simp add: beacon_close_def quiet split del: if_split)

lemma tx_done_acts:
  assumes "quiet s t"
  shows "acted s (beacon_tx_done a t)" "acted s (join_tx_done a t)" "acted s (link_tx_done a t)"
  using assms
  by (simp_all add: beacon_tx_done_def join_tx_done_def link_tx_done_def Let_def quiet split del: if_split)

lemma rx_done_acts:
  assumes "quiet s t"
  shows "acted s (scan_rx_done rx t)" "acted s (track_rx_done rx t)" "acted s (join_rx_done rx t)"
    "ev_neigh (c_ev t) = Some i \<Longrightarrow> acted s (link_rx_done rx t)"
  using assms
  by (simp_all add: scan_rx_done_def track_rx_done_def join_rx_done_def link_rx_done_def Let_def case_prod_beta quiet
    split del: if_split)

lemma rx_fail_acts:
  assumes "quiet s t"
  shows "acted s (scan_rx_fail r t)" "acted s (track_rx_fail r t)" "acted s (join_rx_fail r t)" "acted s (beacon_rx_fail r t)"
    "ev_neigh (c_ev t) = Some i \<Longrightarrow> acted s (link_rx_fail r t)"
  using assms
  by (simp_all add: scan_rx_fail_def track_rx_fail_def join_rx_fail_def beacon_rx_fail_def link_rx_fail_def Let_def quiet
    split: phy_rx_fail.split split del: if_split)

lemma aborted_quiet: "quiet s t \<Longrightarrow> quiet s (ev_aborted t)"
  by (simp add: ev_aborted_def link_aborted_def beacon_aborted_def scan_aborted_def track_aborted_def join_aborted_def
    chan_eval_aborted_def quiet split: ev_kind.split option.split)

section \<open>The invariants\<close>

definition ptr_ok :: "nat \<Rightarrow> nat option \<Rightarrow> bool" where
  "ptr_ok n p \<longleftrightarrow> (case p of None \<Rightarrow> True | Some i \<Rightarrow> i < n)"

lemma ptr_ok_simps [simp]: "ptr_ok n None" "ptr_ok n (Some i) \<longleftrightarrow> i < n"
  by (simp_all add: ptr_ok_def)

text \<open>Every table has its size, every ring its buffers, and every stored pointer is to an entry.\<close>

definition types_ok :: "ctx \<Rightarrow> bool" where
  "types_ok s \<longleftrightarrow> tables_ok s \<and> length (c_beacon_copy s) = LG_RDV_SLOTS \<and> rx_bufs (c_rx_ring s) \<and>
     ring_ok (c_notify_ring s) \<and> hs_ptr_ok (c_hs s) (cfg_max_neighbors (c_cfg s)) \<and>
     ptr_ok (cfg_max_neighbors (c_cfg s)) (c_finish_neigh s) \<and> ptr_ok (cfg_max_neighbors (c_cfg s)) (ev_neigh (c_ev s))"

text \<open>Event, arbiter and radio agree: no event, and the radio free; an event waiting for its slot; or an
  event that has its slot and the radio working for it.\<close>

definition control_ok :: "ctx \<Rightarrow> bool" where
  "control_ok s \<longleftrightarrow> c_started s = c_running s \<and> (\<not> c_running s \<longrightarrow> \<not> ts_req_pending (c_ts s)) \<and>
     (if ev_kind (c_ev s) = LG_EV_NONE then \<not> ts_is_granted (c_ts s) \<and> \<not> c_phy_busy s
      else c_running s \<and> (ev_kind (c_ev s) = LG_EV_LINK \<longrightarrow> ev_neigh (c_ev s) \<noteq> None) \<and>
        (if ts_is_granted (c_ts s) then c_phy_busy s \<and> \<not> ts_req_pending (c_ts s)
         else \<not> c_phy_busy s \<and> ts_req_pending (c_ts s)))"

text \<open>A running node without an event will run its scheduler again.\<close>

definition awake :: "ctx \<Rightarrow> bool" where
  "awake s \<longleftrightarrow> (c_running s \<and> ev_kind (c_ev s) = LG_EV_NONE \<longrightarrow> c_work_sched s \<or> c_work_finish s \<or> c_idle_armed s)"

lemma quiet_types:
  assumes "quiet s t" "types_ok s"
  shows "types_ok t"
proof -
  have "fixed t = fixed s" using assms(1) by (simp add: quiet_def)
  note same = fixedD [OF this]
  have n: "length (c_neigh s) = cfg_max_neighbors (c_cfg s)" "tables_ok s" using assms(2) by (simp_all add: types_ok_def tables_ok_def)
  have "tables_ok t" using assms(1) n(2) by (simp add: tables_ok_def same quiet_def)
  moreover have "rx_bufs (c_rx_ring t)" "ring_ok (c_notify_ring t)" "hs_ptr_ok (c_hs t) (cfg_max_neighbors (c_cfg t))"
    using assms n(1) unfolding quiet_def types_ok_def rx_grows_def by (simp_all add: same)
  ultimately show ?thesis using assms(2) by (simp add: types_ok_def same)
qed

lemma quiet_length: "quiet s t \<Longrightarrow> length (c_neigh t) = length (c_neigh s)"
  using fixedD(11) [of t s] by (simp add: quiet_def)

lemma quiet_control: "quiet s t \<Longrightarrow> control_ok t = control_ok s"
  using fixedD [of t s] by (simp add: control_ok_def quiet_def)

lemma quiet_awake: "quiet s t \<Longrightarrow> awake s \<Longrightarrow> awake t"
  using fixedD [of t s] by (auto simp: awake_def quiet_def)

text \<open>The fields the invariants do not look at.\<close>

lemma types_updates [simp]:
  "types_ok (s\<lparr>c_ts := a\<rparr>) = types_ok s" "types_ok (s\<lparr>c_phy_busy := b\<rparr>) = types_ok s"
  "types_ok (s\<lparr>c_radio := r\<rparr>) = types_ok s" "types_ok (s\<lparr>c_work_sched := b\<rparr>) = types_ok s"
  "types_ok (s\<lparr>c_work_finish := b\<rparr>) = types_ok s" "types_ok (s\<lparr>c_idle_armed := b\<rparr>) = types_ok s"
  "types_ok (s\<lparr>c_work_rx := b\<rparr>) = types_ok s" "types_ok (s\<lparr>c_work_notify := b\<rparr>) = types_ok s"
  "types_ok (s\<lparr>c_now := n\<rparr>) = types_ok s" "types_ok (s\<lparr>c_phy_ok := p\<rparr>) = types_ok s"
  "types_ok (s\<lparr>c_finish_kind := k\<rparr>) = types_ok s" "types_ok (s\<lparr>c_running := b\<rparr>) = types_ok s"
  "types_ok (s\<lparr>c_started := b\<rparr>) = types_ok s" "types_ok (s\<lparr>c_cb_rx := b\<rparr>) = types_ok s"
  "types_ok (s\<lparr>c_cb_evt := b\<rparr>) = types_ok s"
  by (simp_all add: types_ok_def tables_ok_def)

lemma control_updates [simp]:
  "control_ok (s\<lparr>c_finish_kind := k\<rparr>) = control_ok s" "control_ok (s\<lparr>c_finish_neigh := p\<rparr>) = control_ok s"
  by (simp_all add: control_ok_def)

lemma types_event [simp]: "types_ok (s\<lparr>c_ev := (c_ev s)\<lparr>ev_kind := k\<rparr>\<rparr>) = types_ok s"
  by (simp add: types_ok_def tables_ok_def)

lemma types_set_none [simp]: "types_ok (set_ev_none s) = types_ok s"
  by (simp add: set_ev_none_def)

lemma types_set_event:
  "types_ok s \<Longrightarrow> ptr_ok (length (c_neigh s)) (ev_neigh e) \<Longrightarrow> types_ok (s\<lparr>c_ev := e\<rparr>)"
  "types_ok s \<Longrightarrow> ptr_ok (length (c_neigh s)) p \<Longrightarrow> types_ok (s\<lparr>c_finish_neigh := p\<rparr>)"
  by (simp_all add: types_ok_def tables_ok_def)

section \<open>Ending an event\<close>

lemma event_done_types: "types_ok s \<Longrightarrow> types_ok (lg_sched_event_done s)"
  by (simp add: types_ok_def tables_ok_def lg_sched_event_done_def lg_phy_stop_def lg_ts_release_def upd_ts_def Let_def)

lemma event_done_control:
  assumes "c_started s = c_running s" "\<not> c_running s \<longrightarrow> \<not> ts_req_pending (c_ts s)"
  shows "control_ok (lg_sched_event_done s) \<and> awake (lg_sched_event_done s)"
  using assms
  by (simp add: control_ok_def awake_def lg_sched_event_done_def lg_phy_stop_def lg_ts_release_def upd_ts_def Let_def)

text \<open>A handler that runs while the event has its slot.\<close>

definition in_slot :: "ctx \<Rightarrow> bool" where
  "in_slot s \<longleftrightarrow> c_running s \<and> c_started s \<and> ev_kind (c_ev s) \<noteq> LG_EV_NONE \<and> ts_is_granted (c_ts s) \<and>
     \<not> ts_req_pending (c_ts s) \<and> (ev_kind (c_ev s) = LG_EV_LINK \<longrightarrow> ev_neigh (c_ev s) \<noteq> None)"

lemma acted_ok:
  assumes "acted s t" "types_ok s" "in_slot s"
  shows "types_ok t \<and> control_ok t \<and> awake t"
proof -
  obtain u where u: "quiet s u" "t = lg_sched_event_done u \<or> t = u\<lparr>c_phy_busy := True\<rparr>" using assms(1) by (auto simp: acted_def)
  have ty: "types_ok u" by (rule quiet_types [OF u(1) assms(2)])
  have f: "fixed u = fixed s" using u(1) by (simp add: quiet_def)
  from u(2) show ?thesis
  proof
    assume t: "t = lg_sched_event_done u"
    show ?thesis using event_done_types [OF ty] event_done_control [of u] assms(3) fixedD [OF f]
      by (simp add: t in_slot_def)
  next
    assume "t = u\<lparr>c_phy_busy := True\<rparr>"
    then show ?thesis using ty assms(3) fixedD [OF f] by (simp add: control_ok_def awake_def in_slot_def)
  qed
qed

section \<open>Picking the next event\<close>

definition points_in :: "nat \<Rightarrow> candidate list \<Rightarrow> bool" where
  "points_in n cs \<longleftrightarrow> list_all (\<lambda>c. ptr_ok n (cd_neigh c)) cs"

lemma add_candidate_points: "points_in n cs \<Longrightarrow> ptr_ok n p \<Longrightarrow> points_in n (add_candidate s k a p q cs)"
  by (simp add: points_in_def add_candidate_def)

lemma neigh_candidate_points:
  "neigh_candidate i (cs, s) = Some (cs', s') \<Longrightarrow> i < n \<Longrightarrow> points_in n cs \<Longrightarrow> points_in n cs'"
  by (auto simp: neigh_candidate_def intro: add_candidate_points split: neigh_state.splits option.splits)

lemma neigh_candidates_points:
  "neigh_candidates is (cs, s) = Some (cs', s') \<Longrightarrow> \<forall>i\<in>set is. i < n \<Longrightarrow> points_in n cs \<Longrightarrow> points_in n cs'"
proof (induction "is" arbitrary: cs s)
  case (Cons i "is")
  then obtain cs1 s1 where 1: "neigh_candidate i (cs, s) = Some (cs1, s1)" "neigh_candidates is (cs1, s1) = Some (cs', s')"
    by (auto split: option.splits)
  from Cons.prems neigh_candidate_points [OF 1(1)] show ?case by (auto intro: Cons.IH [OF 1(2)])
qed simp

lemma tracked_points:
  assumes "lg_disc_next_track_us s = (a, p, t)"
  shows "ptr_ok (length (c_neigh s)) p"
proof -
  have "ptr_ok n (fst (snd acc)) \<Longrightarrow> \<forall>i\<in>set ks. i < n \<Longrightarrow> ptr_ok n (fst (snd (foldl next_track_step acc ks)))" for n acc ks
  proof (induction ks arbitrary: acc)
    case (Cons k ks)
    obtain b o' u where a: "acc = (b, o', u)" by (cases acc)
    show ?case using Cons by (simp add: a next_track_step_def Let_def)
  qed simp
  from this [of "length (c_neigh s)" "(UINT64_MAX, None, s)" "[0..<length (c_neigh s)]"] assms show ?thesis
    by (simp add: lg_disc_next_track_us_def)
qed

lemma own_candidates_points:
  assumes "own_candidates cs s = (cs', s')" "points_in (length (c_neigh s)) cs"
  shows "points_in (length (c_neigh s)) cs'"
proof -
  obtain a p t where tr: "lg_disc_next_track_us s = (a, p, t)" by (metis prod.exhaust)
  from tracked_points [OF tr] assms tr show ?thesis by (auto simp: own_candidates_def Let_def add_candidate_points)
qed

text \<open>The plan of an event and the request for it.\<close>

lemma event_plan_effect:
  assumes "proper c"
  shows "quiet (s\<lparr>c_ev := c_ev (event_plan c s)\<rparr>) (event_plan c s) \<and> ev_neigh (c_ev (event_plan c s)) = cd_neigh c"
proof (cases "cd_kind c")
  case LG_EV_LINK
  then obtain i where "cd_neigh c = Some i" using assms by (auto simp: proper_def)
  with LG_EV_LINK show ?thesis
    by (simp add: event_plan_def Let_def case_prod_beta lg_link_window_us_def upd_neigh_def quiet_def fixed_def)
next
  case LG_EV_CHAN_EVAL
  have "lg_chan_next_eval s = (fst (lg_chan_next_eval s), snd (lg_chan_next_eval s))" by simp
  moreover have "\<exists>x. snd (lg_chan_next_eval s) = s\<lparr>c_chan_eval_next := x\<rparr>"
    by (auto simp: lg_chan_next_eval_def Let_def split: option.split)
  ultimately show ?thesis using LG_EV_CHAN_EVAL
    by (auto simp: event_plan_def Let_def case_prod_beta quiet_def fixed_def)
qed (use assms in \<open>auto simp: event_plan_def Let_def proper_def event_zero_def quiet_def fixed_def\<close>)

lemma ts_request_frame:
  assumes "lg_ts_request a l s = (r, t)"
  shows "quiet (s\<lparr>c_ts := c_ts t\<rparr>) t \<and> ts_is_granted (c_ts t) = ts_is_granted (c_ts s)"
  using assms
  by (auto simp: lg_ts_request_def refuse_request_def sys_rand32_get_def upd_ts_def Let_def quiet_def fixed_def
    split: if_splits prod.splits)

text \<open>A running node with nothing under way.\<close>

definition at_rest :: "ctx \<Rightarrow> bool" where
  "at_rest s \<longleftrightarrow> c_running s \<and> c_started s \<and> ev_kind (c_ev s) = LG_EV_NONE \<and> \<not> ts_is_granted (c_ts s) \<and> \<not> c_phy_busy s"

lemma quiet_at_rest: "quiet s t \<Longrightarrow> at_rest t = at_rest s"
  using fixedD [of t s] by (simp add: at_rest_def quiet_def)

lemma resubmit_ok:
  assumes "at_rest s" "types_ok s"
  shows "types_ok (resubmit s) \<and> control_ok (resubmit s) \<and> awake (resubmit s)"
  using assms by (simp add: resubmit_def control_ok_def awake_def at_rest_def)

lemma run_candidate_ok:
  assumes "run_candidate c s = Some t" "proper c" "ptr_ok (length (c_neigh s)) (cd_neigh c)" "types_ok s" "at_rest s"
  shows "types_ok t \<and> control_ok t \<and> awake t"
proof -
  define p where "p = event_plan c s"
  note plan = event_plan_effect [OF assms(2), of s, folded p_def]
  have kind: "ev_kind (c_ev p) = cd_kind c" "cd_kind c \<noteq> LG_EV_NONE" "cd_kind c = LG_EV_LINK \<longrightarrow> ev_neigh (c_ev p) \<noteq> None"
    using event_plan_kind [OF assms(2), of s] assms(2) plan by (simp_all add: p_def proper_def)
  have ty: "types_ok p"
    by (rule quiet_types [OF plan [THEN conjunct1] types_set_event(1) [OF assms(4)]]) (use assms(3) plan in simp)
  have "fixed p = fixed (s\<lparr>c_ev := c_ev p\<rparr>)" using plan by (simp add: quiet_def)
  note same = fixedD [OF this]
  have rest: "at_rest (set_ev_none p)" using assms(5) same by (simp add: at_rest_def set_ev_none_def)
  show ?thesis
  proof (cases "ev_at_us (c_ev p) < c_now p + LG_SCHED_MIN_HORIZON_US")
    case True
    then obtain u where u: "drop_late c (set_ev_none p) = Some u" "t = resubmit u"
      using assms(1) by (auto simp: run_candidate_def Let_def p_def split: option.splits)
    have "quiet (set_ev_none p) u" using drop_late_quiet [of "set_ev_none p" "set_ev_none p" c] u(1) by (simp add: quiet_some_def)
    then show ?thesis unfolding u(2) using rest ty
      by (intro resubmit_ok) (simp_all add: quiet_at_rest quiet_types [of "set_ev_none p"] set_ev_none_def [of p])
  next
    case False
    obtain r u where req: "lg_ts_request (ev_at_us (c_ev p)) (ev_len_us (c_ev p)) p = (r, u)" by (rule prod.exhaust)
    note fr = ts_request_frame [OF req]
    have "fixed u = fixed (p\<lparr>c_ts := c_ts u\<rparr>)" using fr by (simp add: quiet_def)
    note same' = fixedD [OF this]
    have ty': "types_ok u" by (rule quiet_types [OF fr [THEN conjunct1]]) (simp add: ty)
    show ?thesis
    proof (cases r)
      case (Inl e)
      then have "t = resubmit (set_ev_none u)" using assms(1) False req by (auto simp: run_candidate_def Let_def p_def)
      moreover have "at_rest (set_ev_none u)" using rest fr same' by (simp add: at_rest_def set_ev_none_def)
      ultimately show ?thesis using ty' by (simp add: resubmit_ok set_ev_none_def)
    next
      case (Inr x)
      then have t: "t = u" using assms(1) False req by (auto simp: run_candidate_def Let_def p_def)
      have "ts_req_pending (c_ts u)" using ts_request_effect [of "ev_at_us (c_ev p)" "ev_len_us (c_ev p)" p u] req Inr by simp
      then show ?thesis using ty' kind rest fr same' by (simp add: t control_ok_def awake_def at_rest_def set_ev_none_def)
    qed
  qed
qed

lemma sched_pick_ok:
  assumes "sched_pick s = Some t" "types_ok s" "control_ok s"
  shows "types_ok t \<and> control_ok t \<and> awake t"
proof (cases "slot_taken s")
  case True
  then have "t = s" using assms(1) by (simp add: sched_pick_def)
  moreover have "awake s" using True assms(3) by (auto simp: slot_taken_def awake_def control_ok_def lg_ts_granted_def)
  ultimately show ?thesis using assms by simp
next
  case False
  then have rest: "at_rest s" using assms(3) by (auto simp: at_rest_def slot_taken_def control_ok_def lg_ts_granted_def)
  obtain cs0 s1 where nc: "neigh_candidates [0..<length (c_neigh s)] ([], s) = Some (cs0, s1)"
    using False assms(1) by (auto simp: sched_pick_def split: option.splits)
  obtain cs s2 where oc: "own_candidates cs0 s1 = (cs, s2)" by (rule prod.exhaust)
  have q1: "quiet s s1" by (rule neigh_candidates_quiet [OF nc quiet_refl])
  have q2: "quiet s s2" using own_candidates_quiet [OF q1, of cs0] oc by simp
  have len: "length (c_neigh s1) = length (c_neigh s)" by (rule quiet_length [OF q1])
  have "points_in (length (c_neigh s)) cs0" by (rule neigh_candidates_points [OF nc]) (auto simp: points_in_def)
  then have good: "points_in (length (c_neigh s)) cs" using own_candidates_points [OF oc] len by simp
  have fit: "list_all proper cs" by (rule own_candidates_proper [OF oc neigh_candidates_proper [OF nc]]) simp
  show ?thesis
  proof (cases "select_candidate cs")
    case None
    then have "t = s2\<lparr>c_idle_armed := True\<rparr>" using assms(1) False nc oc by (simp add: sched_pick_def)
    then show ?thesis using quiet_types [OF q2 assms(2)] quiet_at_rest [OF q2] rest
      by (simp add: control_ok_def awake_def at_rest_def)
  next
    case (Some c)
    obtain ok s3 where st: "stage_for c s2 = (ok, s3)" by (rule prod.exhaust)
    have q3: "quiet s s3" using stage_for_quiet [OF q2, of c] st by simp
    have ty: "types_ok s3" "at_rest s3" using quiet_types [OF q3 assms(2)] quiet_at_rest [OF q3] rest by simp_all
    have c: "proper c" "ptr_ok (length (c_neigh s3)) (cd_neigh c)"
      using fit good select_member [OF Some] quiet_length [OF q3] by (simp_all add: list_all_iff points_in_def)
    show ?thesis
    proof (cases ok)
      case True
      then have "run_candidate c s3 = Some t" using assms(1) False nc oc Some st by (simp add: sched_pick_def)
      then show ?thesis by (rule run_candidate_ok [OF _ c ty])
    next
      case False
      with \<open>\<not> slot_taken s\<close> have t: "t = s3" using assms(1) nc oc Some st by (simp add: sched_pick_def)
      have "c_work_sched s3" using st False
        by (auto simp: stage_for_def resubmit_def split: ev_kind.splits option.splits if_splits prod.splits bool.splits)
      then show ?thesis using ty by (simp add: t control_ok_def awake_def at_rest_def)
    qed
  qed
qed

text \<open>All three at once, and a step that keeps them.\<close>

definition node_ok :: "ctx \<Rightarrow> bool" where
  "node_ok s \<longleftrightarrow> types_ok s \<and> control_ok s \<and> awake s"

lemma node_updates [simp]:
  "node_ok (s\<lparr>c_work_rx := b\<rparr>) = node_ok s" "node_ok (s\<lparr>c_now := n\<rparr>) = node_ok s"
  "node_ok (s\<lparr>c_phy_ok := p\<rparr>) = node_ok s" "node_ok (s\<lparr>c_cb_rx := b\<rparr>) = node_ok s" "node_ok (s\<lparr>c_cb_evt := b\<rparr>) = node_ok s"
  by (simp_all add: node_ok_def control_ok_def awake_def)

lemma quiet_node: "quiet s t \<Longrightarrow> node_ok s \<Longrightarrow> node_ok t"
  by (simp add: node_ok_def quiet_types quiet_control quiet_awake)

lemma abort_node: "node_ok s \<Longrightarrow> node_ok (lg_sched_abort k s)"
  using event_done_types [of s] event_done_control [of s] by (auto simp: lg_sched_abort_def node_ok_def control_ok_def)

section \<open>Settling\<close>

lemma sched_finish_ok:
  assumes "sched_finish s = Some t" "types_ok s" "control_ok s"
  shows "node_ok t"
proof -
  obtain u where u: "finish_event s = Some u" "sched_pick (u\<lparr>c_finish_kind := LG_EV_NONE, c_finish_neigh := None\<rparr>) = Some t"
    using assms(1) by (auto simp: sched_finish_def split: option.splits)
  have q: "quiet s u" using finish_event_quiet [OF quiet_refl, of s] u(1) by (simp add: quiet_some_def)
  have "types_ok (u\<lparr>c_finish_kind := LG_EV_NONE, c_finish_neigh := None\<rparr>)"
    using quiet_types [OF q assms(2)] by (simp add: types_set_event)
  moreover have "control_ok (u\<lparr>c_finish_kind := LG_EV_NONE, c_finish_neigh := None\<rparr>)"
    using quiet_control [OF q] assms(3) by simp
  ultimately show ?thesis using sched_pick_ok [OF u(2)] by (simp add: node_ok_def)
qed

section \<open>Received frames\<close>

text \<open>Dispatching a frame keeps the invariants and does not empty the ring.\<close>

definition keeps :: "ctx \<Rightarrow> ctx \<Rightarrow> bool" where
  "keeps s t \<longleftrightarrow> (node_ok s \<longrightarrow> node_ok t \<and>
     (rg_tail (c_rx_ring s) \<noteq> rg_head (c_rx_ring s) \<longrightarrow> rg_tail (c_rx_ring t) \<noteq> rg_head (c_rx_ring t)))"

lemma quiet_keeps: "quiet s t \<Longrightarrow> keeps s t"
  using quiet_node [of s t] by (auto simp: keeps_def quiet_def rx_grows_def node_ok_def types_ok_def)

lemma abort_keeps: "quiet s t \<Longrightarrow> keeps s (lg_sched_kick (lg_sched_abort k t))"
proof -
  assume q: "quiet s t"
  have "quiet (lg_sched_abort k t) (lg_sched_kick (lg_sched_abort k t))" by (simp add: quiet)
  moreover have "c_rx_ring (lg_sched_kick (lg_sched_abort k t)) = c_rx_ring t"
    by (simp add: lg_sched_kick_def lg_sched_abort_def lg_sched_event_done_def lg_phy_stop_def lg_ts_release_def upd_ts_def Let_def)
  ultimately show ?thesis using quiet_keeps [OF q] abort_node [of t k] quiet_node by (auto simp: keeps_def)
qed

lemma beacon_join_keeps:
  assumes "quiet s t" "i < length (c_neigh t)"
  shows "keeps s (beacon_join i src b rssi air t)"
proof -
  have aim: "quiet s (join_aim i b air t)" "quiet t (join_aim i b air t)" using assms(1) by (simp_all add: quiet)
  then have i: "i < length (c_neigh (join_aim i b air t))" using assms(2) quiet_length by metis
  have start: "quiet s (snd (lg_join_start i (join_aim i b air t)))" by (rule lg_join_start_quiet [OF i aim(1)])
  show ?thesis
    using quiet_keeps [OF assms(1)] quiet_keeps [OF start] abort_keeps [OF start, of LG_EV_SCAN]
    by (cases "lg_join_start i (join_aim i b air t)") (auto simp: beacon_join_def split: sum.split)
qed

lemma beacon_rx_keeps: "keeps s (lg_disc_beacon_rx pdu len rssi air s)"
proof -
  have parse: "quiet s (snd (beacon_parse pdu len s))" by (simp add: quiet)
  show ?thesis
  proof (cases "fst (beacon_parse pdu len s)")
    case None
    then show ?thesis using quiet_keeps [OF parse] by (simp add: lg_disc_beacon_rx_def split_beta)
  next
    case (Some h)
    obtain src b where h: "h = (src, b)" by (cases h)
    define u where "u = beacon_note src b (snd (beacon_parse pdu len s))"
    have u: "quiet s u" unfolding u_def using parse by (simp add: quiet)
    define e where "e = (case lg_neigh_find src u of Some i \<Rightarrow> (Some i, u)
      | None \<Rightarrow> if candidate_is_useful u b src rssi then joiner_entry src u else (None, u))"
    have eq: "quiet s (snd e)" unfolding e_def using u by (simp add: quiet split: option.split)
    have idx: "fst e = Some i \<Longrightarrow> i < length (c_neigh (snd e))" for i
      using joiner_entry_less [of src u] lg_neigh_find_less [of src u]
      by (cases "joiner_entry src u") (auto simp: e_def split: option.splits if_splits)
    obtain v where v: "beacon_parse pdu len s = (Some (src, b), v)" using Some h by (cases "beacon_parse pdu len s") simp
    have d: "lg_disc_beacon_rx pdu len rssi air s = (case e of (None, t) \<Rightarrow> t
      | (Some i, t) \<Rightarrow> beacon_join i src b rssi air (upd_neigh i (beacon_update b rssi air) t))"
      unfolding e_def u_def v snd_conv lg_disc_beacon_rx_def Let_def by simp
    show ?thesis
    proof (cases "fst e")
      case None
      then show ?thesis using quiet_keeps [OF eq] unfolding d by (cases e) simp
    next
      case (Some i)
      then show ?thesis using beacon_join_keeps [of s "upd_neigh i (beacon_update b rssi air) (snd e)" i] eq idx
        unfolding d by (cases e) simp
    qed
  qed
qed

lemma dispatch_keeps:
  assumes "dispatch rec s = Some t"
  shows "keeps s t"
proof (cases "lg_frame_hdr_get (cfg_mic_len (c_cfg s)) (rx_pdu rec) (rx_len rec) (c_netid16 s)")
  case None
  then show ?thesis using assms quiet_keeps [OF quiet_refl] by (simp add: dispatch_def)
next
  case (Some h)
  obtain fcf sq dst src where h: "h = (fcf, sq, dst, src)" by (cases h)
  have "quiet_some s (lg_join_rx_pdu (rx_pdu rec) (rx_len rec) (rx_rssi rec) (rx_air_start_us rec) s)"
    "quiet s (dispatch_secured rec fcf src s)" by (simp_all add: quiet)
  then show ?thesis using assms Some h quiet_keeps beacon_rx_keeps
    by (auto simp: dispatch_def Let_def quiet_some_def split: if_splits)
qed

lemma drop_rx_ok:
  assumes "node_ok s" "rg_tail (c_rx_ring s) \<noteq> rg_head (c_rx_ring s)"
  shows "node_ok (s\<lparr>c_rx_ring := ring_drop (c_rx_ring s)\<rparr>)"
proof -
  have "rx_bufs (c_rx_ring s)" using assms(1) by (simp add: node_ok_def types_ok_def)
  then have "rx_bufs (ring_drop (c_rx_ring s))"
    using ring_drop_contents(1) [OF _ assms(2)] by (simp add: rx_bufs_def)
  then show ?thesis using assms(1) by (simp add: node_ok_def types_ok_def tables_ok_def control_ok_def awake_def)
qed

lemma rx_loop_ok: "rx_loop n s = Some t \<Longrightarrow> node_ok s \<Longrightarrow> node_ok t"
proof (induction n arbitrary: s)
  case (Suc n)
  show ?case
  proof (cases "rg_tail (c_rx_ring s) = rg_head (c_rx_ring s)")
    case False
    then obtain u where u: "dispatch (ring_peek (c_rx_ring s)) s = Some u"
      "rx_loop n (u\<lparr>c_rx_ring := ring_drop (c_rx_ring u)\<rparr>) = Some t"
      using Suc.prems(1) by (auto split: option.splits)
    have "node_ok u" "rg_tail (c_rx_ring u) \<noteq> rg_head (c_rx_ring u)"
      using dispatch_keeps [OF u(1)] Suc.prems(2) False by (simp_all add: keeps_def)
    then show ?thesis by (intro Suc.IH [OF u(2)] drop_rx_ok)
  qed (use Suc.prems in simp)
qed simp

lemma rx_handler_ok: "rx_handler s = Some t \<Longrightarrow> node_ok s \<Longrightarrow> node_ok t"
  using rx_loop_ok [of _ "s\<lparr>c_work_rx := False\<rparr>" t] by (simp add: rx_handler_def)

section \<open>The arbiter and the radio report\<close>

lemma in_slot_kind: "in_slot s \<Longrightarrow> ev_kind (c_ev s) = LG_EV_LINK \<Longrightarrow> \<exists>i. ev_neigh (c_ev s) = Some i"
  by (auto simp: in_slot_def)

lemma in_slot_acts:
  assumes "in_slot s"
  shows "acted s (ev_start noise s)" "acted s (phy_tx_done a s)" "acted s (phy_rx_done rx s)" "acted s (phy_rx_failed r s)"
proof -
  have "ev_kind (c_ev s) \<noteq> LG_EV_NONE" using assms by (simp add: in_slot_def)
  then show "acted s (ev_start noise s)" "acted s (phy_tx_done a s)" "acted s (phy_rx_done rx s)" "acted s (phy_rx_failed r s)"
    using in_slot_kind [OF assms] start_acts [of s s] rx_done_acts [of s s] rx_fail_acts [of s s]
    by (auto simp: ev_start_def phy_tx_done_def phy_rx_done_def phy_rx_failed_def acted_done tx_done_acts split: ev_kind.split)
qed

lemma in_slot_ok:
  assumes "in_slot s" "types_ok s"
  shows "node_ok (ev_start noise s)" "node_ok (phy_tx_done a s)" "node_ok (phy_rx_done rx s)" "node_ok (phy_rx_failed r s)"
  using in_slot_acts [OF assms(1)] acted_ok [OF _ assms(2,1)] by (simp_all add: node_ok_def)

lemma granted_ok:
  assumes "grant_handler s = (TsGranted, t)" "node_ok s"
  shows "node_ok (ts_granted noise t)"
proof -
  have t: "types_ok t" "ev_kind (c_ev t) = ev_kind (c_ev s)"
    using assms by (auto simp: grant_handler_def upd_ts_def Let_def node_ok_def split: if_splits)
  show ?thesis
  proof (cases "ev_kind (c_ev t) = LG_EV_NONE")
    case True
    then show ?thesis using assms t
      by (auto simp: ts_granted_def grant_handler_def lg_ts_release_def upd_ts_def Let_def node_ok_def control_ok_def awake_def
        split: if_splits)
  next
    case False
    then have "in_slot t" using assms
      by (auto simp: grant_handler_def upd_ts_def Let_def node_ok_def control_ok_def in_slot_def split: if_splits)
    then show ?thesis using in_slot_ok(1) [OF _ t(1)] False by (simp add: ts_granted_def)
  qed
qed

lemma refused_ok:
  assumes "grant_handler s = (TsFailed, t)" "node_ok s"
  shows "node_ok (ts_failed t)"
proof -
  define u where "u = upd_stats (\<lambda>st. st\<lparr>st_slots_blocked := st_slots_blocked st + 1\<rparr>) t"
  have t: "t = s\<lparr>c_ts := (c_ts s)\<lparr>ts_req_pending := False, ts_req_refuse := False\<rparr>\<rparr>"
    using assms(1) by (auto simp: grant_handler_def upd_ts_def Let_def split: if_splits)
  have q: "quiet t u" "quiet t (ev_aborted u)" unfolding u_def by (simp_all add: quiet aborted_quiet)
  have ty: "types_ok t" using assms(2) by (simp add: t node_ok_def)
  show ?thesis
  proof (cases "ev_kind (c_ev u) = LG_EV_NONE")
    case True
    then show ?thesis using assms(2) quiet_types [OF q(1) ty]
      by (simp add: ts_failed_def u_def t node_ok_def control_ok_def awake_def upd_stats_def)
  next
    case False
    have f: "fixed (ev_aborted u) = fixed t" using q(2) by (simp add: quiet_def)
    have "c_started t = c_running t" "\<not> ts_req_pending (c_ts t)" using assms(2) by (simp_all add: t node_ok_def control_ok_def)
    then show ?thesis using False event_done_types [OF quiet_types [OF q(2) ty]] event_done_control [of "ev_aborted u"] fixedD [OF f]
      by (simp add: ts_failed_def u_def [symmetric] node_ok_def)
  qed
qed

lemma busy_in_slot:
  assumes "node_ok s" "c_phy_busy s"
  shows "in_slot (s\<lparr>c_phy_busy := False\<rparr>)" "types_ok (s\<lparr>c_phy_busy := False\<rparr>)"
  using assms by (auto simp: node_ok_def control_ok_def in_slot_def split: if_splits)

section \<open>What the application calls\<close>

lemma callbacks_ok: "node_ok s \<Longrightarrow> node_ok (lg_callbacks_register cb s)"
  by (simp add: lg_callbacks_register_def split: option.split prod.split)

lemma provision_quiet: "quiet s (snd (lg_provision psa_ok ident s))"
  by (simp add: lg_provision_def lg_sec_init_def Let_def case_prod_beta quiet split del: if_split)

lemma start_tables_quiet: "quiet s (lg_join_init (lg_route_init (lg_role_init (lg_chan_init (lg_power_init (lg_tuning_init (start_tables s)))))))"
  by (simp add: lg_join_init_def lg_chan_init_def lg_power_init_def start_tables_def hs_zero_def quiet upd_pw_def)

lemma start_ok:
  assumes "node_ok s"
  shows "node_ok (snd (lg_start phy grant_chan fine_chan s))"
proof -
  define u where "u = lg_join_init (lg_route_init (lg_role_init (lg_chan_init (lg_power_init (lg_tuning_init (start_tables s))))))"
  have q: "quiet s u" unfolding u_def by (rule start_tables_quiet)
  have u: "node_ok u" by (rule quiet_node [OF q assms])
  show ?thesis
  proof (cases "c_started s \<or> c_addr s = LG_ADDR_INVALID \<or> isl (lg_sec_cert_verify s (own_cert s)) \<or>
      isl (fst (lg_sched_init phy grant_chan fine_chan u))")
    case True
    moreover have "isl (fst (lg_sched_init phy grant_chan fine_chan u)) \<Longrightarrow> snd (lg_sched_init phy grant_chan fine_chan u) = u"
      by (auto simp: lg_sched_init_def lg_ts_init_def split: option.splits if_splits)
    ultimately show ?thesis using assms u
      by (auto simp: lg_start_def u_def [symmetric] isl_def split: sum.split prod.split)
  next
    case False
    define v where "v = (set_ev_none (upd_ts (\<lambda>ts. ts\<lparr>ts_up := True\<rparr>) u))\<lparr>c_running := True, c_started := True\<rparr>"
    define w where "w = lg_disc_beacon_finish (lg_role_evaluate (lg_disc_init v))"
    have "snd (lg_start phy grant_chan fine_chan s) = lg_sched_kick w"
      using False
      by (auto simp: lg_start_def lg_sched_init_def lg_ts_init_def u_def [symmetric] v_def w_def isl_def
        split: sum.split option.split)
    note started = this
    have qw: "quiet v w" unfolding w_def by (simp add: quiet)
    have "\<not> c_started u" using False fixedD [of u s] q by (simp add: quiet_def)
    then have "control_ok v" using u
      by (auto simp: v_def node_ok_def control_ok_def set_ev_none_def upd_ts_def split: if_splits)
    moreover have "types_ok v" using u by (simp add: v_def node_ok_def upd_ts_def)
    ultimately have v: "types_ok v" "control_ok v" by simp_all
    have "c_running w" using fixedD [of w v] qw by (simp add: quiet_def v_def)
    then have "lg_sched_kick w = w\<lparr>c_work_sched := True\<rparr>" by (simp add: lg_sched_kick_def)
    moreover note started
    moreover have "types_ok w" "control_ok w" using quiet_types [OF qw v(1)] quiet_control [OF qw] v(2) by simp_all
    ultimately show ?thesis by (simp add: node_ok_def control_ok_def awake_def)
  qed
qed

lemma down_all_quiet: "quiet s t \<Longrightarrow> quiet s (foldl down_if_linked t is)"
  by (rule quiet_foldl) (simp_all add: down_if_linked_def quiet)

lemma sched_stop_ok: "types_ok s \<Longrightarrow> node_ok (lg_sched_stop (s\<lparr>c_started := False\<rparr>))"
  by (simp add: lg_sched_stop_def lg_phy_stop_def lg_ts_release_def lg_ts_uninit_def set_ev_none_def upd_ts_def
    node_ok_def types_ok_def tables_ok_def control_ok_def awake_def)

lemma stop_ok:
  assumes "node_ok s"
  shows "node_ok (snd (lg_stop s))"
proof (cases "c_started s")
  case True
  have "types_ok (foldl down_if_linked s [0..<length (c_neigh s)])"
    using quiet_types [OF down_all_quiet [OF quiet_refl]] assms by (simp add: node_ok_def)
  then show ?thesis using True sched_stop_ok by (simp add: lg_stop_def)
qed (use assms in \<open>simp add: lg_stop_def\<close>)

section \<open>The steps of a node\<close>

text \<open>Work items, reports and calls each run to their end; anything may come next. A report of the radio
  comes from a busy radio, which is then free. Between two of them time passes and the driver may
  change which commands it would take.\<close>

inductive node_step :: "ctx \<Rightarrow> ctx \<Rightarrow> bool" where
  time_passes: "c_now s \<le> now \<Longrightarrow> node_step s (s\<lparr>c_now := now, c_phy_ok := accepts\<rparr>)"
| sched_runs: "c_work_sched s \<Longrightarrow> sched_pick (s\<lparr>c_work_sched := False\<rparr>) = Some t \<Longrightarrow> node_step s t"
| idle_runs: "c_idle_armed s \<Longrightarrow> sched_idle (s\<lparr>c_idle_armed := False\<rparr>) = Some t \<Longrightarrow> node_step s t"
| finish_runs: "c_work_finish s \<Longrightarrow> sched_finish (s\<lparr>c_work_finish := False\<rparr>) = Some t \<Longrightarrow> node_step s t"
| rx_runs: "c_work_rx s \<Longrightarrow> rx_handler s = Some t \<Longrightarrow> node_step s t"
| notify_runs: "c_work_notify s \<Longrightarrow> node_step s (notify_handler s)"
| slot_granted: "grant_handler s = (TsGranted, t) \<Longrightarrow> node_step s (ts_granted noise t)"
| slot_refused: "grant_handler s = (TsFailed, t) \<Longrightarrow> node_step s (ts_failed t)"
| tx_reported: "c_phy_busy s \<Longrightarrow> node_step s (phy_tx_done air_end (s\<lparr>c_phy_busy := False\<rparr>))"
| rx_reported: "c_phy_busy s \<Longrightarrow> node_step s (phy_rx_done rx (s\<lparr>c_phy_busy := False\<rparr>))"
| fail_reported: "c_phy_busy s \<Longrightarrow> node_step s (phy_rx_failed reason (s\<lparr>c_phy_busy := False\<rparr>))"
| radio_charged: "node_step s (lg_power_charge st us s)"
| call_provision: "node_step s (snd (lg_provision psa_ok ident s))"
| call_register: "node_step s (lg_callbacks_register cb s)"
| call_start: "node_step s (snd (lg_start phy grant_chan fine_chan s))"
| call_stop: "node_step s (snd (lg_stop s))"
| call_send: "node_step s (snd (lg_send dst port buf len flags s))"
| call_backhaul: "node_step s (lg_backhaul_set up s)"
| call_tune: "node_step s (snd (lg_tuning_set tn s))"

inductive_cases node_stepE: "node_step s t"

lemma flags_cleared:
  assumes "node_ok s"
  shows "types_ok (s\<lparr>c_work_sched := False\<rparr>)" "control_ok (s\<lparr>c_work_sched := False\<rparr>)"
    "types_ok (s\<lparr>c_idle_armed := False\<rparr>)" "control_ok (s\<lparr>c_idle_armed := False\<rparr>)"
    "types_ok (s\<lparr>c_work_finish := False\<rparr>)" "control_ok (s\<lparr>c_work_finish := False\<rparr>)"
  using assms by (simp_all add: node_ok_def control_ok_def)

lemma node_step_ok: "node_step s t \<Longrightarrow> node_ok s \<Longrightarrow> node_ok t"
proof (induction rule: node_step.induct)
  case (sched_runs s t)
  then show ?case using sched_pick_ok [OF _ flags_cleared(1,2) [OF sched_runs(3)]] by (simp add: node_ok_def)
next
  case (idle_runs s t)
  then show ?case using sched_pick_ok [OF _ flags_cleared(3,4) [OF idle_runs(3)]] by (simp add: node_ok_def sched_idle_def)
next
  case (finish_runs s t)
  then show ?case using sched_finish_ok [OF _ flags_cleared(5,6) [OF finish_runs(3)]] by simp
next
  case (notify_runs s)
  have "quiet s (notify_handler s)" by (simp add: quiet)
  then show ?case using notify_runs(2) by (rule quiet_node)
next
  case (tx_reported s a)
  then show ?case using in_slot_ok(2) [OF busy_in_slot] by simp
next
  case (rx_reported s rx)
  then show ?case using in_slot_ok(3) [OF busy_in_slot] by simp
next
  case (fail_reported s r)
  then show ?case using in_slot_ok(4) [OF busy_in_slot] by simp
next
  case (radio_charged s st us)
  have "quiet s (lg_power_charge st us s)" by (simp add: quiet)
  then show ?case using radio_charged by (rule quiet_node)
next
  case (call_provision s psa_ok ident)
  show ?case by (rule quiet_node [OF provision_quiet call_provision])
next
  case (call_send s dst port buf len flags)
  have "quiet s (snd (lg_send dst port buf len flags s))" by (simp add: quiet)
  then show ?case using call_send by (rule quiet_node)
next
  case (call_backhaul s up)
  have "quiet s (lg_backhaul_set up s)" by (simp add: quiet)
  then show ?case using call_backhaul by (rule quiet_node)
next
  case (call_tune s tn)
  have "quiet s (snd (lg_tuning_set tn s))" by (simp add: quiet)
  then show ?case using call_tune by (rule quiet_node)
qed (simp_all add: rx_handler_ok granted_ok refused_ok start_ok stop_ok callbacks_ok)

text \<open>A node from its loading on.\<close>

inductive node_reach :: "ctx \<Rightarrow> bool" where
  loaded: "cfg_ok cfg \<Longrightarrow> node_reach (node_zero cfg cr rng phy)"
| steps: "node_reach s \<Longrightarrow> node_step s t \<Longrightarrow> node_reach t"

lemma node_zero_ok: "cfg_ok cfg \<Longrightarrow> node_ok (node_zero cfg cr rng phy)"
  using tables_ok_zero [of cfg cr rng phy]
  by (simp add: node_ok_def types_ok_def control_ok_def awake_def rx_bufs_def ring_ok_def ring_used_def hs_ptr_ok_def
    node_zero_def hs_zero_def arbiter_zero_def event_zero_def rx_rec_zero_def)

lemma reach_ok: "node_reach s \<Longrightarrow> node_ok s"
  by (induction rule: node_reach.induct) (simp_all add: node_zero_ok node_step_ok)

text \<open>Evaluation looks into the parts of a pair only after the pair itself was evaluated.\<close>

lemma case_prod_late [code_unfold]:
  "case_prod f p = (let q = p in f (fst q) (snd q))" "Let p (case_prod f) = (let q = p in f (fst q) (snd q))"
  by (simp_all add: case_prod_beta)

text \<open>A run of a small node with a toy identity: loaded, provisioned and started, its first scan scheduled,
  its slot granted.\<close>

definition small_cfg :: config where
  "small_cfg = default_cfg\<lparr>cfg_max_neighbors := 2, cfg_max_routes := 1, cfg_tx_queue_size := 2\<rparr>"

definition small_crypto :: crypto where
  "small_crypto = demo_crypto\<lparr>cr_hash := \<lambda>_. Some (replicate 32 0), cr_verify := \<lambda>_ _ _. True, cr_aead_enc := \<lambda>_ _ _ _ _. None\<rparr>"

definition small_identity :: identity where
  "small_identity = \<lparr>id_network_id = 1, id_cert = Some (7 # replicate 139 0), id_priv_key = Some (replicate 32 3),
     id_ca_pub_key = Some (replicate 64 9), id_net_key = Some (replicate 16 1)\<rparr>"

definition demo_started :: ctx where
  "demo_started = snd (lg_start None True True
     (snd (lg_provision True (Some small_identity) (node_zero small_cfg small_crypto of_nat (\<lambda>_. True)))))"

definition demo_asked :: ctx where
  "demo_asked = (case sched_pick (demo_started\<lparr>c_work_sched := False\<rparr>) of None \<Rightarrow> demo_started | Some t \<Rightarrow> t)"

definition demo_scanning :: ctx where
  "demo_scanning = (case grant_handler demo_asked of (TsGranted, t) \<Rightarrow> ts_granted (\<lambda>_. 0) t | _ \<Rightarrow> demo_asked)"

lemma demo_started_reach: "node_reach demo_started"
proof -
  have "cfg_ok small_cfg" by code_simp
  then show ?thesis unfolding demo_started_def
    by (rule node_reach.steps [OF node_reach.steps [OF node_reach.loaded call_provision] call_start])
qed

lemma demo_asked_reach: "node_reach demo_asked"
proof -
  have "c_work_sched demo_started" by code_simp
  then show ?thesis unfolding demo_asked_def
    by (auto simp: demo_started_reach intro: node_reach.steps [OF demo_started_reach] sched_runs split: option.split)
qed

lemma demo_scanning_reach: "node_reach demo_scanning"
  unfolding demo_scanning_def
  by (auto simp: demo_asked_reach intro: node_reach.steps [OF demo_asked_reach] slot_granted
    split: prod.split ts_callback.split)

definition node_view :: "ctx \<Rightarrow> bool \<times> ev_kind \<times> bool" where
  "node_view s = (c_running s, ev_kind (c_ev s), c_phy_busy s)"

lemma demo_scanning_view:
  "c_running demo_scanning \<and> ev_kind (c_ev demo_scanning) = LG_EV_SCAN \<and> c_phy_busy demo_scanning"
proof -
  have "node_view demo_scanning = (True, LG_EV_SCAN, True)" by code_simp
  then show ?thesis by (simp add: node_view_def)
qed

section \<open>What holds in every state a node can be in\<close>



text \<open>C9: a running node is never stuck. In every state it can come to, either there is no event and a run
  of the scheduler, the settling of the last event or the idle timer is due; or its event waits for a
  requested slot, whose timer will be answered by a grant or a refusal; or the slot is granted and the
  radio at work, so that a report is due. Refused slots, aborted events, lost frames and stale
  timers never leave an event behind that nobody ends.\<close>

theorem node_never_stuck:
  assumes "node_reach s" "c_running s"
  shows "(ev_kind (c_ev s) = LG_EV_NONE \<and> (c_work_sched s \<or> c_work_finish s \<or> c_idle_armed s)) \<or>
    (ev_kind (c_ev s) \<noteq> LG_EV_NONE \<and> fst (grant_handler s) \<noteq> TsNothing \<and> \<not> c_phy_busy s) \<or>
    (ev_kind (c_ev s) \<noteq> LG_EV_NONE \<and> lg_ts_granted s \<and> c_phy_busy s)"
  using reach_ok [OF assms(1)] assms(2)
  by (auto simp: node_ok_def control_ok_def awake_def lg_ts_granted_def grant_handler_def Let_def split: if_splits)

theorem node_never_stuck_witness:
  "c_running demo_scanning \<and> lg_ts_granted demo_scanning \<and> c_phy_busy demo_scanning"
proof -
  have r: "c_running demo_scanning" using demo_scanning_view by simp
  from node_never_stuck [OF demo_scanning_reach r] demo_scanning_view show ?thesis by simp
qed

text \<open>C10: the radio is used only inside the node's own time slots. In every state a node can come to, a busy
  radio means that the node runs, has an event and holds the arbiter's grant for it; no event, or a
  stopped node, means that the radio is idle and no grant is held, and a stopped node has no request
  pending either.\<close>

theorem radio_only_in_slot:
  assumes "node_reach s"
  shows "(c_phy_busy s \<longrightarrow> c_running s \<and> ev_kind (c_ev s) \<noteq> LG_EV_NONE \<and> lg_ts_granted s) \<and>
    (ev_kind (c_ev s) = LG_EV_NONE \<longrightarrow> \<not> c_phy_busy s \<and> \<not> lg_ts_granted s) \<and>
    (\<not> c_running s \<longrightarrow> ev_kind (c_ev s) = LG_EV_NONE \<and> \<not> ts_req_pending (c_ts s))"
  using reach_ok [OF assms] by (auto simp: node_ok_def control_ok_def lg_ts_granted_def split: if_splits)

theorem radio_only_in_slot_witness:
  "c_phy_busy demo_scanning \<and> lg_ts_granted demo_scanning \<and> ev_kind (c_ev demo_scanning) \<noteq> LG_EV_NONE"
  using radio_only_in_slot [OF demo_scanning_reach] demo_scanning_view by simp

end
