(* ===== verification/LG_Phy.thy ===== *)
theory LG_Phy
  imports LG_Env LG_Chan
begin

text \<open>
  The radio driver (\<open>lg_phy_nrf.c\<close>): its state machine, the timing of frames and windows, and what it
  charges. The rest of the node sees it through \<open>LG_Env\<close>. The registers are the commands written to
  them, in order; the events the hardware raises and the values it measures are fields the
  environment sets between calls. The callbacks into the scheduler are a parameter \<open>mac\<close>: each is the
  last thing its handler does. The fine timer of the arbiter (\<open>lg_ts_direct.c\<close>) runs the handler at
  once when its target has gone by, so a handler that arms it again need not return: such results are
  in \<open>option\<close>.
\<close>

abbreviation (input) LG_TX_CHAIN_US :: u64 where "LG_TX_CHAIN_US \<equiv> 1"
abbreviation (input) LG_RX_CHAIN_US :: u64 where "LG_RX_CHAIN_US \<equiv> 22"
abbreviation (input) LG_CRC_LEN_154 :: nat where "LG_CRC_LEN_154 \<equiv> 2"
abbreviation (input) LG_PDU_OFF :: nat where "LG_PDU_OFF \<equiv> 1"
abbreviation (input) LG_ED_RSSI_OFFSET :: int where "LG_ED_RSSI_OFFSET \<equiv> -93"
abbreviation (input) LG_ED_LOOP_US :: u32 where "LG_ED_LOOP_US \<equiv> 128"

section \<open>State\<close>

datatype phy_op = LG_OP_IDLE | LG_OP_TX_ARMED | LG_OP_TX | LG_OP_RX_ARMED | LG_OP_RX

text \<open>The handlers the fine timer can run.\<close>

datatype fine_cb = Tx_fire | Rx_fire | Rx_close

text \<open>What is written to the radio: mode and channel with their power, the tasks, the energy scan.\<close>

datatype hw_cmd = HwConfigure u16 u16 | HwTxEn | HwRxEn bool | HwEdScan u32 | HwDisable

datatype phy_report = TxDone u64 | RxDone phy_rx | RxFailed phy_rx_fail

text \<open>First the configuration and the environment, then the static \<open>p\<close>, then the fine timer.\<close>

record phy =
  ph_tx_power_dbm :: int
  ph_tx_power_enc :: "int \<Rightarrow> u16"
  ph_early_abort :: bool
  ph_now :: u64
  ph_timer_ok :: "u64 \<Rightarrow> bool"
  ph_ev_address :: bool
  ph_ev_bcmatch :: bool
  ph_ev_end :: bool
  ph_crc_ok :: bool
  ph_rssi_sample :: u8
  ph_hw :: "hw_cmd list"
  ph_pwr :: "pwr_op list"
  ph_netid16 :: u16
  ph_local :: u16
  ph_promiscuous :: bool
  ph_op :: phy_op
  ph_chan :: u8
  ph_frame :: "u8 list"
  ph_rx_dst :: "u8 list"
  ph_rx_close_us :: u64
  ph_tx_air_end_us :: u64
  ph_tx_len :: nat
  ph_rx_on_us :: u64
  ph_charged :: bool
  ph_in_event :: bool
  ph_timer :: "(u64 \<times> fine_cb) option"

definition hw :: "hw_cmd \<Rightarrow> phy \<Rightarrow> phy" where
  "hw c p = p\<lparr>ph_hw := ph_hw p @ [c]\<rparr>"

definition charge :: "pwr_op \<Rightarrow> phy \<Rightarrow> phy" where
  "charge c p = p\<lparr>ph_pwr := ph_pwr p @ [c]\<rparr>"

section \<open>Configuration\<close>

text \<open>The levels of \<open>tx_power_table\<close>; their register values come from the header of the chip.\<close>

definition tx_power_table :: "int list" where
  "tx_power_table = [8, 7, 6, 5, 4, 3, 2, 1, 0, -1, -2, -3, -4, -5, -6, -7, -8, -9, -10, -12, -14, -16, -18, -20, -28, -40, -46]"

definition tx_power_level :: "int \<Rightarrow> int" where
  "tx_power_level dbm = (case find (\<lambda>d. d \<le> dbm) tx_power_table of Some d \<Rightarrow> d | None \<Rightarrow> last tx_power_table)"

definition tx_power_reg :: "(int \<Rightarrow> u16) \<Rightarrow> int \<Rightarrow> u16" where
  "tx_power_reg enc dbm = enc (tx_power_level dbm)"

definition lg_phy_chan_freq :: "u8 \<Rightarrow> u16" where
  "lg_phy_chan_freq chan = 2405 + 5 * (ucast chan - ucast LG_CHAN_FIRST)"

definition radio_configure :: "u8 \<Rightarrow> phy \<Rightarrow> phy" where
  "radio_configure chan p =
    (hw (HwConfigure (lg_phy_chan_freq chan) (tx_power_reg (ph_tx_power_enc p) (ph_tx_power_dbm p))) p)\<lparr>ph_chan := chan\<rparr>"

definition radio_disable :: "phy \<Rightarrow> phy" where
  "radio_disable p = (hw HwDisable p)\<lparr>ph_ev_end := False, ph_ev_address := False, ph_ev_bcmatch := False\<rparr>"

section \<open>Energy\<close>

definition charge_fixed :: "phy \<Rightarrow> phy" where
  "charge_fixed p = (if ph_in_event p then charge PwrTurn p else charge PwrStart (p\<lparr>ph_in_event := True\<rparr>))"

definition charge_tx :: "phy \<Rightarrow> phy" where
  "charge_tx p = charge (PwrCharge LG_PHY_STATE_TX (LG_AIRTIME_US (of_nat (ph_tx_len p)))) p"

definition charge_rx_until :: "u64 \<Rightarrow> phy \<Rightarrow> phy" where
  "charge_rx_until end_us p =
    (if ph_charged p then p
     else let p1 = p\<lparr>ph_charged := True\<rparr>
          in if ph_rx_on_us p1 < end_us
             then charge (PwrCharge LG_PHY_STATE_RX (ucast (end_us - ph_rx_on_us p1))) p1 else p1)"

section \<open>The fine timer\<close>

definition tx_fire :: "phy \<Rightarrow> phy" where
  "tx_fire p = hw HwTxEn ((charge_fixed (p\<lparr>ph_op := LG_OP_TX\<rparr>))\<lparr>ph_ev_end := False\<rparr>)"

text \<open>\<open>rx_fire\<close> up to arming the close of the window.\<close>

definition rx_fire :: "phy \<Rightarrow> phy" where
  "rx_fire p =
    (let p1 = charge_fixed (p\<lparr>ph_op := LG_OP_RX\<rparr>)
     in hw (HwRxEn (ph_early_abort p1))
          (p1\<lparr>ph_rx_on_us := ph_now p1 + ucast LG_RAMPUP_US, ph_charged := False,
              ph_ev_end := False, ph_ev_address := False, ph_ev_bcmatch := False\<rparr>))"

definition radio_idle :: "phy \<Rightarrow> phy" where
  "radio_idle p = (radio_disable p)\<lparr>ph_op := LG_OP_IDLE\<rparr>"

definition rx_remaining :: "phy \<Rightarrow> u32" where
  "rx_remaining p =
    (let psdu = ph_frame p ! 0
     in LG_AIRTIME_US (if psdu \<le> of_nat (LG_PDU_MAX + LG_CRC_LEN_154) then ucast psdu else of_nat LG_PDU_MAX))"

text \<open>One handler of the timer: its final state, or the timer it arms next.\<close>

definition fine_step :: "(phy_report \<Rightarrow> phy \<Rightarrow> phy option) \<Rightarrow> fine_cb \<Rightarrow> phy \<Rightarrow> phy option + (u64 \<times> fine_cb \<times> phy)" where
  "fine_step mac cb p =
    (case cb of
       Tx_fire \<Rightarrow> Inl (Some (tx_fire p))
     | Rx_fire \<Rightarrow> Inr (ph_rx_close_us p, Rx_close, rx_fire p)
     | Rx_close \<Rightarrow>
         if ph_op p \<noteq> LG_OP_RX then Inl (Some p)
         else if ph_ev_address p then Inr (ph_rx_close_us p + ucast (rx_remaining p), Rx_close, p)
         else Inl (mac (RxFailed LG_PHY_RX_TIMEOUT) (radio_idle (charge_rx_until (ph_rx_close_us p) p))))"

text \<open>A handler, with the timers it arms that fire at once.\<close>

partial_function (option) run_fine :: "(phy_report \<Rightarrow> phy \<Rightarrow> phy option) \<Rightarrow> fine_cb \<Rightarrow> phy \<Rightarrow> phy option" where
  [code]: "run_fine mac cb p =
    (case fine_step mac cb p of
       Inl r \<Rightarrow> r
     | Inr (at_us, cb', p') \<Rightarrow>
         if ph_timer_ok p' at_us then Some (p'\<lparr>ph_timer := Some (at_us, cb')\<rparr>)
         else run_fine mac cb' (p'\<lparr>ph_timer := None\<rparr>))"

lemma run_fine_done: "fine_step mac cb p = Inl r \<Longrightarrow> run_fine mac cb p = r"
  by (subst run_fine.simps) simp

lemma run_fine_arm:
  "fine_step mac cb p = Inr (at_us, cb', p') \<Longrightarrow> ph_timer_ok p' at_us \<Longrightarrow>
    run_fine mac cb p = Some (p'\<lparr>ph_timer := Some (at_us, cb')\<rparr>)"
  by (subst run_fine.simps) simp

definition lg_ts_timer_at :: "(phy_report \<Rightarrow> phy \<Rightarrow> phy option) \<Rightarrow> u64 \<Rightarrow> fine_cb \<Rightarrow> phy \<Rightarrow> phy option" where
  "lg_ts_timer_at mac at_us cb p =
    (if ph_timer_ok p at_us then Some (p\<lparr>ph_timer := Some (at_us, cb)\<rparr>) else run_fine mac cb (p\<lparr>ph_timer := None\<rparr>))"

definition lg_ts_timer_cancel :: "phy \<Rightarrow> phy" where
  "lg_ts_timer_cancel p = p\<lparr>ph_timer := None\<rparr>"

definition fine_handler :: "(phy_report \<Rightarrow> phy \<Rightarrow> phy option) \<Rightarrow> phy \<Rightarrow> phy option" where
  "fine_handler mac p =
    (case ph_timer p of None \<Rightarrow> Some p | Some (_, cb) \<Rightarrow> run_fine mac cb (p\<lparr>ph_timer := None\<rparr>))"

section \<open>Commands\<close>

definition with_result :: "phy option \<Rightarrow> ((errno + unit) \<times> phy) option" where
  "with_result q = (case q of None \<Rightarrow> None | Some p \<Rightarrow> Some (Inr (), p))"

definition phy_tx_at :: "(phy_report \<Rightarrow> phy \<Rightarrow> phy option) \<Rightarrow> u64 \<Rightarrow> u8 \<Rightarrow> u8 list \<Rightarrow> nat \<Rightarrow> phy \<Rightarrow> ((errno + unit) \<times> phy) option" where
  "phy_tx_at mac air_start_us chan pdu len p =
    (if len = 0 \<or> LG_PDU_MAX < len then Some (Inl EMSGSIZE, p)
     else
       let p1 = radio_configure chan p;
           p2 = p1\<lparr>ph_frame := blit (blit (ph_frame p1) 0 [of_nat (len + LG_CRC_LEN_154)]) LG_PDU_OFF (take len pdu),
                   ph_tx_len := len, ph_tx_air_end_us := air_start_us + ucast (LG_AIRTIME_US (of_nat len))\<rparr>;
           fire_us = air_start_us - ucast LG_RAMPUP_US - LG_TX_CHAIN_US
       in if fire_us \<le> ph_now p2 then Some (Inl ETIME, p2)
          else with_result (lg_ts_timer_at mac fire_us Tx_fire (p2\<lparr>ph_op := LG_OP_TX_ARMED\<rparr>)))"

definition phy_rx_window :: "(phy_report \<Rightarrow> phy \<Rightarrow> phy option) \<Rightarrow> u64 \<Rightarrow> u64 \<Rightarrow> u8 \<Rightarrow> phy \<Rightarrow> ((errno + unit) \<times> phy) option" where
  "phy_rx_window mac open_us close_us chan p =
    (if close_us \<le> open_us then Some (Inl EINVAL, p)
     else
       let p1 = (radio_configure chan p)\<lparr>ph_rx_close_us := close_us\<rparr>;
           fire_us = open_us - ucast LG_RAMPUP_US
       in if fire_us \<le> ph_now p1 then Some (Inl ETIME, p1)
          else with_result (lg_ts_timer_at mac fire_us Rx_fire (p1\<lparr>ph_op := LG_OP_RX_ARMED\<rparr>)))"

definition phy_stop :: "phy \<Rightarrow> phy" where
  "phy_stop p =
    (let p1 = (if ph_op p = LG_OP_RX then charge_rx_until (ph_now p) p else p)
     in (radio_idle (lg_ts_timer_cancel p1))\<lparr>ph_in_event := False\<rparr>)"

definition lg_phy_busy :: "phy \<Rightarrow> bool" where
  "lg_phy_busy p \<longleftrightarrow> ph_op p \<noteq> LG_OP_IDLE"

definition lg_phy_network_set :: "u32 \<Rightarrow> phy \<Rightarrow> phy" where
  "lg_phy_network_set network_id p = p\<lparr>ph_netid16 := ucast network_id\<rparr>"

definition lg_phy_filter_set :: "u16 \<Rightarrow> bool \<Rightarrow> phy \<Rightarrow> phy" where
  "lg_phy_filter_set loc promiscuous p = p\<lparr>ph_local := loc, ph_promiscuous := promiscuous\<rparr>"

definition lg_phy_init :: "phy \<Rightarrow> phy" where
  "lg_phy_init p = p\<lparr>ph_op := LG_OP_IDLE, ph_local := LG_ADDR_INVALID\<rparr>"

text \<open>\<open>sample\<close> is what the energy detector measured, \<open>None\<close> when it did not finish within the spin limit.\<close>

definition lg_phy_noise_floor :: "u8 \<Rightarrow> u32 \<Rightarrow> u8 option \<Rightarrow> phy \<Rightarrow> int \<times> phy" where
  "lg_phy_noise_floor chan period_us sample p =
    (let loops = max (period_us div LG_ED_LOOP_US) 1;
         p1 = charge (PwrCharge LG_PHY_STATE_RX (loops * LG_ED_LOOP_US))
                (hw (HwEdScan loops) (charge_fixed (radio_configure chan p)))
     in (case sample of None \<Rightarrow> INT8_MIN | Some x \<Rightarrow> to_s8 (LG_ED_RSSI_OFFSET + uint x), radio_disable p1))"

section \<open>Interrupts\<close>

definition early_filter_pass :: "phy \<Rightarrow> bool" where
  "early_filter_pass p =
    (let pdu = drop LG_PDU_OFF (ph_frame p)
     in if lg_get_le16 pdu LG_OFF_NETID \<noteq> ph_netid16 p then False
        else if ph_promiscuous p then True
        else let dst = lg_get_le16 pdu LG_OFF_DST in dst = ph_local p \<or> dst = LG_ADDR_BROADCAST)"

definition handle_bcmatch :: "(phy_report \<Rightarrow> phy \<Rightarrow> phy option) \<Rightarrow> phy \<Rightarrow> phy option" where
  "handle_bcmatch mac p =
    (let p1 = p\<lparr>ph_ev_bcmatch := False\<rparr>
     in if early_filter_pass p1 then Some p1
        else mac (RxFailed LG_PHY_RX_FILTERED)
               (lg_ts_timer_cancel (radio_idle (charge_rx_until (ph_now p1) p1))))"

definition handle_tx_end :: "(phy_report \<Rightarrow> phy \<Rightarrow> phy option) \<Rightarrow> phy \<Rightarrow> phy option" where
  "handle_tx_end mac p = mac (TxDone (ph_tx_air_end_us p)) (radio_idle (charge_tx p))"

text \<open>\<open>-(int8_t)rssi_raw\<close>, stored in an \<open>int8_t\<close>.\<close>

definition handle_rx_end :: "(phy_report \<Rightarrow> phy \<Rightarrow> phy option) \<Rightarrow> phy \<Rightarrow> phy option" where
  "handle_rx_end mac p =
    (let psdu_len = unat (ph_frame p ! 0);
         len = (if LG_CRC_LEN_154 \<le> psdu_len then psdu_len - LG_CRC_LEN_154 else 0);
         p1 = radio_idle (charge_rx_until (ph_now p) (lg_ts_timer_cancel p))
     in if \<not> ph_crc_ok p \<or> len = 0 \<or> LG_PDU_MAX < len then mac (RxFailed LG_PHY_RX_CRC) p1
        else
          let pdu = take len (drop LG_PDU_OFF (ph_frame p1)); air_end = ph_now p - LG_RX_CHAIN_US
          in mac (RxDone \<lparr>px_pdu = pdu, px_len = len, px_rssi = to_s8 (- to_s8 (uint (ph_rssi_sample p))),
                   px_air_start_us = air_end - ucast (LG_AIRTIME_US (of_nat len)), px_air_end_us = air_end\<rparr>)
               (p1\<lparr>ph_rx_dst := pdu\<rparr>))"

definition lg_phy_isr :: "(phy_report \<Rightarrow> phy \<Rightarrow> phy option) \<Rightarrow> phy \<Rightarrow> phy option" where
  "lg_phy_isr mac p =
    (case (if ph_ev_bcmatch p then handle_bcmatch mac p else Some p) of
       None \<Rightarrow> None
     | Some p1 \<Rightarrow>
         if ph_ev_bcmatch p \<and> ph_op p1 = LG_OP_IDLE then Some p1
         else if ph_ev_end p1
         then let p2 = p1\<lparr>ph_ev_end := False\<rparr>
              in case ph_op p2 of LG_OP_TX \<Rightarrow> handle_tx_end mac p2 | LG_OP_RX \<Rightarrow> handle_rx_end mac p2 | _ \<Rightarrow> Some p2
         else Some p1)"

section \<open>The radio is never left on, the driver never stuck\<close>

text \<open>Whether the commands so far have left the radio running.\<close>

definition radio_on :: "hw_cmd list \<Rightarrow> bool" where
  "radio_on cs = foldl (\<lambda>on c. case c of HwTxEn \<Rightarrow> True | HwRxEn _ \<Rightarrow> True | HwEdScan _ \<Rightarrow> True
     | HwDisable \<Rightarrow> False | HwConfigure _ _ \<Rightarrow> on) False cs"

lemma radio_on_snoc [simp]:
  "radio_on (cs @ [HwTxEn])" "radio_on (cs @ [HwRxEn b])" "radio_on (cs @ [HwEdScan n])"
  "\<not> radio_on (cs @ [HwDisable])" "radio_on (cs @ [HwConfigure f w]) = radio_on cs"
  "\<not> radio_on (cs @ [c, HwDisable])"
  by (simp_all add: radio_on_def)

definition frame_buf :: "phy \<Rightarrow> bool" where
  "frame_buf p \<longleftrightarrow> length (ph_frame p) = LG_PDU_OFF + LG_PDU_MAX + LG_CRC_LEN_154"

text \<open>In every state of the machine somebody will come back to it: the timer, or the running radio.\<close>

fun op_ok :: "phy_op \<Rightarrow> fine_cb option \<Rightarrow> bool \<Rightarrow> bool \<Rightarrow> bool" where
  "op_ok LG_OP_IDLE timer on charged \<longleftrightarrow> timer = None \<and> \<not> on"
| "op_ok LG_OP_TX_ARMED timer on charged \<longleftrightarrow> timer = Some Tx_fire \<and> \<not> on"
| "op_ok LG_OP_TX timer on charged \<longleftrightarrow> timer = None \<and> on"
| "op_ok LG_OP_RX_ARMED timer on charged \<longleftrightarrow> timer = Some Rx_fire \<and> \<not> on"
| "op_ok LG_OP_RX timer on charged \<longleftrightarrow> timer = Some Rx_close \<and> on \<and> \<not> charged"

definition phy_inv :: "phy \<Rightarrow> bool" where
  "phy_inv p \<longleftrightarrow> frame_buf p \<and> op_ok (ph_op p) (map_option snd (ph_timer p)) (radio_on (ph_hw p)) (ph_charged p)"

text \<open>The scheduler's callbacks, called with the radio idle, leave the driver in order; they are composed
  of the driver's own commands.\<close>

definition mac_ok :: "(phy_report \<Rightarrow> phy \<Rightarrow> phy option) \<Rightarrow> bool" where
  "mac_ok mac \<longleftrightarrow> (\<forall>r p q. phy_inv p \<longrightarrow> ph_op p = LG_OP_IDLE \<longrightarrow> mac r p = Some q \<longrightarrow> phy_inv q)"

lemma mac_okD: "mac_ok mac \<Longrightarrow> mac r p = Some q \<Longrightarrow> phy_inv p \<Longrightarrow> ph_op p = LG_OP_IDLE \<Longrightarrow> phy_inv q"
  by (simp add: mac_ok_def)

lemma phy_fields [simp]:
  "ph_timer (hw c p) = ph_timer p" "ph_op (hw c p) = ph_op p" "ph_frame (hw c p) = ph_frame p" "ph_charged (hw c p) = ph_charged p"
  "ph_hw (hw c p) = ph_hw p @ [c]" "ph_pwr (hw c p) = ph_pwr p" "ph_now (hw c p) = ph_now p" "ph_timer_ok (hw c p) = ph_timer_ok p"
  "ph_timer (charge d p) = ph_timer p" "ph_op (charge d p) = ph_op p" "ph_frame (charge d p) = ph_frame p"
  "ph_charged (charge d p) = ph_charged p" "ph_hw (charge d p) = ph_hw p" "ph_pwr (charge d p) = ph_pwr p @ [d]"
  "ph_now (charge d p) = ph_now p" "ph_timer_ok (charge d p) = ph_timer_ok p"
  by (simp_all add: hw_def charge_def)

lemma charge_fields [simp]:
  "ph_timer (charge_fixed p) = ph_timer p" "ph_op (charge_fixed p) = ph_op p" "ph_frame (charge_fixed p) = ph_frame p"
  "ph_hw (charge_fixed p) = ph_hw p" "ph_timer_ok (charge_fixed p) = ph_timer_ok p" "ph_now (charge_fixed p) = ph_now p"
  "ph_timer (charge_rx_until e p) = ph_timer p" "ph_op (charge_rx_until e p) = ph_op p" "ph_frame (charge_rx_until e p) = ph_frame p"
  "ph_hw (charge_rx_until e p) = ph_hw p" "ph_now (charge_rx_until e p) = ph_now p" "ph_timer_ok (charge_rx_until e p) = ph_timer_ok p"
  "ph_timer (charge_tx p) = ph_timer p" "ph_frame (charge_tx p) = ph_frame p" "ph_hw (charge_tx p) = ph_hw p"
  "ph_timer_ok (charge_tx p) = ph_timer_ok p"
  by (simp_all add: charge_fixed_def charge_rx_until_def charge_tx_def Let_def)

lemma idle_inv [simp]: "phy_inv (radio_idle p) \<longleftrightarrow> frame_buf p \<and> ph_timer p = None" "ph_op (radio_idle p) = LG_OP_IDLE"
  by (auto simp: phy_inv_def radio_idle_def radio_disable_def frame_buf_def)

lemma rx_dst_inv: "phy_inv (p\<lparr>ph_rx_dst := d\<rparr>) \<longleftrightarrow> phy_inv p"
  by (simp add: phy_inv_def frame_buf_def)

text \<open>What holds when a handler of the timer starts.\<close>

definition fires :: "fine_cb \<Rightarrow> phy \<Rightarrow> bool" where
  "fires cb p \<longleftrightarrow> frame_buf p \<and> ph_timer p = None \<and>
    (case cb of
       Tx_fire \<Rightarrow> ph_op p = LG_OP_TX_ARMED
     | Rx_fire \<Rightarrow> ph_op p = LG_OP_RX_ARMED
     | Rx_close \<Rightarrow> ph_op p = LG_OP_RX \<and> radio_on (ph_hw p) \<and> \<not> ph_charged p)"

lemma fine_step_inv:
  assumes "mac_ok mac" "fires cb p"
  shows "case fine_step mac cb p of Inl r \<Rightarrow> (\<forall>q. r = Some q \<longrightarrow> phy_inv q)
    | Inr (at_us, cb', p') \<Rightarrow> cb' = Rx_close \<and> fires cb' p' \<and> phy_inv (p'\<lparr>ph_timer := Some (at_us, cb')\<rparr>)"
proof (cases cb)
  case Tx_fire
  then show ?thesis using assms(2)
    by (simp add: fine_step_def fires_def tx_fire_def phy_inv_def frame_buf_def)
next
  case Rx_fire
  then show ?thesis using assms(2)
    by (simp add: fine_step_def fires_def rx_fire_def phy_inv_def frame_buf_def Let_def)
next
  case Rx_close
  show ?thesis
  proof (cases "ph_ev_address p")
    case True
    then show ?thesis using assms(2) Rx_close
      by (simp add: fine_step_def fires_def phy_inv_def frame_buf_def)
  next
    case False
    have "phy_inv (radio_idle (charge_rx_until (ph_rx_close_us p) p))"
      using assms(2) by (simp add: fires_def frame_buf_def)
    with False Rx_close assms show ?thesis by (auto simp: fine_step_def fires_def dest: mac_okD)
  qed
qed

lemma run_fine_inv:
  assumes "run_fine mac cb p = Some q" "mac_ok mac" "fires cb p"
  shows "phy_inv q"
proof -
  have "mac_ok mac \<longrightarrow> fires cb p \<longrightarrow> phy_inv q"
  proof (rule run_fine.raw_induct [where P = "\<lambda>mac cb p q. mac_ok mac \<longrightarrow> fires cb p \<longrightarrow> phy_inv q", OF _ assms(1)])
    fix f mac cb p q
    assume ih: "\<And>mac cb p q. f mac cb p = Some q \<Longrightarrow> mac_ok mac \<longrightarrow> fires cb p \<longrightarrow> phy_inv q"
      and body: "(case fine_step mac cb p of Inl r \<Rightarrow> r
        | Inr (at_us, cb', p') \<Rightarrow> if ph_timer_ok p' at_us then Some (p'\<lparr>ph_timer := Some (at_us, cb')\<rparr>)
            else f mac cb' (p'\<lparr>ph_timer := None\<rparr>)) = Some q"
    show "mac_ok mac \<longrightarrow> fires cb p \<longrightarrow> phy_inv q"
    proof (intro impI)
      assume ok: "mac_ok mac" "fires cb p"
      note step = fine_step_inv [OF ok]
      show "phy_inv q"
      proof (cases "fine_step mac cb p")
        case (Inl r)
        then show ?thesis using body step by simp
      next
        case (Inr x)
        obtain at_us cb' p' where x: "x = (at_us, cb', p')" by (cases x)
        have s: "cb' = Rx_close" "fires cb' p'" "phy_inv (p'\<lparr>ph_timer := Some (at_us, cb')\<rparr>)"
          using step unfolding Inr x sum.case prod.case by blast+
        then have "fires cb' (p'\<lparr>ph_timer := None\<rparr>)" by (simp add: fires_def frame_buf_def)
        with ih ok(1) body Inr x s(3) show ?thesis by (auto split: if_splits)
      qed
    qed
  qed
  with assms(2,3) show ?thesis by blast
qed

text \<open>What can happen to the driver: a command while it is idle, a stop, its timer, its interrupt, and the
  hardware itself, which moves the clock, raises events and fills the frame buffer.\<close>

inductive driver_step :: "(phy_report \<Rightarrow> phy \<Rightarrow> phy option) \<Rightarrow> phy \<Rightarrow> phy \<Rightarrow> bool" for mac where
  ds_tx: "ph_op p = LG_OP_IDLE \<Longrightarrow> len \<le> length pdu \<Longrightarrow> phy_tx_at mac at_us chan pdu len p = Some (r, q) \<Longrightarrow> driver_step mac p q"
| ds_rx: "ph_op p = LG_OP_IDLE \<Longrightarrow> phy_rx_window mac open_us close_us chan p = Some (r, q) \<Longrightarrow> driver_step mac p q"
| ds_scan: "ph_op p = LG_OP_IDLE \<Longrightarrow> lg_phy_noise_floor chan us sample p = (dbm, q) \<Longrightarrow> driver_step mac p q"
| ds_stop: "driver_step mac p (phy_stop p)"
| ds_timer: "fine_handler mac p = Some q \<Longrightarrow> driver_step mac p q"
| ds_isr: "lg_phy_isr mac p = Some q \<Longrightarrow> driver_step mac p q"
| ds_hw: "length frame = length (ph_frame p) \<Longrightarrow>
    driver_step mac p (p\<lparr>ph_now := now, ph_ev_address := a, ph_ev_bcmatch := b, ph_ev_end := e, ph_crc_ok := crc,
      ph_rssi_sample := rssi, ph_frame := frame\<rparr>)"

lemma timer_at_inv:
  assumes "mac_ok mac" "fires cb (p\<lparr>ph_timer := None\<rparr>)" "cb = Rx_close \<longrightarrow> False" "\<not> radio_on (ph_hw p)"
    and "lg_ts_timer_at mac at_us cb p = Some q"
  shows "phy_inv q"
proof (cases "ph_timer_ok p at_us")
  case True
  then have "q = p\<lparr>ph_timer := Some (at_us, cb)\<rparr>" using assms(5) by (simp add: lg_ts_timer_at_def)
  then show ?thesis using assms(2,3,4) by (cases cb) (simp_all add: fires_def phy_inv_def frame_buf_def)
next
  case False
  then have "run_fine mac cb (p\<lparr>ph_timer := None\<rparr>) = Some q" using assms(5) by (simp add: lg_ts_timer_at_def)
  then show ?thesis by (rule run_fine_inv [OF _ assms(1,2)])
qed

lemma configure_fields [simp]:
  "ph_op (radio_configure c p) = ph_op p" "ph_timer (radio_configure c p) = ph_timer p" "ph_frame (radio_configure c p) = ph_frame p"
  "radio_on (ph_hw (radio_configure c p)) = radio_on (ph_hw p)" "ph_now (radio_configure c p) = ph_now p"
  "ph_timer_ok (radio_configure c p) = ph_timer_ok p"
  by (simp_all add: radio_configure_def)

lemma with_resultE: "with_result x = Some (r, q) \<Longrightarrow> x = Some q"
  by (simp add: with_result_def split: option.splits)

lemma tx_at_inv:
  assumes "mac_ok mac" "phy_inv p" "ph_op p = LG_OP_IDLE" "len \<le> length pdu"
    and "phy_tx_at mac at_us chan pdu len p = Some (r, q)"
  shows "phy_inv q"
proof (cases "len = 0 \<or> LG_PDU_MAX < len")
  case False
  define u where "u = (radio_configure chan p)\<lparr>ph_frame := blit (blit (ph_frame p) 0 [of_nat (len + LG_CRC_LEN_154)]) LG_PDU_OFF (take len pdu),
    ph_tx_len := len, ph_tx_air_end_us := at_us + ucast (LG_AIRTIME_US (of_nat len))\<rparr>"
  have u: "frame_buf u" "ph_op u = LG_OP_IDLE" "ph_timer u = None" "\<not> radio_on (ph_hw u)"
    using assms(2-4) False by (simp_all add: u_def phy_inv_def frame_buf_def)
  have "q = u \<or> lg_ts_timer_at mac (at_us - ucast LG_RAMPUP_US - LG_TX_CHAIN_US) Tx_fire (u\<lparr>ph_op := LG_OP_TX_ARMED\<rparr>) = Some q"
    using assms(5) False by (auto simp: phy_tx_at_def Let_def u_def split: if_splits dest!: with_resultE)
  then show ?thesis
  proof
    assume "q = u" then show ?thesis using u by (simp add: phy_inv_def)
  next
    assume t: "lg_ts_timer_at mac (at_us - ucast LG_RAMPUP_US - LG_TX_CHAIN_US) Tx_fire (u\<lparr>ph_op := LG_OP_TX_ARMED\<rparr>) = Some q"
    show ?thesis by (rule timer_at_inv [OF assms(1) _ _ _ t]) (use u in \<open>simp_all add: fires_def frame_buf_def\<close>)
  qed
qed (use assms(2,5) in \<open>auto simp: phy_tx_at_def\<close>)

lemma rx_window_inv:
  assumes "mac_ok mac" "phy_inv p" "ph_op p = LG_OP_IDLE" "phy_rx_window mac open_us close_us chan p = Some (r, q)"
  shows "phy_inv q"
proof (cases "close_us \<le> open_us")
  case False
  define u where "u = (radio_configure chan p)\<lparr>ph_rx_close_us := close_us\<rparr>"
  have u: "frame_buf u" "ph_op u = LG_OP_IDLE" "ph_timer u = None" "\<not> radio_on (ph_hw u)"
    using assms(2,3) by (simp_all add: u_def phy_inv_def frame_buf_def)
  have "q = u \<or> lg_ts_timer_at mac (open_us - ucast LG_RAMPUP_US) Rx_fire (u\<lparr>ph_op := LG_OP_RX_ARMED\<rparr>) = Some q"
    using assms(4) False by (auto simp: phy_rx_window_def Let_def u_def split: if_splits dest!: with_resultE)
  then show ?thesis
  proof
    assume "q = u" then show ?thesis using u by (simp add: phy_inv_def)
  next
    assume t: "lg_ts_timer_at mac (open_us - ucast LG_RAMPUP_US) Rx_fire (u\<lparr>ph_op := LG_OP_RX_ARMED\<rparr>) = Some q"
    show ?thesis by (rule timer_at_inv [OF assms(1) _ _ _ t]) (use u in \<open>simp_all add: fires_def frame_buf_def\<close>)
  qed
qed (use assms(2,4) in \<open>auto simp: phy_rx_window_def\<close>)

lemma bcmatch_inv:
  assumes "mac_ok mac" "phy_inv p" "handle_bcmatch mac p = Some q"
  shows "phy_inv q"
proof -
  let ?p = "p\<lparr>ph_ev_bcmatch := False\<rparr>"
  let ?i = "lg_ts_timer_cancel (radio_idle (charge_rx_until (ph_now ?p) ?p))"
  have "phy_inv ?p" "phy_inv ?i" "ph_op ?i = LG_OP_IDLE"
    using assms(2) by (simp_all add: phy_inv_def lg_ts_timer_cancel_def radio_idle_def radio_disable_def frame_buf_def)
  with assms(1,3) show ?thesis by (auto simp: handle_bcmatch_def Let_def split: if_splits dest: mac_okD)
qed

lemma tx_end_inv:
  assumes "mac_ok mac" "frame_buf p" "ph_timer p = None" "handle_tx_end mac p = Some q"
  shows "phy_inv q"
proof -
  have "phy_inv (radio_idle (charge_tx p))" using assms(2,3) by (simp add: frame_buf_def)
  with assms(1,4) show ?thesis by (auto simp: handle_tx_end_def dest: mac_okD)
qed

lemma rx_end_inv:
  assumes "mac_ok mac" "frame_buf p" "handle_rx_end mac p = Some q"
  shows "phy_inv q"
proof -
  let ?i = "radio_idle (charge_rx_until (ph_now p) (lg_ts_timer_cancel p))"
  have i: "phy_inv ?i" "ph_op ?i = LG_OP_IDLE" using assms(2) by (simp_all add: frame_buf_def lg_ts_timer_cancel_def)
  then have "phy_inv (?i\<lparr>ph_rx_dst := d\<rparr>)" for d by (simp add: phy_inv_def frame_buf_def)
  with i assms(1,3) show ?thesis by (auto simp: handle_rx_end_def Let_def split: if_splits dest: mac_okD)
qed

lemma isr_inv:
  assumes "mac_ok mac" "phy_inv p" "lg_phy_isr mac p = Some q"
  shows "phy_inv q"
proof -
  obtain u where u: "(if ph_ev_bcmatch p then handle_bcmatch mac p else Some p) = Some u"
    using assms(3) by (cases "if ph_ev_bcmatch p then handle_bcmatch mac p else Some p") (simp_all add: lg_phy_isr_def)
  have iu: "phy_inv u" using u assms(2) bcmatch_inv [OF assms(1,2)] by (auto split: if_splits)
  let ?v = "u\<lparr>ph_ev_end := False\<rparr>"
  have iv: "phy_inv ?v" "frame_buf ?v" using iu by (simp_all add: phy_inv_def frame_buf_def)
  have "q = u \<or> q = ?v \<or> ph_op u = LG_OP_TX \<and> handle_tx_end mac ?v = Some q \<or> handle_rx_end mac ?v = Some q"
    using assms(3) u by (auto simp: lg_phy_isr_def Let_def split: if_splits phy_op.splits)
  then show ?thesis
    using iu iv tx_end_inv [OF assms(1) iv(2)] rx_end_inv [OF assms(1) iv(2)] by (auto simp: phy_inv_def)
qed

lemma driver_step_inv:
  assumes "mac_ok mac" "driver_step mac p q" "phy_inv p"
  shows "phy_inv q"
  using assms(2)
proof cases
  case ds_tx
  with assms tx_at_inv show ?thesis by blast
next
  case ds_rx
  with assms rx_window_inv show ?thesis by blast
next
  case ds_scan
  then show ?thesis using assms(3)
    by (auto simp: lg_phy_noise_floor_def phy_inv_def radio_disable_def frame_buf_def Let_def)
next
  case ds_stop
  then show ?thesis using assms(3)
    by (simp add: phy_stop_def phy_inv_def lg_ts_timer_cancel_def radio_idle_def radio_disable_def frame_buf_def Let_def)
next
  case ds_timer
  show ?thesis
  proof (cases "ph_timer p")
    case None
    with ds_timer assms(3) show ?thesis by (simp add: fine_handler_def)
  next
    case (Some tc)
    obtain t cb where tc: "tc = (t, cb)" by (cases tc)
    have "fires cb (p\<lparr>ph_timer := None\<rparr>)"
      using assms(3) Some tc by (cases "ph_op p") (auto simp: phy_inv_def fires_def frame_buf_def)
    moreover have "run_fine mac cb (p\<lparr>ph_timer := None\<rparr>) = Some q" using ds_timer Some tc by (simp add: fine_handler_def)
    ultimately show ?thesis using run_fine_inv [OF _ assms(1)] by blast
  qed
next
  case ds_isr
  with assms isr_inv show ?thesis by blast
next
  case (ds_hw frame)
  then show ?thesis using assms(3) by (simp add: phy_inv_def frame_buf_def)
qed


definition phy_zero :: phy where
  "phy_zero = \<lparr>ph_tx_power_dbm = 0, ph_tx_power_enc = (\<lambda>d. word_of_int d), ph_early_abort = True, ph_now = 1000,
     ph_timer_ok = (\<lambda>at_us. 1000 < at_us), ph_ev_address = False, ph_ev_bcmatch = False, ph_ev_end = False,
     ph_crc_ok = True, ph_rssi_sample = 60, ph_hw = [], ph_pwr = [], ph_netid16 = 1, ph_local = 5, ph_promiscuous = True,
     ph_op = LG_OP_IDLE, ph_chan = 0, ph_frame = replicate 128 0, ph_rx_dst = [], ph_rx_close_us = 0,
     ph_tx_air_end_us = 0, ph_tx_len = 0, ph_rx_on_us = 0, ph_charged = False, ph_in_event = False, ph_timer = None\<rparr>"

lemma phy_zero_inv: "phy_inv phy_zero"
  by (simp add: phy_inv_def frame_buf_def phy_zero_def radio_on_def)

lemma mac_ok_note: "mac_ok (\<lambda>r p. Some p)"
  by (simp add: mac_ok_def)

text \<open>Opening a window: the receiver is armed, and then on until the window closes.\<close>

lemma rx_window_arms:
  assumes "open_us < close_us" "ph_now p < open_us - 40" "ph_timer_ok p (open_us - 40)"
  shows "phy_rx_window mac open_us close_us chan p = Some (Inr (), (radio_configure chan p)
    \<lparr>ph_rx_close_us := close_us, ph_op := LG_OP_RX_ARMED, ph_timer := Some (open_us - 40, Rx_fire)\<rparr>)"
  using assms by (simp add: phy_rx_window_def lg_ts_timer_at_def with_result_def Let_def not_le)

lemma rx_fire_arms:
  assumes "ph_timer p = Some (t, Rx_fire)" "ph_timer_ok p (ph_rx_close_us p)"
  shows "fine_handler mac p = Some ((rx_fire (p\<lparr>ph_timer := None\<rparr>))\<lparr>ph_timer := Some (ph_rx_close_us p, Rx_close)\<rparr>)"
  using assms by (simp add: fine_handler_def, intro run_fine_arm) (simp_all add: fine_step_def rx_fire_def Let_def)


section \<open>Frames are on time and paid for\<close>

text \<open>C22: a transmission puts the first bit on the antenna at the time asked for and costs its air time.
  The transmitter is started 41 us ahead (ramp-up and chain delay), the radio holds the length, counting
  the checksum, and the bytes of the frame; when the radio reports the end, exactly one report goes up,
  with the time the last bit leaves, and exactly one air time and one start are charged.\<close>

theorem transmission_exact:
  assumes "ph_op p = LG_OP_IDLE" "frame_buf p" "0 < len" "len \<le> LG_PDU_MAX" "len \<le> length pdu"
    and "ph_now p < at_us - ucast LG_RAMPUP_US - LG_TX_CHAIN_US" "ph_timer_ok p (at_us - ucast LG_RAMPUP_US - LG_TX_CHAIN_US)"
  shows "\<exists>p1 p2 p3. phy_tx_at mac at_us chan pdu len p = Some (Inr (), p1) \<and> lg_phy_busy p1 \<and>
    ph_timer p1 = Some (at_us - 41, Tx_fire) \<and> fine_handler mac p1 = Some p2 \<and>
    radio_on (ph_hw p2) \<and> take (LG_PDU_OFF + len) (ph_frame p2) = of_nat (len + LG_CRC_LEN_154) # take len pdu \<and>
    lg_phy_isr mac (p2\<lparr>ph_ev_bcmatch := False, ph_ev_end := True\<rparr>) =
      mac (TxDone (at_us + ucast (LG_AIRTIME_US (of_nat len)))) p3 \<and>
    \<not> lg_phy_busy p3 \<and> \<not> radio_on (ph_hw p3) \<and>
    ph_pwr p3 = ph_pwr p @ [if ph_in_event p then PwrTurn else PwrStart, PwrCharge LG_PHY_STATE_TX (LG_AIRTIME_US (of_nat len))]"
proof -
  define u where "u = (radio_configure chan p)\<lparr>ph_frame := blit (blit (ph_frame p) 0 [of_nat (len + LG_CRC_LEN_154)]) LG_PDU_OFF (take len pdu),
    ph_tx_len := len, ph_tx_air_end_us := at_us + ucast (LG_AIRTIME_US (of_nat len)), ph_op := LG_OP_TX_ARMED\<rparr>"
  define p1 where "p1 = u\<lparr>ph_timer := Some (at_us - 41, Tx_fire)\<rparr>"
  define p2 where "p2 = tx_fire (p1\<lparr>ph_timer := None\<rparr>)"
  let ?v = "p2\<lparr>ph_ev_bcmatch := False, ph_ev_end := False\<rparr>"
  have t: "at_us - ucast LG_RAMPUP_US - LG_TX_CHAIN_US = at_us - 41" by (simp add: diff_diff_eq)
  have r1: "phy_tx_at mac at_us chan pdu len p = Some (Inr (), p1)"
    using assms(3,4,6,7) unfolding t
    by (simp add: phy_tx_at_def t lg_ts_timer_at_def with_result_def u_def p1_def Let_def)
  have r2: "fine_handler mac p1 = Some p2" by (simp add: fine_handler_def run_fine_done fine_step_def p1_def p2_def)
  have f: "take (LG_PDU_OFF + len) (ph_frame p2) = of_nat (len + LG_CRC_LEN_154) # take len pdu"
    using assms(2-5) by (simp add: p2_def p1_def u_def tx_fire_def frame_buf_def blit_def min_def)
  have op2: "ph_op p2 = LG_OP_TX" by (simp add: p2_def tx_fire_def)
  then have r3: "lg_phy_isr mac (p2\<lparr>ph_ev_bcmatch := False, ph_ev_end := True\<rparr>) = handle_tx_end mac ?v"
    by (simp add: lg_phy_isr_def Let_def)
  have e: "ph_tx_air_end_us ?v = at_us + ucast (LG_AIRTIME_US (of_nat len))" "ph_tx_len ?v = len"
    by (simp_all add: p2_def p1_def u_def tx_fire_def hw_def charge_fixed_def charge_def)
  have w: "ph_pwr ?v = ph_pwr p @ [if ph_in_event p then PwrTurn else PwrStart]"
    by (simp add: p2_def p1_def u_def tx_fire_def charge_fixed_def radio_configure_def hw_def charge_def)
  let ?q = "radio_idle (charge_tx ?v)"
  have "ph_pwr ?q = ph_pwr ?v @ [PwrCharge LG_PHY_STATE_TX (LG_AIRTIME_US (of_nat len))]"
    by (simp add: radio_idle_def radio_disable_def hw_def charge_tx_def charge_def e)
  moreover have "\<not> lg_phy_busy ?q" "\<not> radio_on (ph_hw ?q)"
    by (simp_all add: lg_phy_busy_def radio_idle_def radio_disable_def)
  moreover have "lg_phy_isr mac (p2\<lparr>ph_ev_bcmatch := False, ph_ev_end := True\<rparr>) = mac (TxDone (at_us + ucast (LG_AIRTIME_US (of_nat len)))) ?q"
    by (simp only: r3 handle_tx_end_def e)
  moreover have "lg_phy_busy p1" "ph_timer p1 = Some (at_us - 41, Tx_fire)" by (simp_all add: lg_phy_busy_def p1_def u_def)
  moreover have "radio_on (ph_hw p2)" by (simp add: p2_def tx_fire_def)
  ultimately show ?thesis using r1 r2 f w by auto
qed

theorem transmission_exact_witness:
  "\<exists>p1 p2 p3. phy_tx_at (\<lambda>r p. Some p) 2000 15 [1, 2, 3] 3 phy_zero = Some (Inr (), p1) \<and>
     fine_handler (\<lambda>r p. Some p) p1 = Some p2 \<and> take 4 (ph_frame p2) = [5, 1, 2, 3] \<and>
     lg_phy_isr (\<lambda>r p. Some p) (p2\<lparr>ph_ev_bcmatch := False, ph_ev_end := True\<rparr>) = Some p3 \<and>
     ph_pwr p3 = [PwrStart, PwrCharge LG_PHY_STATE_TX 352]"
proof -
  have h: "ph_op phy_zero = LG_OP_IDLE" "frame_buf phy_zero" "(0 :: nat) < 3" "(3 :: nat) \<le> LG_PDU_MAX"
    "(3 :: nat) \<le> length [1, 2, 3 :: u8]" "ph_now phy_zero < 2000 - ucast LG_RAMPUP_US - LG_TX_CHAIN_US"
    "ph_timer_ok phy_zero (2000 - ucast LG_RAMPUP_US - LG_TX_CHAIN_US)"
    and z: "ph_pwr phy_zero = []" "\<not> ph_in_event phy_zero"
    by (simp_all add: phy_zero_def frame_buf_def)
  from transmission_exact [OF h, of "\<lambda>r p. Some p" 15] z show ?thesis
    by (simp add: LG_AIRTIME_US_def) blast
qed

text \<open>A received frame is reported once, with its exact place in time. When the end of a frame with a
  good checksum is signalled, the scheduler gets exactly the bytes in the buffer without the checksum;
  the last bit is put 22 us (the chain delay) before now and the first bit exactly one air time before
  that, so that links can take their anchor from it; the receiver is off, its timer is gone, and its
  on-time has been charged once, up to now.\<close>

theorem reception_exact:
  assumes "phy_inv p" "ph_op p = LG_OP_RX" "ph_ev_end p" "\<not> ph_ev_bcmatch p" "ph_crc_ok p"
    and "ph_frame p ! 0 = of_nat (len + LG_CRC_LEN_154)" "0 < len" "len \<le> LG_PDU_MAX"
  shows "\<exists>rx q. lg_phy_isr mac p = mac (RxDone rx) q \<and>
    px_len rx = len \<and> px_pdu rx = take len (drop LG_PDU_OFF (ph_frame p)) \<and> ph_rx_dst q = px_pdu rx \<and>
    px_air_end_us rx + LG_RX_CHAIN_US = ph_now p \<and>
    px_air_start_us rx + ucast (LG_AIRTIME_US (of_nat len)) = px_air_end_us rx \<and>
    phy_inv q \<and> \<not> lg_phy_busy q \<and>
    ph_pwr q = ph_pwr p @ (if ph_rx_on_us p < ph_now p
      then [PwrCharge LG_PHY_STATE_RX (ucast (ph_now p - ph_rx_on_us p))] else [])"
proof -
  let ?p = "p\<lparr>ph_ev_end := False\<rparr>"
  let ?i = "radio_idle (charge_rx_until (ph_now p) (lg_ts_timer_cancel ?p))"
  let ?pdu = "take len (drop LG_PDU_OFF (ph_frame p))"
  let ?rx = "\<lparr>px_pdu = ?pdu, px_len = len, px_rssi = to_s8 (- to_s8 (uint (ph_rssi_sample p))),
    px_air_start_us = ph_now p - LG_RX_CHAIN_US - ucast (LG_AIRTIME_US (of_nat len)), px_air_end_us = ph_now p - LG_RX_CHAIN_US\<rparr>"
  have n: "unat (ph_frame p ! 0) = len + LG_CRC_LEN_154" unfolding assms(6) using assms(8) by (intro unat_of_nat_small) simp
  have fr: "ph_frame ?i = ph_frame p" by (simp add: radio_idle_def radio_disable_def lg_ts_timer_cancel_def)
  have isr: "lg_phy_isr mac p = handle_rx_end mac ?p" using assms(2-4) by (simp add: lg_phy_isr_def Let_def)
  have rx: "handle_rx_end mac ?p = mac (RxDone ?rx) (?i\<lparr>ph_rx_dst := ?pdu\<rparr>)"
    using assms(5,7,8) n fr by (simp add: handle_rx_end_def Let_def)
  have "frame_buf p" using assms(1) by (simp add: phy_inv_def)
  then have "phy_inv ?i" by (simp add: frame_buf_def lg_ts_timer_cancel_def)
  then have inv: "phy_inv (?i\<lparr>ph_rx_dst := ?pdu\<rparr>)" "\<not> lg_phy_busy (?i\<lparr>ph_rx_dst := ?pdu\<rparr>)"
    by (simp_all add: rx_dst_inv lg_phy_busy_def)
  have "\<not> ph_charged p" using assms(1,2) by (simp add: phy_inv_def)
  then have "ph_pwr ?i = ph_pwr p @ (if ph_rx_on_us p < ph_now p
      then [PwrCharge LG_PHY_STATE_RX (ucast (ph_now p - ph_rx_on_us p))] else [])"
    by (simp add: radio_idle_def radio_disable_def hw_def charge_rx_until_def charge_def lg_ts_timer_cancel_def Let_def)
  with inv show ?thesis unfolding isr rx by (intro exI [of _ ?rx] exI [of _ "?i\<lparr>ph_rx_dst := ?pdu\<rparr>"]) simp
qed

definition demo_arrival :: phy where
  "demo_arrival = (rx_fire phy_zero)\<lparr>ph_timer := Some (3000, Rx_close), ph_now := 2500, ph_ev_end := True,
     ph_frame := [7, 1, 2, 3, 4, 5] @ replicate 122 0\<rparr>"

theorem reception_exact_witness:
  "\<exists>q. lg_phy_isr (\<lambda>r p. Some p) demo_arrival = Some q \<and> ph_rx_dst q = [1, 2, 3, 4, 5] \<and> \<not> lg_phy_busy q"
proof -
  have h: "phy_inv demo_arrival" "ph_op demo_arrival = LG_OP_RX" "ph_ev_end demo_arrival" "\<not> ph_ev_bcmatch demo_arrival"
    "ph_crc_ok demo_arrival" "ph_frame demo_arrival ! 0 = of_nat (5 + LG_CRC_LEN_154)" "(0 :: nat) < 5" "(5 :: nat) \<le> LG_PDU_MAX"
    and pdu: "take 5 (drop LG_PDU_OFF (ph_frame demo_arrival)) = [1, 2, 3, 4, 5]"
    by (simp_all add: demo_arrival_def rx_fire_def charge_fixed_def charge_def hw_def phy_zero_def phy_inv_def frame_buf_def radio_on_def Let_def)
  from reception_exact [OF h, of "\<lambda>r p. Some p"] pdu show ?thesis by auto
qed

text \<open>The closing of a window while a frame is arriving arms the timer again for the end of that frame. If
  that time has gone by as well, the handler runs at once, finds the same state, and so on: it never
  returns.\<close>

lemma window_close_hangs:
  assumes "ph_op p = LG_OP_RX" "ph_ev_address p" "\<not> ph_timer_ok p (ph_rx_close_us p + ucast (rx_remaining p))"
  shows "run_fine mac Rx_close p = None"
proof (cases "run_fine mac Rx_close p")
  case (Some q)
  have "cb = Rx_close \<longrightarrow> ph_op p = LG_OP_RX \<longrightarrow> ph_ev_address p \<longrightarrow>
      \<not> ph_timer_ok p (ph_rx_close_us p + ucast (rx_remaining p)) \<longrightarrow> False" if "run_fine mac cb p = Some q" for mac cb p q
  proof (rule run_fine.raw_induct [where P = "\<lambda>mac cb p q. cb = Rx_close \<longrightarrow> ph_op p = LG_OP_RX \<longrightarrow> ph_ev_address p \<longrightarrow>
      \<not> ph_timer_ok p (ph_rx_close_us p + ucast (rx_remaining p)) \<longrightarrow> False", OF _ that])
    fix f mac cb p q
    assume ih: "\<And>mac cb p q. f mac cb p = Some q \<Longrightarrow> cb = Rx_close \<longrightarrow> ph_op p = LG_OP_RX \<longrightarrow> ph_ev_address p \<longrightarrow>
        \<not> ph_timer_ok p (ph_rx_close_us p + ucast (rx_remaining p)) \<longrightarrow> False"
      and body: "(case fine_step mac cb p of Inl r \<Rightarrow> r
        | Inr (at_us, cb', p') \<Rightarrow> if ph_timer_ok p' at_us then Some (p'\<lparr>ph_timer := Some (at_us, cb')\<rparr>)
            else f mac cb' (p'\<lparr>ph_timer := None\<rparr>)) = Some q"
    show "cb = Rx_close \<longrightarrow> ph_op p = LG_OP_RX \<longrightarrow> ph_ev_address p \<longrightarrow>
        \<not> ph_timer_ok p (ph_rx_close_us p + ucast (rx_remaining p)) \<longrightarrow> False"
    proof (intro impI)
      assume a: "cb = Rx_close" "ph_op p = LG_OP_RX" "ph_ev_address p" "\<not> ph_timer_ok p (ph_rx_close_us p + ucast (rx_remaining p))"
      then have "f mac Rx_close (p\<lparr>ph_timer := None\<rparr>) = Some q" using body by (simp add: fine_step_def)
      from ih [OF this] a show False by (simp add: rx_remaining_def)
    qed
  qed
  with Some assms show ?thesis by blast
qed simp

text \<open>The transmit power is the highest level the chip has that does not exceed the one asked for.\<close>

lemma tx_power_never_exceeds:
  assumes "-46 \<le> dbm"
  shows "tx_power_level dbm \<in> set tx_power_table \<and> tx_power_level dbm \<le> dbm \<and>
    (\<forall>d\<in>set tx_power_table. d \<le> dbm \<longrightarrow> d \<le> tx_power_level dbm)"
  using assms by (auto simp: tx_power_level_def tx_power_table_def)

section \<open>The driver is the radio the rest of the node is modelled with\<close>

text \<open>Which commands the driver takes: a sensible length or span, and a start that is still ahead.\<close>

fun driver_accepts :: "phy \<Rightarrow> radio_call \<Rightarrow> bool" where
  "driver_accepts p (PhyTxAt at_us chan pdu len) \<longleftrightarrow>
     0 < len \<and> len \<le> LG_PDU_MAX \<and> ph_now p < at_us - ucast LG_RAMPUP_US - LG_TX_CHAIN_US"
| "driver_accepts p (PhyRxWindow open_us close_us chan) \<longleftrightarrow> open_us < close_us \<and> ph_now p < open_us - ucast LG_RAMPUP_US"
| "driver_accepts p PhyStop \<longleftrightarrow> True"
| "driver_accepts p (TsTimer at_us) \<longleftrightarrow> True"

text \<open>A state of the driver and the node it serves: the node's idea of whether the radio is busy and of
  which commands it takes is the driver's.\<close>

definition serves :: "phy \<Rightarrow> ctx \<Rightarrow> bool" where
  "serves p s \<longleftrightarrow> phy_inv p \<and> c_phy_busy s = lg_phy_busy p \<and> (\<forall>c. (\<forall>t. c \<noteq> TsTimer t) \<longrightarrow> c_phy_ok s c = driver_accepts p c)"

text \<open>A timer whose target is ahead is armed.\<close>

definition timer_works :: "phy \<Rightarrow> bool" where
  "timer_works p \<longleftrightarrow> (\<forall>t. ph_now p < t \<longrightarrow> ph_timer_ok p t)"

lemma accepts_same: "ph_now q = ph_now p \<Longrightarrow> driver_accepts q c = driver_accepts p c"
  by (cases c) simp_all

lemma now_configure [simp]: "ph_now (radio_configure c p) = ph_now p"
  by (simp add: radio_configure_def)



end
