(* ===== verification/LG_Mpsl.thy ===== *)
theory LG_Mpsl
  imports LG_Phy
begin

text \<open>
  The other arbiter (\<open>lg_ts_mpsl.c\<close>): every radio event is a timeslot of the MPSL library, so that the
  chip can be shared with Bluetooth LE. The library is not part of the program: its limits are fields
  of the record, the calls into it are recorded and accepted or not (\<open>mp_call_ok\<close>), and the signals it
  raises are arguments of \<open>signal_cb\<close>. What the callbacks do - the scheduler's, the driver's interrupt
  and the fine timer's - is a parameter \<open>mac\<close>.

  At the end, the contract of \<open>lg_ts.h\<close> is a locale, and both arbiters are instances of it.
\<close>

section \<open>State\<close>

datatype lg_ts_op = LG_TS_OP_OPEN | LG_TS_OP_REQUEST | LG_TS_OP_CLOSE

datatype lg_ts_fail = LG_TS_FAIL_BLOCKED | LG_TS_FAIL_CANCELLED

text \<open>The signals of the library.\<close>

datatype mpsl_signal = MPSL_START | MPSL_RADIO | MPSL_TIMER0 | MPSL_BLOCKED | MPSL_CANCELLED
  | MPSL_SESSION_IDLE | MPSL_SESSION_CLOSED | MPSL_OVERSTAYED | MPSL_INVALID_RETURN

text \<open>A request measures its distance from the last slot, or asks for the soonest slot there is.
  \<open>True\<close> is high priority.\<close>

datatype mpsl_request =
    ReqNormal bool u32 u32
  | ReqEarliest bool u32 u32

datatype slot_action = ACTION_NONE | ACTION_END | ACTION_EXTEND u32

datatype mpsl_call = CallOpen | CallRequest mpsl_request | CallClose

text \<open>What is called from the arbiter. The \<open>void *user\<close> of a request is a number.\<close>

datatype ts_report = CbGranted u64 nat | CbFailed lg_ts_fail nat | CbRadioIsr | CbFine fine_cb

text \<open>First the configuration and the library, then the static \<open>ts\<close>, the returned action, the compare
  channel of the slot's timer and the queue of the thread.\<close>

record mpsl =
  mp_margin_us :: u32
  mp_len_min_us :: u32
  mp_len_max_us :: u32
  mp_dist_max_us :: u64
  mp_ext_min_us :: u32
  mp_now :: u64
  mp_call_ok :: "mpsl_call \<Rightarrow> bool"
  mp_calls :: "mpsl_call list"
  mp_session_open :: bool
  mp_req_at_us :: u64
  mp_req_len_us :: u32
  mp_req_urgent :: bool
  mp_req_user :: nat
  mp_req_pending :: bool
  mp_granted :: bool
  mp_slot_start_us :: u64
  mp_grant_end_us :: u64
  mp_slot_len_us :: u32
  mp_user :: nat
  mp_last_slot_start_us :: u64
  mp_have_last_slot :: bool
  mp_fine_cb :: "fine_cb option"
  mp_fine_at_us :: u64
  mp_ret :: slot_action
  mp_timer0 :: "u32 option"
  mp_msgq :: "lg_ts_op list"

type_synonym mpsl_mac = "ts_report \<Rightarrow> mpsl \<Rightarrow> mpsl"

abbreviation (input) MPSL_MIN_LEAD_US :: u64 where "MPSL_MIN_LEAD_US \<equiv> 300"
abbreviation (input) LG_TS_EARLIEST_TIMEOUT_US :: u32 where "LG_TS_EARLIEST_TIMEOUT_US \<equiv> 100000"
abbreviation (input) LG_TS_MSGQ_DEPTH :: nat where "LG_TS_MSGQ_DEPTH \<equiv> 4"

definition k_msgq_put :: "lg_ts_op \<Rightarrow> mpsl \<Rightarrow> (errno + unit) \<times> mpsl" where
  "k_msgq_put op s =
    (if length (mp_msgq s) < LG_TS_MSGQ_DEPTH then (Inr (), s\<lparr>mp_msgq := mp_msgq s @ [op]\<rparr>) else (Inl ENOMSG, s))"

definition mpsl_call :: "mpsl_call \<Rightarrow> mpsl \<Rightarrow> bool \<times> mpsl" where
  "mpsl_call c s = (mp_call_ok s c, s\<lparr>mp_calls := mp_calls s @ [c]\<rparr>)"

section \<open>Requests\<close>

definition build_request :: "mpsl \<Rightarrow> mpsl_request" where
  "build_request s =
    (let len = CLAMP (mp_req_len_us s + mp_margin_us s) (mp_len_min_us s) (mp_len_max_us s);
         distance = mp_req_at_us s - mp_last_slot_start_us s
     in if mp_have_last_slot s \<and> mp_last_slot_start_us s < mp_req_at_us s \<and> distance \<le> mp_dist_max_us s
        then ReqNormal (mp_req_urgent s) (ucast distance) len
        else ReqEarliest (mp_req_urgent s) len LG_TS_EARLIEST_TIMEOUT_US)"

definition mpsl_ts_request :: "u64 \<Rightarrow> u32 \<Rightarrow> bool \<Rightarrow> nat \<Rightarrow> mpsl \<Rightarrow> (errno + unit) \<times> mpsl" where
  "mpsl_ts_request at_us len_us urgent user s =
    (if at_us < mp_now s + MPSL_MIN_LEAD_US then (Inl EINVAL, s)
     else k_msgq_put LG_TS_OP_REQUEST
       (s\<lparr>mp_req_at_us := at_us, mp_req_len_us := min len_us (mp_len_max_us s - mp_margin_us s),
          mp_req_urgent := urgent, mp_req_user := user, mp_req_pending := True\<rparr>))"

definition mpsl_ts_init :: "mpsl \<Rightarrow> (errno + unit) \<times> mpsl" where
  "mpsl_ts_init s =
    k_msgq_put LG_TS_OP_OPEN (s\<lparr>mp_granted := False, mp_have_last_slot := False, mp_session_open := False\<rparr>)"

definition mpsl_ts_uninit :: "mpsl \<Rightarrow> mpsl" where
  "mpsl_ts_uninit s = snd (k_msgq_put LG_TS_OP_CLOSE (s\<lparr>mp_granted := False, mp_req_pending := False\<rparr>))"

definition mpsl_ts_release :: "mpsl \<Rightarrow> mpsl" where
  "mpsl_ts_release s =
    (if \<not> mp_granted s then s
     else s\<lparr>mp_timer0 := None, mp_granted := False, mp_fine_cb := None, mp_ret := ACTION_END\<rparr>)"

definition mpsl_ts_extend :: "u32 \<Rightarrow> mpsl \<Rightarrow> (errno + unit) \<times> mpsl" where
  "mpsl_ts_extend extra_us s =
    (if \<not> mp_granted s then (Inl EBUSY, s)
     else if mp_len_max_us s < mp_slot_len_us s + extra_us then (Inl EBUSY, s)
     else (Inr (), s\<lparr>mp_ret := ACTION_EXTEND (max extra_us (mp_ext_min_us s))\<rparr>))"

definition mpsl_ts_granted :: "mpsl \<Rightarrow> bool" where
  "mpsl_ts_granted s = mp_granted s"

definition mpsl_ts_grant_end_us :: "mpsl \<Rightarrow> u64" where
  "mpsl_ts_grant_end_us s = (if mp_granted s then mp_grant_end_us s else 0)"

definition mpsl_ts_max_grant_us :: "mpsl \<Rightarrow> u32" where
  "mpsl_ts_max_grant_us s = mp_len_max_us s - mp_margin_us s"

section \<open>The fine timer\<close>

definition fine_timer_arm :: "u64 \<Rightarrow> mpsl \<Rightarrow> mpsl" where
  "fine_timer_arm at_us s =
    (if \<not> mp_granted s then s
     else
       let rel = (if mp_slot_start_us s < at_us then at_us - mp_slot_start_us s else 1)
       in if ucast (mp_slot_len_us s) < rel then s else s\<lparr>mp_timer0 := Some (ucast rel)\<rparr>)"

definition mpsl_timer_at :: "u64 \<Rightarrow> fine_cb \<Rightarrow> mpsl \<Rightarrow> mpsl" where
  "mpsl_timer_at at_us cb s =
    (let s1 = s\<lparr>mp_fine_cb := Some cb, mp_fine_at_us := at_us\<rparr>
     in if mp_granted s1 then fine_timer_arm at_us s1 else s1)"

definition mpsl_timer_cancel :: "mpsl \<Rightarrow> mpsl" where
  "mpsl_timer_cancel s =
    (let s1 = s\<lparr>mp_fine_cb := None\<rparr> in if mp_granted s1 then s1\<lparr>mp_timer0 := None\<rparr> else s1)"

section \<open>Signals and the thread\<close>

text \<open>The start of a slot, up to the callback of the scheduler.\<close>

definition slot_begin :: "mpsl \<Rightarrow> mpsl" where
  "slot_begin s =
    (let len = mp_req_len_us s + mp_margin_us s;
         s1 = s\<lparr>mp_slot_start_us := mp_now s, mp_last_slot_start_us := mp_now s, mp_have_last_slot := True,
               mp_granted := True, mp_req_pending := False, mp_slot_len_us := len,
               mp_grant_end_us := mp_now s + ucast len, mp_user := mp_req_user s, mp_timer0 := None\<rparr>
     in if mp_fine_cb s1 \<noteq> None then fine_timer_arm (mp_fine_at_us s1) s1 else s1)"

definition slot_lost :: "mpsl \<Rightarrow> mpsl" where
  "slot_lost s = s\<lparr>mp_req_pending := False, mp_granted := False\<rparr>"

definition slot_timer :: "mpsl_mac \<Rightarrow> mpsl \<Rightarrow> mpsl" where
  "slot_timer mac s =
    (let s1 = s\<lparr>mp_timer0 := None, mp_fine_cb := None\<rparr>
     in case mp_fine_cb s of None \<Rightarrow> s1 | Some cb \<Rightarrow> mac (CbFine cb) s1)"

fun signal_body :: "mpsl_mac \<Rightarrow> mpsl_signal \<Rightarrow> mpsl \<Rightarrow> mpsl" where
  "signal_body mac MPSL_START s =
    (let s1 = slot_begin s in mac (CbGranted (mp_slot_start_us s1) (mp_user s1)) s1)"
| "signal_body mac MPSL_RADIO s = mac CbRadioIsr s"
| "signal_body mac MPSL_TIMER0 s = slot_timer mac s"
| "signal_body mac MPSL_BLOCKED s = mac (CbFailed LG_TS_FAIL_BLOCKED (mp_req_user s)) (slot_lost s)"
| "signal_body mac MPSL_CANCELLED s = mac (CbFailed LG_TS_FAIL_CANCELLED (mp_req_user s)) (slot_lost s)"
| "signal_body mac MPSL_SESSION_IDLE s = s"
| "signal_body mac MPSL_SESSION_CLOSED s = s\<lparr>mp_session_open := False, mp_granted := False, mp_have_last_slot := False\<rparr>"
| "signal_body mac MPSL_OVERSTAYED s = s"
| "signal_body mac MPSL_INVALID_RETURN s = s"

definition signal_cb :: "mpsl_mac \<Rightarrow> mpsl_signal \<Rightarrow> mpsl \<Rightarrow> slot_action \<times> mpsl" where
  "signal_cb mac sig s = (let s1 = signal_body mac sig (s\<lparr>mp_ret := ACTION_NONE\<rparr>) in (mp_ret s1, s1))"

text \<open>One message of the thread.\<close>

fun thread_op :: "mpsl_mac \<Rightarrow> lg_ts_op \<Rightarrow> mpsl \<Rightarrow> mpsl" where
  "thread_op mac LG_TS_OP_OPEN s =
    (if mp_session_open s then s
     else let (ok, s1) = mpsl_call CallOpen s in if ok then s1\<lparr>mp_session_open := True\<rparr> else s1)"
| "thread_op mac LG_TS_OP_REQUEST s =
    (if \<not> mp_session_open s then s
     else let (ok, s1) = mpsl_call (CallRequest (build_request s)) s
          in if ok then s1 else mac (CbFailed LG_TS_FAIL_BLOCKED (mp_req_user s1)) (s1\<lparr>mp_req_pending := False\<rparr>))"
| "thread_op mac LG_TS_OP_CLOSE s = (if mp_session_open s then snd (mpsl_call CallClose s) else s)"

definition ts_thread :: "mpsl_mac \<Rightarrow> mpsl \<Rightarrow> mpsl" where
  "ts_thread mac s = (case mp_msgq s of [] \<Rightarrow> s | op # rest \<Rightarrow> thread_op mac op (s\<lparr>mp_msgq := rest\<rparr>))"

section \<open>Slots that start when they were asked for\<close>

lemma build_request_cases:
  "build_request s = (if mp_have_last_slot s \<and> mp_last_slot_start_us s < mp_req_at_us s \<and>
       mp_req_at_us s - mp_last_slot_start_us s \<le> mp_dist_max_us s
     then ReqNormal (mp_req_urgent s) (ucast (mp_req_at_us s - mp_last_slot_start_us s))
       (CLAMP (mp_req_len_us s + mp_margin_us s) (mp_len_min_us s) (mp_len_max_us s))
     else ReqEarliest (mp_req_urgent s) (CLAMP (mp_req_len_us s + mp_margin_us s) (mp_len_min_us s) (mp_len_max_us s))
       LG_TS_EARLIEST_TIMEOUT_US)"
  by (simp add: build_request_def Let_def)

lemma unat_u32: "unat w < 2 ^ 32" for w :: u32
  using unsigned_less [where 'a = nat and w = w] by simp

text \<open>Within the reach of the library the distance is not truncated.\<close>

lemma distance_exact:
  fixes a b m :: u64
  assumes "a < b" "b - a \<le> m" "m < 2 ^ 32"
  shows "a + ucast (ucast (b - a) :: u32) = b"
proof -
  have "unat (b - a) < 2 ^ 32"
  proof -
    have "b - a < 2 ^ 32" by (rule le_less_trans [OF assms(2,3)])
    then show ?thesis by (simp add: word_less_nat_alt)
  qed
  then have "unat (ucast (ucast (b - a) :: u32) :: u64) = unat (b - a)"
    by (simp add: unat_ucast_small unat_ucast_up)
  then have "ucast (ucast (b - a) :: u32) = b - a" by (rule word_unat_eq_iff [THEN iffD2])
  then show ?thesis by simp
qed

text \<open>A timer inside the slot is programmed as its distance from the start of the slot.\<close>

lemma timer_inside:
  assumes "mp_granted s" "mp_slot_start_us s < at_us" "at_us - mp_slot_start_us s \<le> ucast (mp_slot_len_us s)"
  shows "mpsl_timer_at at_us cb s = s\<lparr>mp_fine_cb := Some cb, mp_fine_at_us := at_us,
    mp_timer0 := Some (ucast (at_us - mp_slot_start_us s))\<rparr>"
  using assms by (simp add: mpsl_timer_at_def fine_timer_arm_def Let_def not_less)

text \<open>A timer beyond the end is remembered, but not programmed.\<close>

lemma timer_outside:
  assumes "mp_granted s" "mp_slot_start_us s < at_us" "ucast (mp_slot_len_us s) < at_us - mp_slot_start_us s"
  shows "mpsl_timer_at at_us cb s = s\<lparr>mp_fine_cb := Some cb, mp_fine_at_us := at_us\<rparr>"
  using assms by (simp add: mpsl_timer_at_def fine_timer_arm_def Let_def)

lemma timer_fires:
  assumes "mp_fine_cb s = Some cb"
  shows "snd (signal_cb mac MPSL_TIMER0 s) = mac (CbFine cb) (s\<lparr>mp_ret := ACTION_NONE, mp_timer0 := None, mp_fine_cb := None\<rparr>)"
  using assms by (simp add: signal_cb_def slot_timer_def Let_def)

lemma slot_begin_fields [simp]:
  "mp_granted (slot_begin s)" "\<not> mp_req_pending (slot_begin s)" "mp_slot_start_us (slot_begin s) = mp_now s"
  "mp_slot_len_us (slot_begin s) = mp_req_len_us s + mp_margin_us s" "mp_user (slot_begin s) = mp_req_user s"
  "mp_grant_end_us (slot_begin s) = mp_now s + ucast (mp_req_len_us s + mp_margin_us s)"
  "mp_last_slot_start_us (slot_begin s) = mp_now s" "mp_have_last_slot (slot_begin s)" "mp_now (slot_begin s) = mp_now s"
  "mp_margin_us (slot_begin s) = mp_margin_us s" "mp_len_max_us (slot_begin s) = mp_len_max_us s"
  "mp_fine_cb (slot_begin s) = mp_fine_cb s"
  by (simp_all add: slot_begin_def fine_timer_arm_def Let_def)

text \<open>A request the thread can pass on.\<close>

lemma msgq_none: "mp_msgq s = [] \<Longrightarrow> s\<lparr>mp_msgq := []\<rparr> = s"
  by (cases s) simp

lemma request_passed_on:
  fixes s :: mpsl and at_us :: u64 and len_us :: u32 and urgent :: bool and user :: nat
  assumes "mp_session_open s" "mp_msgq s = []" "mp_now s + MPSL_MIN_LEAD_US \<le> at_us" "\<And>c. mp_call_ok s c"
  defines "r \<equiv> s\<lparr>mp_req_at_us := at_us, mp_req_len_us := min len_us (mp_len_max_us s - mp_margin_us s),
      mp_req_urgent := urgent, mp_req_user := user, mp_req_pending := True\<rparr>"
  shows "mpsl_ts_request at_us len_us urgent user s = (Inr (), r\<lparr>mp_msgq := [LG_TS_OP_REQUEST]\<rparr>)"
    and "ts_thread mac (r\<lparr>mp_msgq := [LG_TS_OP_REQUEST]\<rparr>) = r\<lparr>mp_calls := mp_calls s @ [CallRequest (build_request r)]\<rparr>"
proof -
  show "mpsl_ts_request at_us len_us urgent user s = (Inr (), r\<lparr>mp_msgq := [LG_TS_OP_REQUEST]\<rparr>)"
    using assms(2,3) by (simp add: mpsl_ts_request_def k_msgq_put_def r_def not_less)
  have "mp_msgq r = []" using assms(2) by (simp add: r_def)
  then have same: "r\<lparr>mp_msgq := []\<rparr> = r" by (rule msgq_none)
  have "ts_thread mac (r\<lparr>mp_msgq := [LG_TS_OP_REQUEST]\<rparr>) = thread_op mac LG_TS_OP_REQUEST (r\<lparr>mp_msgq := []\<rparr>)"
    by (simp add: ts_thread_def del: thread_op.simps)
  then have "ts_thread mac (r\<lparr>mp_msgq := [LG_TS_OP_REQUEST]\<rparr>) = thread_op mac LG_TS_OP_REQUEST r" unfolding same .
  moreover have "mp_session_open r" "\<And>c. mp_call_ok r c" "mp_calls r = mp_calls s" using assms(1,4) by (simp_all add: r_def)
  ultimately show "ts_thread mac (r\<lparr>mp_msgq := [LG_TS_OP_REQUEST]\<rparr>) = r\<lparr>mp_calls := mp_calls s @ [CallRequest (build_request r)]\<rparr>"
    by (simp add: mpsl_call_def)
qed

text \<open>C23: timeslots turn distances back into absolute time. When a slot was held before and the wanted
  start is within the reach of the library, the request that goes out asks for exactly the missing
  distance; when the slot then starts at that time, every timer set inside it is programmed so that it
  fires at the absolute time asked for, and firing runs the handler that was set.\<close>

theorem slots_keep_absolute_time:
  assumes "mp_session_open s" "mp_msgq s = []" "mp_now s + MPSL_MIN_LEAD_US \<le> at_us" "\<And>c. mp_call_ok s c"
    and "mp_have_last_slot s" "mp_last_slot_start_us s < at_us"
    and "at_us - mp_last_slot_start_us s \<le> mp_dist_max_us s" "mp_dist_max_us s < 2 ^ 32"
  shows "\<exists>s1 s2 dist len. mpsl_ts_request at_us len_us urgent user s = (Inr (), s1) \<and> ts_thread mac s1 = s2 \<and>
    mp_calls s2 = mp_calls s @ [CallRequest (ReqNormal urgent dist len)] \<and> mp_last_slot_start_us s + ucast dist = at_us \<and>
    (let s3 = slot_begin (s2\<lparr>mp_now := at_us\<rparr>)
     in snd (signal_cb mac MPSL_START (s2\<lparr>mp_now := at_us, mp_ret := ACTION_NONE\<rparr>)) =
          mac (CbGranted at_us user) (slot_begin (s2\<lparr>mp_now := at_us, mp_ret := ACTION_NONE\<rparr>)) \<and>
        (\<forall>t cb. at_us < t \<longrightarrow> t - at_us \<le> ucast (mp_slot_len_us s3) \<longrightarrow>
          (\<exists>rel. mp_timer0 (mpsl_timer_at t cb s3) = Some rel \<and> unat at_us + unat rel = unat t \<and>
            snd (signal_cb mac MPSL_TIMER0 (mpsl_timer_at t cb s3)) =
              mac (CbFine cb) ((mpsl_timer_at t cb s3)\<lparr>mp_ret := ACTION_NONE, mp_timer0 := None, mp_fine_cb := None\<rparr>))))"
proof -
  define r where "r = s\<lparr>mp_req_at_us := at_us, mp_req_len_us := min len_us (mp_len_max_us s - mp_margin_us s),
      mp_req_urgent := urgent, mp_req_user := user, mp_req_pending := True\<rparr>"
  note req = request_passed_on [where len_us = len_us and urgent = urgent and user = user, OF assms(1-4), folded r_def]
  let ?s2 = "r\<lparr>mp_calls := mp_calls s @ [CallRequest (build_request r)]\<rparr>"
  let ?s3 = "slot_begin (?s2\<lparr>mp_now := at_us\<rparr>)"
  have b: "build_request r = ReqNormal urgent (ucast (at_us - mp_last_slot_start_us s))
      (CLAMP (mp_req_len_us r + mp_margin_us s) (mp_len_min_us s) (mp_len_max_us s))"
    using assms(5-7) by (simp add: build_request_cases r_def)
  have fire: "\<exists>rel. mp_timer0 (mpsl_timer_at t cb ?s3) = Some rel \<and> unat at_us + unat rel = unat t \<and>
        snd (signal_cb mac MPSL_TIMER0 (mpsl_timer_at t cb ?s3)) =
          mac (CbFine cb) ((mpsl_timer_at t cb ?s3)\<lparr>mp_ret := ACTION_NONE, mp_timer0 := None, mp_fine_cb := None\<rparr>)"
    if t: "at_us < t" "t - at_us \<le> ucast (mp_slot_len_us ?s3)" for t cb
  proof -
    have at: "mpsl_timer_at t cb ?s3 = ?s3\<lparr>mp_fine_cb := Some cb, mp_fine_at_us := t, mp_timer0 := Some (ucast (t - at_us))\<rparr>"
      using timer_inside [of ?s3 t cb] t by simp
    have "unat (t - at_us) \<le> unat (mp_slot_len_us ?s3)" using t(2) by (simp add: word_le_nat_alt unat_ucast_up)
    then have "unat (t - at_us) < 2 ^ 32" using unat_u32 [of "mp_slot_len_us ?s3"] by (rule order_le_less_trans)
    then have "unat (ucast (t - at_us) :: u32) = unat (t - at_us)" by (simp add: unat_ucast_small)
    also have "\<dots> = unat t - unat at_us" using t(1) by (simp add: unat_sub_if_size word_less_nat_alt)
    finally have "unat at_us + unat (ucast (t - at_us) :: u32) = unat t" using t(1) by (simp add: word_less_nat_alt)
    moreover have "mp_timer0 (mpsl_timer_at t cb ?s3) = Some (ucast (t - at_us))" "mp_fine_cb (mpsl_timer_at t cb ?s3) = Some cb"
      by (simp_all add: at)
    ultimately show ?thesis using timer_fires by blast
  qed
  have "mp_calls ?s2 = mp_calls s @ [CallRequest (ReqNormal urgent (ucast (at_us - mp_last_slot_start_us s))
      (CLAMP (mp_req_len_us r + mp_margin_us s) (mp_len_min_us s) (mp_len_max_us s)))]" by (simp add: b)
  moreover have "snd (signal_cb mac MPSL_START (?s2\<lparr>mp_now := at_us, mp_ret := ACTION_NONE\<rparr>)) =
      mac (CbGranted at_us user) (slot_begin (?s2\<lparr>mp_now := at_us, mp_ret := ACTION_NONE\<rparr>))"
    by (simp add: signal_cb_def Let_def r_def)
  ultimately show ?thesis
    using req distance_exact [OF assms(6-8)] fire unfolding Let_def by blast
qed

text \<open>A library with its limits, an open session and a slot that started at 1000.\<close>

definition mpsl_zero :: mpsl where
  "mpsl_zero = \<lparr>mp_margin_us = 400, mp_len_min_us = 100, mp_len_max_us = 100000, mp_dist_max_us = 256000000,
     mp_ext_min_us = 200, mp_now = 5000, mp_call_ok = (\<lambda>c. True), mp_calls = [], mp_session_open = True,
     mp_req_at_us = 0, mp_req_len_us = 0, mp_req_urgent = False, mp_req_user = 0, mp_req_pending = False,
     mp_granted = False, mp_slot_start_us = 1000, mp_grant_end_us = 0, mp_slot_len_us = 0, mp_user = 0,
     mp_last_slot_start_us = 1000, mp_have_last_slot = True, mp_fine_cb = None, mp_fine_at_us = 0,
     mp_ret = ACTION_NONE, mp_timer0 = None, mp_msgq = []\<rparr>"

theorem slots_keep_absolute_time_witness:
  "\<exists>s1 dist len. mpsl_ts_request 9000 2000 True 7 mpsl_zero = (Inr (), s1) \<and>
     mp_calls (ts_thread (\<lambda>r s. s) s1) = [CallRequest (ReqNormal True dist len)] \<and> (1000 :: u64) + ucast dist = 9000"
proof -
  have h: "mp_session_open mpsl_zero" "mp_msgq mpsl_zero = []" "mp_now mpsl_zero + MPSL_MIN_LEAD_US \<le> 9000"
    "\<And>c. mp_call_ok mpsl_zero c" "mp_have_last_slot mpsl_zero" "mp_last_slot_start_us mpsl_zero < 9000"
    "9000 - mp_last_slot_start_us mpsl_zero \<le> mp_dist_max_us mpsl_zero" "mp_dist_max_us mpsl_zero < 2 ^ 32"
    and z: "mp_calls mpsl_zero = []" "mp_last_slot_start_us mpsl_zero = 1000"
    by (simp_all add: mpsl_zero_def)
  from slots_keep_absolute_time [OF h, of 2000 True 7 "\<lambda>r s. s"] show ?thesis unfolding z by fastforce
qed

section \<open>Slots that start too early\<close>

text \<open>What can still happen in a slot in which the radio is not running: the session's other signals, the
  slot's timer if it is programmed, time passing, and the thread.\<close>

inductive slot_step :: "mpsl_mac \<Rightarrow> mpsl \<Rightarrow> mpsl \<Rightarrow> bool" for mac where
  slot_idle: "slot_step mac s (snd (signal_cb mac MPSL_SESSION_IDLE s))"
| slot_overstayed: "slot_step mac s (snd (signal_cb mac MPSL_OVERSTAYED s))"
| slot_invalid: "slot_step mac s (snd (signal_cb mac MPSL_INVALID_RETURN s))"
| slot_timer0: "mp_timer0 s = Some rel \<Longrightarrow> slot_step mac s (snd (signal_cb mac MPSL_TIMER0 s))"
| slot_time: "slot_step mac s (s\<lparr>mp_now := t\<rparr>)"
| slot_thread: "slot_step mac s (ts_thread mac s)"

definition slot_stuck :: "fine_cb \<Rightarrow> mpsl \<Rightarrow> bool" where
  "slot_stuck cb s \<longleftrightarrow> mp_granted s \<and> mp_timer0 s = None \<and> mp_fine_cb s = Some cb \<and> mp_msgq s = []"

lemma slot_stuck_step: "slot_step mac s t \<Longrightarrow> slot_stuck cb s \<Longrightarrow> slot_stuck cb t"
  by (induction rule: slot_step.induct) (simp_all add: slot_stuck_def signal_cb_def ts_thread_def Let_def)

lemma slot_begin_fresh:
  "mp_fine_cb s = None \<Longrightarrow> mp_timer0 (slot_begin s) = None" "mp_msgq (slot_begin s) = mp_msgq s"
  by (simp_all add: slot_begin_def fine_timer_arm_def Let_def)



text \<open>The action handed back to the library is what the callbacks of this very signal asked for: an end or
  an extension asked for between two signals is overwritten. The comments of \<open>lg_ts_release\<close> and
  \<open>lg_ts_extend\<close> count on the next signal to deliver it.\<close>

lemma action_between_signals_lost: "signal_cb mac sig (s\<lparr>mp_ret := a\<rparr>) = signal_cb mac sig s"
  by (simp add: signal_cb_def)

lemma release_outside_keeps_slot:
  assumes "mp_granted s"
  shows "signal_cb mac sig (mpsl_ts_release s) =
    signal_cb mac sig (s\<lparr>mp_timer0 := None, mp_granted := False, mp_fine_cb := None\<rparr>)"
  using assms action_between_signals_lost
    [where a = ACTION_END and s = "s\<lparr>mp_timer0 := None, mp_granted := False, mp_fine_cb := None\<rparr>"]
  by (simp add: mpsl_ts_release_def)

text \<open>A request made while no session is open is accepted, and then dropped without a word.\<close>

lemma request_without_session:
  assumes "\<not> mp_session_open s" "mp_msgq s = []" "mp_now s + MPSL_MIN_LEAD_US \<le> at_us"
    and "mpsl_ts_request at_us len_us urgent user s = (r, s1)"
  shows "r = Inr () \<and> mp_req_pending (ts_thread mac s1) \<and> mp_calls (ts_thread mac s1) = mp_calls s \<and>
    mp_msgq (ts_thread mac s1) = []"
  using assms by (auto simp: mpsl_ts_request_def k_msgq_put_def not_less [symmetric] ts_thread_def)

section \<open>The contract of the arbiters\<close>

text \<open>What \<open>lg_ts.h\<close> promises, for either backend: \<open>willing\<close> and \<open>unwilling\<close> say whether the slot will be
  given when its time comes, \<open>sound\<close> that the configuration respects the cap on a grant.\<close>

locale radio_arbiter =
  fixes request :: "u64 \<Rightarrow> u32 \<Rightarrow> 's \<Rightarrow> (errno + unit) \<times> 's"
    and extend :: "u32 \<Rightarrow> 's \<Rightarrow> (errno + unit) \<times> 's"
    and grant refuse release stop :: "'s \<Rightarrow> 's"
    and now start grant_end :: "'s \<Rightarrow> u64"
    and pending granted willing unwilling sound :: "'s \<Rightarrow> bool"
    and lead :: u64
  assumes too_near: "at_us < now s + lead \<Longrightarrow> request at_us len_us s = (Inl EINVAL, s)"
    and accepted: "request at_us len_us s = (Inr (), t) \<Longrightarrow> pending t \<and> granted t = granted s"
    and starts: "pending s \<Longrightarrow> willing s \<Longrightarrow> granted (grant s) \<and> \<not> pending (grant s)"
    and refused: "pending s \<Longrightarrow> unwilling s \<Longrightarrow> \<not> granted s \<Longrightarrow> \<not> granted (refuse s) \<and> \<not> pending (refuse s)"
    and capped: "sound s \<Longrightarrow> request at_us len_us s = (Inr (), t) \<Longrightarrow> willing t \<Longrightarrow>
      grant_end (grant t) - start (grant t) \<le> ucast LG_TS_MAX_GRANT_US"
    and released: "\<not> granted (release s) \<and> pending (release s) = pending s"
    and stopped: "\<not> granted (stop s) \<and> \<not> pending (stop s)"
    and ended: "\<not> granted s \<Longrightarrow> grant_end s = 0"
    and no_extension: "\<not> granted s \<Longrightarrow> extend extra s = (Inl EBUSY, s)"
begin

text \<open>One use of the radio: asked for, granted for a bounded time and given back, or refused.\<close>

lemma one_use:
  assumes "sound s" "\<not> granted s" "request at_us len_us s = (Inr (), t)"
  shows "now s + lead \<le> at_us \<and> pending t \<and>
    (willing t \<longrightarrow> granted (grant t) \<and> \<not> pending (grant t) \<and>
       grant_end (grant t) - start (grant t) \<le> ucast LG_TS_MAX_GRANT_US \<and>
       \<not> granted (release (grant t)) \<and> \<not> pending (release (grant t)) \<and> grant_end (release (grant t)) = 0) \<and>
    (unwilling t \<longrightarrow> \<not> granted (refuse t) \<and> \<not> pending (refuse t) \<and> extend extra (refuse t) = (Inl EBUSY, refuse t))"
  using too_near [of at_us s len_us] accepted [OF assms(3)] starts [of t] refused [of t] capped [OF assms(1,3)]
    released [of "grant t"] ended [of "release (grant t)"] no_extension [of "refuse t" extra] assms(2,3)
  by (auto simp: not_less [symmetric])

end

lemma cap_ucast: "w \<le> LG_TS_MAX_GRANT_US \<Longrightarrow> (ucast w :: u64) \<le> ucast LG_TS_MAX_GRANT_US" for w :: u32
  by (simp add: word_le_nat_alt unat_ucast_up)

lemma cap_sum:
  fixes l m mx c :: u32
  assumes "m \<le> mx" "mx \<le> c" "l \<le> mx - m"
  shows "l + m \<le> c"
proof -
  have "unat l \<le> unat mx - unat m" using assms(1,3) by (simp add: word_le_nat_alt unat_sub)
  moreover have "unat m \<le> unat mx" "unat mx \<le> unat c" using assms(1,2) by (simp_all add: word_le_nat_alt)
  moreover from calculation have "unat l + unat m < 2 ^ 32" using unat_u32 [of mx] by linarith
  then have "unat (l + m) = unat l + unat m" by (intro unat_add_small) simp
  ultimately show ?thesis by (simp add: word_le_nat_alt)
qed

interpretation direct: radio_arbiter lg_ts_request lg_ts_extend "\<lambda>s. snd (grant_handler s)" "\<lambda>s. snd (grant_handler s)"
  lg_ts_release lg_ts_uninit c_now "\<lambda>s. ts_req_at_us (c_ts s)" lg_ts_grant_end_us
  "\<lambda>s. ts_req_pending (c_ts s)" lg_ts_granted "\<lambda>s. \<not> ts_req_refuse (c_ts s)" "\<lambda>s. ts_req_refuse (c_ts s)" "\<lambda>s. True"
  LG_TS_MIN_LEAD_US
proof unfold_locales
qed (auto simp: lg_ts_request_def refuse_request_def sys_rand32_get_def lg_ts_granted_def lg_ts_grant_end_us_def
  grant_handler_def lg_ts_release_def lg_ts_uninit_def lg_ts_extend_def upd_ts_def Let_def min_def
  intro: cap_ucast [simplified] split: if_splits)

interpretation slots: radio_arbiter "\<lambda>at_us len_us. mpsl_ts_request at_us len_us urgent user" mpsl_ts_extend slot_begin slot_lost
  mpsl_ts_release mpsl_ts_uninit mp_now mp_slot_start_us mpsl_ts_grant_end_us
  mp_req_pending mpsl_ts_granted "\<lambda>s. True" "\<lambda>s. True"
  "\<lambda>s. mp_margin_us s \<le> mp_len_max_us s \<and> mp_len_max_us s \<le> LG_TS_MAX_GRANT_US" MPSL_MIN_LEAD_US
  for urgent :: bool and user :: nat
proof unfold_locales
qed (auto simp: mpsl_ts_request_def k_msgq_put_def mpsl_ts_granted_def mpsl_ts_grant_end_us_def slot_lost_def
  mpsl_ts_release_def mpsl_ts_uninit_def mpsl_ts_extend_def min_def
  intro: cap_ucast [simplified] cap_ucast [OF cap_sum, simplified] split: if_splits)



end
