(* ===== verification/LG_Meet.thy ===== *)
theory LG_Meet
  imports LG_Join
begin

text \<open>
  The two ends of one link. Each keeps its own copy of the schedule on its own clock; they share only the
  parameters of the last handshake message and the instant that message went over the air. What
  follows for where they meet, and what moving an event forward does to it.
\<close>

section \<open>Where an end of a link stands\<close>

definition place :: "neigh \<Rightarrow> u64 \<times> u32 \<times> u64 \<times> u16 \<times> u16" where
  "place n = (n_epoch_us n, n_interval_us n, n_anchor_us n, n_chan_map n, n_hop_seed n)"

lemma placeD:
  assumes "place n = place m"
  shows "n_epoch_us n = n_epoch_us m" "n_interval_us n = n_interval_us m" "n_anchor_us n = n_anchor_us m"
    "n_chan_map n = n_chan_map m" "n_hop_seed n = n_hop_seed m"
  using assms by (simp_all add: place_def)

lemma place_kept [simp]:
  "place (neigh_core n) = place n" "place (neigh_update_cost n) = place n" "place (snd (window_of c k n)) = place n"
  by (simp_all add: place_def neigh_core_def neigh_update_cost_def window_of_def Let_def)

lemma place_grid: "place n = place m \<Longrightarrow> on_grid n c = on_grid m c"
  using placeD [of n m] by (simp add: on_grid_def)

text \<open>An entry on the grid of a link that started like \<open>n\<close>.\<close>

definition keeps_to :: "neigh \<Rightarrow> neigh \<Rightarrow> bool" where
  "keeps_to n m \<longleftrightarrow> n_epoch_us m = n_epoch_us n \<and> n_interval_us m = n_interval_us n \<and>
     n_chan_map m = n_chan_map n \<and> n_hop_seed m = n_hop_seed n \<and> (\<exists>c. on_grid m c)"

lemma keeps_to_place: "keeps_to n m \<Longrightarrow> place k = place m \<Longrightarrow> keeps_to n k"
  using placeD [of k m] place_grid [of k m] by (simp add: keeps_to_def)

lemma keeps_to_set:
  assumes "keeps_to n m"
  shows "keeps_to n (anchor_set t m)"
proof -
  obtain c where "on_grid m c" using assms by (auto simp: keeps_to_def)
  then have "on_grid (anchor_set t m) (unat t)" by (rule anchor_set_grid) (use unsigned_less [of t] in simp)
  with assms show ?thesis by (auto simp: keeps_to_def anchor_set_def)
qed

text \<open>Neither the end of an event nor catching up leaves the grid.\<close>

lemma keeps_to_advance:
  assumes "keeps_to n m" "n_pending_ctrl m AND BIT 0 = 0"
  shows "keeps_to n (link_advance m)"
proof -
  let ?a = "anchor_set (next_active m (counter_of m)) m"
  have "place (link_advance m) = place ?a"
    using assms(2) by (simp add: link_advance_def Let_def place_def anchor_set_def)
  then show ?thesis by (rule keeps_to_place [OF keeps_to_set [OF assms(1)]])
qed

lemma keeps_to_loop:
  assumes "catch_loop until m k = Some r"
  shows "keeps_to n m \<longrightarrow> keeps_to n (fst r)"
proof (rule catch_loop.raw_induct [where P = "\<lambda>until m k r. keeps_to n m \<longrightarrow> keeps_to n (fst r)", OF _ assms])
  fix f until m k r
  assume ih: "\<And>until m k r. f until m k = Some r \<Longrightarrow> keeps_to n m \<longrightarrow> keeps_to n (fst r)"
    and body: "(if n_anchor_us m < until then f until (anchor_set (next_active m (counter_of m)) m) (k + 1)
      else Some (m, k)) = Some r"
  show "keeps_to n m \<longrightarrow> keeps_to n (fst r)"
  proof (cases "n_anchor_us m < until")
    case True
    with body ih [of until "anchor_set (next_active m (counter_of m)) m" "k + 1" r] keeps_to_set [of n m]
    show ?thesis by simp
  qed (use body in auto)
qed

lemma keeps_to_catch_up:
  assumes "anchor_catch_up i s = Some t" "i < length (c_neigh s)" "keeps_to n (nb s i)"
  shows "keeps_to n (nb t i) \<and> length (c_neigh t) = length (c_neigh s)"
proof -
  define m where "m = snd (window_of (c_cfg s) (c_now s) (nb s i))"
  define a where "a = (if counter_of m mod max (ucast (n_subrate m)) 1 \<noteq> 0 then anchor_set (next_active m (counter_of m)) m else m)"
  have "n_interval_us (nb s i) \<noteq> 0" using assms(3) by (auto simp: keeps_to_def on_grid_def)
  then obtain r k where r: "catch_loop (catch_deadline i s) a (st_link_events_skipped (c_stats s)) = Some (r, k)"
    "t = upd_stats (\<lambda>st. st\<lparr>st_link_events_skipped := k\<rparr>) (upd_neigh i (\<lambda>_. r) s)"
    using assms(1) catch_up_steps [OF assms(2), folded m_def, folded a_def] by (auto split: option.splits)
  have "keeps_to n m" by (rule keeps_to_place [OF assms(3)]) (simp add: m_def)
  then have "keeps_to n a" by (simp add: a_def keeps_to_set)
  then have "keeps_to n r" using keeps_to_loop [OF r(1)] by simp
  then show ?thesis using assms(2) by (simp add: r(2) upd_stats_def upd_neigh_def)
qed

section \<open>The life of one end\<close>

text \<open>From an exchange on, an end goes on to later events, catches up with the clock, and does anything that
  does not concern the schedule of this link: time passes, frames come and go, subrates change. A new
  channel map, a measured frame and an event moved forward are not among these steps.\<close>

inductive link_run :: "nat \<Rightarrow> ctx \<Rightarrow> ctx \<Rightarrow> bool" for i :: nat and s :: ctx where
  run_here: "link_run i s s"
| run_other: "link_run i s t \<Longrightarrow> i < length (c_neigh u) \<Longrightarrow> place (nb u i) = place (nb t i) \<Longrightarrow> link_run i s u"
| run_advance: "link_run i s t \<Longrightarrow> n_pending_ctrl (nb t i) AND BIT 0 = 0 \<Longrightarrow> link_run i s (lg_link_advance i t)"
| run_late: "link_run i s t \<Longrightarrow> anchor_catch_up i t = Some u \<Longrightarrow> link_run i s u"

lemma link_run_keeps:
  assumes "link_run i s t" "i < length (c_neigh s)" "on_grid (nb s i) c"
  shows "keeps_to (nb s i) (nb t i) \<and> i < length (c_neigh t)"
  using assms(1)
proof (induction rule: link_run.induct)
  case run_here
  then show ?case using assms(2,3) by (auto simp: keeps_to_def)
next
  case (run_other t u)
  then show ?case by (auto intro: keeps_to_place)
next
  case (run_advance t)
  then have "nb (lg_link_advance i t) i = link_advance (nb t i)" "length (c_neigh (lg_link_advance i t)) = length (c_neigh t)"
    by (simp_all add: lg_link_advance_def nb_upd_same upd_neigh_def)
  with run_advance show ?case by (simp add: keeps_to_advance)
next
  case (run_late t u)
  then show ?case using keeps_to_catch_up [OF run_late(2), of "nb s i"] by simp
qed

text \<open>Two ends on the same grid, at the same instant of it, hop to the same channel.\<close>

lemma same_instant_same_channel:
  assumes "keeps_to a a'" "keeps_to b b'" "n_interval_us a = n_interval_us b" "n_chan_map a = n_chan_map b" "n_hop_seed a = n_hop_seed b"
    and "unat (n_anchor_us a') + unat (n_epoch_us b) = unat (n_anchor_us b') + unat (n_epoch_us a)"
  shows "link_next_chan a' = link_next_chan b'"
proof -
  obtain c d where g: "on_grid a' c" "on_grid b' d" using assms(1,2) by (auto simp: keeps_to_def)
  then have "c * unat (n_interval_us a) = d * unat (n_interval_us a)" "unat (n_interval_us a) \<noteq> 0"
    using assms by (auto simp: keeps_to_def on_grid_def unat_eq_0)
  then have "c = d" by simp
  then have "counter_of a' = counter_of b'"
    using counter_on_grid [OF g(1)] counter_on_grid [OF g(2)] by (simp add: word_unat_eq_iff)
  then show ?thesis using assms(1-5) by (simp add: link_next_chan_def keeps_to_def)
qed

section \<open>A link that has just come up\<close>

text \<open>The place of an entry whose link was established with these parameters, its first event at \<open>a\<close>.\<close>

definition first_place :: "config \<Rightarrow> lg_link_params \<Rightarrow> u64 \<Rightarrow> u64 \<times> u32 \<times> u64 \<times> u16 \<times> u16" where
  "first_place cfg pp a = (a, CLAMP (pp_interval_us pp) (cfg_conn_interval_min_ms cfg * 1000) (cfg_conn_interval_max_ms cfg * 1000),
     a, pp_chan_map pp, pp_hop_seed pp)"

definition fresh_link :: "config \<Rightarrow> lg_link_params \<Rightarrow> u64 \<Rightarrow> neigh \<Rightarrow> bool" where
  "fresh_link cfg pp a n \<longleftrightarrow> place n = first_place cfg pp a \<and> n_subrate n = 1 \<and> n_pending_ctrl n = 0"

lemma establish_fresh:
  assumes "cfg_ok (c_cfg s)" "i < length (c_neigh s)" "unat (c_now s) + 40000 \<le> unat (n_anchor_us (nb s i))"
    and "lg_link_establish i pp ini s = Some t" "pp_chan_map pp \<noteq> 0"
  shows "i < length (c_neigh t) \<and> fresh_link (c_cfg s) pp (n_anchor_us (nb s i)) (nb t i)"
proof -
  let ?n = "link_establish_neigh s pp ini (nb s i)"
  have t: "length (c_neigh t) = length (c_neigh s)"
    "neigh_core (nb t i) = neigh_core (neigh_update_cost (snd (window_of (c_cfg s) (c_now s) ?n)))"
    using establish_returns [OF assms(1-3), of pp ini] assms(4) by auto
  have "place (nb t i) = place ?n" using arg_cong [OF t(2), of place] by simp
  moreover have "n_subrate (nb t i) = n_subrate ?n" "n_pending_ctrl (nb t i) = n_pending_ctrl ?n"
    using arg_cong [OF t(2), of n_subrate] arg_cong [OF t(2), of n_pending_ctrl]
    by (simp_all add: neigh_core_def neigh_update_cost_def window_of_def Let_def)
  ultimately show ?thesis using assms(2,5) t(1)
    by (simp add: fresh_link_def place_def first_place_def link_establish_neigh_def Let_def)
qed

lemma interval_bounds:
  fixes v :: u32
  assumes "cfg_ok cfg"
  defines "iv \<equiv> CLAMP v (cfg_conn_interval_min_ms cfg * 1000) (cfg_conn_interval_max_ms cfg * 1000)"
  shows "10000 \<le> unat iv" "unat iv \<le> 32000000"
proof -
  have c: "10 \<le> unat (cfg_conn_interval_min_ms cfg)" "unat (cfg_conn_interval_min_ms cfg) \<le> unat (cfg_conn_interval_max_ms cfg)"
    "unat (cfg_conn_interval_max_ms cfg) \<le> 32000"
    using assms(1) by (auto simp: cfg_ok_def word_le_nat_alt)
  then have m: "unat (cfg_conn_interval_min_ms cfg * 1000) = unat (cfg_conn_interval_min_ms cfg) * 1000"
    "unat (cfg_conn_interval_max_ms cfg * 1000) = unat (cfg_conn_interval_max_ms cfg) * 1000"
    by (simp_all add: unat_word_ariths)
  show "10000 \<le> unat iv" "unat iv \<le> 32000000"
    using c m by (auto simp: iv_def CLAMP_def word_less_nat_alt word_le_nat_alt)
qed

lemma fresh_on_grid:
  assumes "fresh_link cfg pp a n" "cfg_ok cfg" "unat a + 65536 * 32000000 < 2 ^ 64"
  shows "on_grid n 0"
proof -
  have n: "n_epoch_us n = a" "n_anchor_us n = a"
    "n_interval_us n = CLAMP (pp_interval_us pp) (cfg_conn_interval_min_ms cfg * 1000) (cfg_conn_interval_max_ms cfg * 1000)"
    using assms(1) by (simp_all add: fresh_link_def place_def first_place_def)
  note b = interval_bounds [OF assms(2), of "pp_interval_us pp", folded n(3)]
  have "n_interval_us n \<noteq> 0" using b(1) by auto
  moreover have "unat a + 65536 * unat (n_interval_us n) < 2 ^ 64"
    using assms(3) mult_le_mono2 [OF b(2), of 65536] by linarith
  ultimately show ?thesis by (simp add: on_grid_def n)
qed

text \<open>After \<open>k\<close> events with nothing agreed in between.\<close>

lemma fresh_after:
  assumes "fresh_link cfg pp a n" "cfg_ok cfg" "unat a + 65536 * 32000000 < 2 ^ 64" "k < 65536"
  shows "fresh_link cfg pp a (((link_advance ^^ k) n)\<lparr>n_anchor_us := a\<rparr>) \<and> on_grid ((link_advance ^^ k) n) k"
  using assms(4)
proof (induction k)
  case 0
  have "n\<lparr>n_anchor_us := a\<rparr> = n" using assms(1) by (simp add: fresh_link_def place_def first_place_def)
  then show ?case using assms fresh_on_grid by simp
next
  case (Suc k)
  let ?m = "(link_advance ^^ k) n"
  have m: "n_subrate ?m = 1" "n_pending_ctrl ?m = 0" "on_grid ?m k" using Suc by (simp_all add: fresh_link_def)
  then have adv: "link_advance ?m = anchor_set (next_active ?m (counter_of ?m)) ?m"
    by (simp add: link_advance_def Let_def anchor_set_def)
  have t: "unat (next_active ?m (counter_of ?m)) = Suc k"
    using next_on_grid [of ?m k "counter_of ?m"] counter_on_grid [OF m(3)] m(1) Suc.prems by (simp add: step_of_def)
  have "on_grid (link_advance ?m) (Suc k)"
    using anchor_set_grid [OF m(3), of "next_active ?m (counter_of ?m)"] t Suc.prems by (simp add: adv)
  then show ?case using Suc by (simp add: fresh_link_def place_def anchor_set_def adv)
qed

lemma advance_each: "i < length (c_neigh s) \<Longrightarrow> nb ((lg_link_advance i ^^ k) s) i = (link_advance ^^ k) (nb s i) \<and>
    length (c_neigh ((lg_link_advance i ^^ k) s)) = length (c_neigh s)"
proof (induction k)
  case (Suc k)
  have "length (c_neigh (lg_link_advance i t)) = length (c_neigh t)" for t by (simp add: lg_link_advance_def upd_neigh_def)
  with Suc show ?case by (simp add: lg_link_advance_def nb_upd_same)
qed simp

text \<open>The router brings its end up after its last message, the joiner its own when it has put that message
  together; both in time for the first event. \<open>air\<close> is the start of that frame on the joiner's clock, the
  router's own reading of it is in its handshake.\<close>

definition both_come_up :: "nat \<Rightarrow> ctx \<Rightarrow> ctx \<Rightarrow> nat \<Rightarrow> u64 \<Rightarrow> ctx \<Rightarrow> ctx \<Rightarrow> lg_link_params \<Rightarrow> bool" where
  "both_come_up i s s1 j air u u1 pp \<longleftrightarrow>
     cfg_ok (c_cfg s) \<and> cfg_ok (c_cfg u) \<and>
     cfg_conn_interval_min_ms (c_cfg u) = cfg_conn_interval_min_ms (c_cfg s) \<and>
     cfg_conn_interval_max_ms (c_cfg u) = cfg_conn_interval_max_ms (c_cfg s) \<and>
     i < length (c_neigh s) \<and> j < length (c_neigh u) \<and>
     link_params_of_bytes (hs_tx (c_hs s)) = pp \<and> link_params_of_bytes (xf_buf (hs_rx (c_hs u))) = pp \<and> pp_chan_map pp \<noteq> 0 \<and>
     join_establish_router i s = Some s1 \<and> join_establish_joiner j air u = Some u1 \<and>
     (let sent = hs_last_tx_air_start_us (c_hs s); off = unat (pp_anchor_offset_us pp)
      in unat (c_now s) + 40000 \<le> unat sent + off \<and> unat sent + off + 65536 * 32000000 < 2 ^ 64 \<and>
         unat (c_now u) + 40000 \<le> unat air + off \<and> unat air + off + 65536 * 32000000 < 2 ^ 64)"

lemma come_up_fresh:
  assumes "both_come_up i s s1 j air u u1 pp"
  defines "a \<equiv> hs_last_tx_air_start_us (c_hs s) + ucast (pp_anchor_offset_us pp)" and "b \<equiv> air + ucast (pp_anchor_offset_us pp)"
  shows "i < length (c_neigh s1) \<and> fresh_link (c_cfg s) pp a (nb s1 i) \<and> j < length (c_neigh u1) \<and> fresh_link (c_cfg s) pp b (nb u1 j) \<and>
    unat a = unat (hs_last_tx_air_start_us (c_hs s)) + unat (pp_anchor_offset_us pp) \<and> unat b = unat air + unat (pp_anchor_offset_us pp)"
proof -
  note up = assms(1) [unfolded both_come_up_def Let_def]
  have off: "unat (ucast (pp_anchor_offset_us pp) :: u64) = unat (pp_anchor_offset_us pp)" by (simp add: unat_ucast_up)
  have ab: "unat a = unat (hs_last_tx_air_start_us (c_hs s)) + unat (pp_anchor_offset_us pp)" "unat b = unat air + unat (pp_anchor_offset_us pp)"
    using up by (simp_all add: a_def b_def off unat_add_small)
  define v where "v = upd_stats (\<lambda>st. st\<lparr>st_joins_ok := st_joins_ok st + 1\<rparr>)
    (upd_neigh i (\<lambda>n. n\<lparr>n_anchor_us := a, n_join_step := LG_JOIN_DONE, n_join_retries := 0\<rparr>) s)"
  define w where "w = upd_stats (\<lambda>st. st\<lparr>st_joins_ok := st_joins_ok st + 1\<rparr>)
    (upd_neigh j (\<lambda>n. n\<lparr>n_anchor_us := b, n_join_step := LG_JOIN_DONE, n_join_retries := 0\<rparr>) u)"
  have v: "c_cfg v = c_cfg s" "c_now v = c_now s" "i < length (c_neigh v)" "n_anchor_us (nb v i) = a"
    and w: "c_cfg w = c_cfg u" "c_now w = c_now u" "j < length (c_neigh w)" "n_anchor_us (nb w j) = b"
    using up by (simp_all add: v_def w_def upd_stats_def upd_neigh_def)
  obtain x where x: "lg_link_establish i pp True v = Some x" "s1 = x\<lparr>c_join_win_us := 0, c_hs := hs_zero\<rparr>"
    using up by (auto simp: join_establish_router_def v_def a_def Let_def split: option.splits)
  obtain y where y: "lg_link_establish j pp False w = Some y" "u1 = y\<lparr>c_hs := hs_zero\<rparr>"
    using up by (auto simp: join_establish_joiner_def w_def b_def Let_def split: option.splits)
  have "first_place (c_cfg u) pp b = first_place (c_cfg s) pp b" using up by (simp add: first_place_def)
  then show ?thesis
    using establish_fresh [OF _ v(3) _ x(1)] establish_fresh [OF _ w(3) _ y(1)] up ab
    by (simp add: v w x(2) y(2) fresh_link_def)
qed

text \<open>In time for the first event, both links do come up.\<close>

lemma establish_in_time:
  assumes "cfg_ok (c_cfg s)" "i < length (c_neigh s)" "unat (c_now s) + 40000 \<le> unat a"
  shows "\<exists>t. lg_link_establish i pp ini (upd_stats f (upd_neigh i (\<lambda>n. n\<lparr>n_anchor_us := a, n_join_step := st, n_join_retries := 0\<rparr>) s)) = Some t"
proof -
  let ?v = "upd_stats f (upd_neigh i (\<lambda>n. n\<lparr>n_anchor_us := a, n_join_step := st, n_join_retries := 0\<rparr>) s)"
  have "cfg_ok (c_cfg ?v)" "i < length (c_neigh ?v)" "unat (c_now ?v) + 40000 \<le> unat (n_anchor_us (nb ?v i))"
    using assms by (simp_all add: upd_stats_def upd_neigh_def)
  from establish_returns [OF this, of pp ini] show ?thesis by blast
qed

lemma router_in_time:
  assumes "cfg_ok (c_cfg s)" "i < length (c_neigh s)" "link_params_of_bytes (hs_tx (c_hs s)) = pp"
    and "unat (c_now s) + 40000 \<le> unat (hs_last_tx_air_start_us (c_hs s) + ucast (pp_anchor_offset_us pp))"
  shows "\<exists>t. join_establish_router i s = Some t"
  using establish_in_time [OF assms(1,2,4), of pp True "\<lambda>st. st\<lparr>st_joins_ok := st_joins_ok st + 1\<rparr>" LG_JOIN_DONE]
  by (auto simp: join_establish_router_def assms(3) Let_def)

lemma joiner_in_time:
  assumes "cfg_ok (c_cfg s)" "i < length (c_neigh s)" "link_params_of_bytes (xf_buf (hs_rx (c_hs s))) = pp"
    and "unat (c_now s) + 40000 \<le> unat (air + ucast (pp_anchor_offset_us pp))"
  shows "\<exists>t. join_establish_joiner i air s = Some t"
  using establish_in_time [OF assms(1,2,4), of pp False "\<lambda>st. st\<lparr>st_joins_ok := st_joins_ok st + 1\<rparr>" LG_JOIN_DONE]
  by (auto simp: join_establish_joiner_def assms(3) Let_def)

definition demo_sent :: ctx where
  "demo_sent = demo_node\<lparr>c_now := 10000, c_neigh := neigh_fresh 22 # replicate 7 neigh_zero,
     c_hs := hs_zero\<lparr>hs_last_tx_air_start_us := 5000, hs_tx := link_params_bytes demo_params @ [0]\<rparr>\<rparr>"

definition demo_got :: ctx where
  "demo_got = demo_node\<lparr>c_now := 106000, c_neigh := neigh_fresh 23 # replicate 7 neigh_zero,
     c_hs := hs_zero\<lparr>hs_rx := xfer_zero\<lparr>xf_buf := link_params_bytes demo_params @ [0]\<rparr>\<rparr>\<rparr>"

lemma demo_come_up:
  "\<exists>s1 u1. both_come_up 0 demo_sent s1 0 105000 demo_got u1 demo_params \<and> n_interval_us (nb s1 0) = 200000"
proof -
  have c: "cfg_ok (c_cfg demo_sent)" "cfg_ok (c_cfg demo_got)" using cfg_ok_default
    by (simp_all add: demo_sent_def demo_got_def demo_node_def node_zero_def)
  have r: "\<exists>t. join_establish_router 0 demo_sent = Some t"
    by (rule router_in_time [OF c(1), of 0 demo_params])
      (simp_all add: demo_sent_def link_params_roundtrip, simp add: demo_params_def)
  have j: "\<exists>t. join_establish_joiner 0 105000 demo_got = Some t"
    by (rule joiner_in_time [OF c(2), of 0 demo_params])
      (simp_all add: demo_got_def link_params_roundtrip, simp add: demo_params_def)
  obtain s1 u1 where s1: "join_establish_router 0 demo_sent = Some s1" and u1: "join_establish_joiner 0 105000 demo_got = Some u1"
    using r j by blast
  have up: "both_come_up 0 demo_sent s1 0 105000 demo_got u1 demo_params"
    using c s1 u1 by (simp add: both_come_up_def demo_sent_def demo_got_def link_params_roundtrip)
      (simp add: demo_params_def demo_node_def node_zero_def)
  have "CLAMP 200000 (cfg_conn_interval_min_ms (c_cfg demo_sent) * 1000) (cfg_conn_interval_max_ms (c_cfg demo_sent) * 1000) = 200000"
    by code_simp
  then have "n_interval_us (nb s1 0) = 200000"
    using come_up_fresh [OF up] by (simp add: fresh_link_def place_def first_place_def demo_params_def)
  with up show ?thesis by blast
qed

lemma come_up_after:
  assumes "both_come_up i s s1 j air u u1 pp" "k < 65536"
  defines "a \<equiv> hs_last_tx_air_start_us (c_hs s) + ucast (pp_anchor_offset_us pp)" and "b \<equiv> air + ucast (pp_anchor_offset_us pp)"
  shows "on_grid ((link_advance ^^ k) (nb s1 i)) k \<and> fresh_link (c_cfg s) pp a (((link_advance ^^ k) (nb s1 i))\<lparr>n_anchor_us := a\<rparr>) \<and>
    on_grid ((link_advance ^^ k) (nb u1 j)) k \<and> fresh_link (c_cfg s) pp b (((link_advance ^^ k) (nb u1 j))\<lparr>n_anchor_us := b\<rparr>)"
proof -
  note f = come_up_fresh [OF assms(1), folded a_def b_def]
  have room: "unat a + 65536 * 32000000 < 2 ^ 64" "unat b + 65536 * 32000000 < 2 ^ 64" and c: "cfg_ok (c_cfg s)"
    using f assms(1) [unfolded both_come_up_def Let_def] by auto
  show ?thesis using fresh_after [OF _ c room(1) assms(2)] fresh_after [OF _ c room(2) assms(2)] f by blast
qed

text \<open>C12: the two ends of a new link meet. Whatever the offset between their clocks, the router that sent
  the link parameters and the joiner that received them plan the same events: for as long as nothing
  else is agreed, the \<open>k\<close>-th event of either end is the same time after the frame they both saw - the
  offset in the parameters and \<open>k\<close> intervals - and both expect it on the same channel.\<close>

theorem new_link_meets:
  assumes "both_come_up i s s1 j air u u1 pp" "k < 65536"
  defines "x \<equiv> (lg_link_advance i ^^ k) s1" and "y \<equiv> (lg_link_advance j ^^ k) u1"
    and "wait \<equiv> unat (pp_anchor_offset_us pp) + k * unat (n_interval_us (nb s1 i))"
  shows "unat (n_anchor_us (nb x i)) = unat (hs_last_tx_air_start_us (c_hs s)) + wait \<and>
    unat (n_anchor_us (nb y j)) = unat air + wait \<and> lg_link_next_chan i x = lg_link_next_chan j y"
proof -
  note f = come_up_fresh [OF assms(1)]
  have x: "nb x i = (link_advance ^^ k) (nb s1 i)" and y: "nb y j = (link_advance ^^ k) (nb u1 j)"
    using advance_each f by (simp_all add: x_def y_def)
  note at = come_up_after [OF assms(1,2), folded x y]
  then have gx: "on_grid (nb x i) k" and gy: "on_grid (nb y j) k" by simp_all
  have "counter_of (nb x i) = counter_of (nb y j)"
    using counter_on_grid [OF gx] counter_on_grid [OF gy] by (simp add: word_unat_eq_iff)
  then have "lg_link_next_chan i x = lg_link_next_chan j y"
    using at by (simp add: lg_link_next_chan_def link_next_chan_def fresh_link_def place_def first_place_def)
  moreover have "n_interval_us (nb s1 i) = n_interval_us (nb x i)" "n_interval_us (nb x i) = n_interval_us (nb y j)"
    using at f by (simp_all add: fresh_link_def place_def first_place_def)
  moreover have "unat (n_epoch_us (nb x i)) = unat (hs_last_tx_air_start_us (c_hs s)) + unat (pp_anchor_offset_us pp)"
    "unat (n_epoch_us (nb y j)) = unat air + unat (pp_anchor_offset_us pp)"
    using at f by (simp_all add: fresh_link_def place_def first_place_def)
  ultimately show ?thesis using gx gy by (simp add: on_grid_def wait_def)
qed

theorem new_link_meets_witness:
  "\<exists>s1 u1. join_establish_router 0 demo_sent = Some s1 \<and> join_establish_joiner 0 105000 demo_got = Some u1 \<and>
     unat (n_anchor_us (nb ((lg_link_advance 0 ^^ 3) s1) 0)) = 1005000 \<and>
     unat (n_anchor_us (nb ((lg_link_advance 0 ^^ 3) u1) 0)) = 1105000"
proof -
  obtain s1 u1 where up: "both_come_up 0 demo_sent s1 0 105000 demo_got u1 demo_params" "n_interval_us (nb s1 0) = 200000"
    using demo_come_up by blast
  have o: "unat (pp_anchor_offset_us demo_params) = 400000" "unat (hs_last_tx_air_start_us (c_hs demo_sent)) = 5000"
    by (simp_all add: demo_params_def demo_sent_def)
  have "unat (n_anchor_us (nb ((lg_link_advance 0 ^^ 3) s1) 0)) = 1005000" "unat (n_anchor_us (nb ((lg_link_advance 0 ^^ 3) u1) 0)) = 1105000"
    using new_link_meets [OF up(1), of 3] unfolding up(2) o by simp_all
  then show ?thesis using up(1) by (auto simp: both_come_up_def Let_def)
qed

text \<open>C13: the ends of a link never meet on different channels. However many events either of them skipped,
  missed or slept through since the link came up, and whatever subrates they follow - as long as no new
  channel map, no correction of the clock and no event moved forward comes between - two events planned
  for the same instant are planned for the same channel.\<close>

theorem ends_never_cross_channels:
  assumes "both_come_up i s s1 j air u u1 pp" "link_run i s1 s2" "link_run j u1 u2"
    and "unat (n_anchor_us (nb s2 i)) + unat air = unat (n_anchor_us (nb u2 j)) + unat (hs_last_tx_air_start_us (c_hs s))"
  shows "lg_link_next_chan i s2 = lg_link_next_chan j u2"
proof -
  note f = come_up_fresh [OF assms(1)]
  note up = assms(1) [unfolded both_come_up_def Let_def]
  have g: "on_grid (nb s1 i) 0" "on_grid (nb u1 j) 0" using fresh_on_grid f up by auto
  have k: "keeps_to (nb s1 i) (nb s2 i)" "keeps_to (nb u1 j) (nb u2 j)"
    using link_run_keeps [OF assms(2) _ g(1)] link_run_keeps [OF assms(3) _ g(2)] f by simp_all
  have "n_interval_us (nb s1 i) = n_interval_us (nb u1 j)" "n_chan_map (nb s1 i) = n_chan_map (nb u1 j)"
    "n_hop_seed (nb s1 i) = n_hop_seed (nb u1 j)"
    and "n_epoch_us (nb s1 i) = hs_last_tx_air_start_us (c_hs s) + ucast (pp_anchor_offset_us pp)"
    "n_epoch_us (nb u1 j) = air + ucast (pp_anchor_offset_us pp)"
    using f by (simp_all add: fresh_link_def place_def first_place_def)
  with assms(4) f show ?thesis
    unfolding lg_link_next_chan_def by (intro same_instant_same_channel [OF k]) simp_all
qed

text \<open>The router goes on one event; the joiner does too, and time passes.\<close>

theorem ends_never_cross_channels_witness:
  "\<exists>s1 u1 u2. join_establish_router 0 demo_sent = Some s1 \<and> join_establish_joiner 0 105000 demo_got = Some u1 \<and>
     link_run 0 u1 u2 \<and> c_now u2 = 200000 \<and> lg_link_next_chan 0 (lg_link_advance 0 s1) = lg_link_next_chan 0 u2"
proof -
  obtain s1 u1 where up: "both_come_up 0 demo_sent s1 0 105000 demo_got u1 demo_params" using demo_come_up by blast
  note f = come_up_fresh [OF up]
  define u2 where "u2 = (lg_link_advance 0 u1)\<lparr>c_now := 200000\<rparr>"
  have adv: "nb (lg_link_advance 0 s1) 0 = link_advance (nb s1 0)" "nb u2 0 = link_advance (nb u1 0)" "0 < length (c_neigh u2)"
    "nb (lg_link_advance 0 u1) 0 = link_advance (nb u1 0)"
    using advance_each [of 0 s1 1] advance_each [of 0 u1 1] f by (simp_all add: u2_def)
  have r1: "link_run 0 s1 (lg_link_advance 0 s1)" by (rule run_advance [OF run_here]) (use f in \<open>simp add: fresh_link_def\<close>)
  have "link_run 0 u1 (lg_link_advance 0 u1)" by (rule run_advance [OF run_here]) (use f in \<open>simp add: fresh_link_def\<close>)
  then have r2: "link_run 0 u1 u2" by (rule run_other [OF _ adv(3)]) (simp add: adv)
  have o: "unat (pp_anchor_offset_us demo_params) = 400000" "unat (hs_last_tx_air_start_us (c_hs demo_sent)) = 5000"
    by (simp_all add: demo_params_def demo_sent_def)
  note at = come_up_after [OF up, of 1, simplified]
  have "unat (n_anchor_us (link_advance (nb s1 0))) + unat (105000 :: u64) =
      unat (n_anchor_us (link_advance (nb u1 0))) + unat (hs_last_tx_air_start_us (c_hs demo_sent))"
    using at f unfolding o by (simp add: on_grid_def fresh_link_def place_def first_place_def)
  then have "lg_link_next_chan 0 (lg_link_advance 0 s1) = lg_link_next_chan 0 u2"
    using ends_never_cross_channels [OF up r1 r2] by (simp add: adv)
  then show ?thesis using up r2 by (auto simp: both_come_up_def Let_def u2_def)
qed

section \<open>An event moved forward\<close>

text \<open>C31: an expedited event meets nobody. \<open>lg_sched_expedite\<close> moves the next event of the initiator to three
  milliseconds from now, but nothing tells the responder, whose events stay on the grid: unless that
  instant happens to fall within its window of one of them, no event of the responder is near it. And in
  the second half of an interval the counter is rounded to the event that was to come, so that event,
  the one the responder does attend, is the one the initiator skips.\<close>

theorem expedited_event_unheard:
  fixes s :: ctx and w i :: nat
  defines "n \<equiv> nb s i" and "soon \<equiv> c_now s + LG_EXPEDITE_LEAD_US" and "t \<equiv> lg_sched_expedite i s"
  assumes "i < length (c_neigh s)" "n_state n = LG_NS_LINKED" "n_initiator n" "on_grid n c"
    and early: "soon < n_anchor_us n" "n_epoch_us n \<le> soon"
  defines "q \<equiv> (unat soon - unat (n_epoch_us n)) div unat (n_interval_us n)"
    and "r \<equiv> (unat soon - unat (n_epoch_us n)) mod unat (n_interval_us n)"
  assumes off: "w < r" "r + w < unat (n_interval_us n)"
  shows "n_anchor_us (nb t i) = soon \<and>
    (\<forall>m d. on_grid m d \<and> n_epoch_us m = n_epoch_us n \<and> n_interval_us m = n_interval_us n \<longrightarrow>
       int w < \<bar>int (unat (n_anchor_us m)) - int (unat soon)\<bar>) \<and>
    (unat (n_interval_us n) \<le> r + unat (n_interval_us n) div 2 \<and> q + 2 < 65536 \<longrightarrow>
       unat (n_anchor_us (link_advance (nb t i))) = unat (n_epoch_us n) + (q + 2) * unat (n_interval_us n))"
proof -
  let ?e = "unat (n_epoch_us n)" and ?v = "unat (n_interval_us n)"
  have at: "unat soon = ?e + q * ?v + r"
    using early(2) by (simp add: q_def r_def word_le_nat_alt)
  have "nb (upd_neigh i f s) i = f n" for f using assms(4) by (simp add: nb_upd_same n_def)
  then have t: "nb t i = n\<lparr>n_anchor_us := soon, n_subrate := 1\<rparr>"
    using assms(5,6) early(1) by (simp add: t_def lg_sched_expedite_def Let_def lg_sched_kick_def n_def soon_def)
  have far: "int w < \<bar>int (unat (n_anchor_us m)) - int (unat soon)\<bar>"
    if "on_grid m d" "n_epoch_us m = n_epoch_us n" "n_interval_us m = n_interval_us n" for m d
  proof -
    have m: "unat (n_anchor_us m) = ?e + d * ?v" using that by (simp add: on_grid_def)
    have apart: "int w < \<bar>int (e + x) - int (e + y + r)\<bar>" if "x \<le> y \<or> y + ?v \<le> x" for e x y :: nat
      using that off by linarith
    have "d * ?v \<le> q * ?v \<or> q * ?v + ?v \<le> d * ?v"
    proof (cases "d \<le> q")
      case False
      then have "(q + 1) * ?v \<le> d * ?v" by (intro mult_le_mono1) simp
      then show ?thesis by simp
    qed (simp add: mult_le_mono1)
    then show ?thesis unfolding m at by (rule apart)
  qed
  have skip: "unat (n_anchor_us (link_advance (nb t i))) = ?e + (q + 2) * ?v" if "?v \<le> r + ?v div 2" "q + 2 < 65536"
  proof -
    have v: "n_interval_us n \<noteq> 0" "r < ?v" and room: "?e + 65536 * ?v < 2 ^ 64"
      using assms(7) off by (auto simp: on_grid_def)
    have e: "\<not> soon < n_epoch_us n" using early(2) by simp
    have "q * ?v \<le> 65533 * ?v" using that(2) by (intro mult_le_mono1) simp
    then have fit: "q * ?v + r + ?v div 2 < 2 ^ 64" using v(2) room by linarith
    have "unat (soon - n_epoch_us n + ucast (n_interval_us n div 2)) = q * ?v + r + ?v div 2"
      using e at fit by (subst unat_add_small) (simp_all add: unat_sub word_le_nat_alt unat_ucast_up unat_div not_less)
    then have "unat ((soon - n_epoch_us n + ucast (n_interval_us n div 2)) div ucast (n_interval_us n)) = (q * ?v + r + ?v div 2) div ?v"
      by (simp add: unat_div unat_ucast_up)
    also have "\<dots> = q + 1" using that(1) v(2) by (intro div_nat_eqI) (simp_all add: algebra_simps)
    finally have "unat (counter_of (nb t i)) = q + 1"
      using v(1) e that(2) by (simp add: counter_of_def t) (subst unat_ucast_small; simp)
    then have na: "unat (next_active (nb t i) (counter_of (nb t i))) = q + 2"
      using next_active_word [of "q + 1" "nb t i" "counter_of (nb t i)"] that(2) by (simp add: step_of_def t)
    have "on_grid (n\<lparr>n_anchor_us := n_anchor_us n, n_subrate := 1\<rparr>) c" using assms(7) by (simp add: on_grid_def)
    then have "on_grid (anchor_set (next_active (nb t i) (counter_of (nb t i))) n) (q + 2)"
      using anchor_set_grid [OF assms(7), of "next_active (nb t i) (counter_of (nb t i))"] na that(2) by simp
    then show ?thesis by (simp add: on_grid_def link_advance_def Let_def anchor_set_def t)
  qed
  show ?thesis using t far skip by auto
qed

text \<open>At 500 ms, events every 200 ms from 1 ms on: the event of 601 ms is moved to 503 ms, away from the window
  of any event, and the one after it is that of 801 ms.\<close>

definition demo_urgent :: ctx where
  "demo_urgent = demo_node\<lparr>c_now := 500000, c_neigh := demo_link True 1 601000 # replicate 7 neigh_zero\<rparr>"

theorem expedited_event_unheard_witness:
  "n_anchor_us (nb (lg_sched_expedite 0 demo_urgent) 0) = 503000 \<and> on_grid (demo_link False 1 601000) 3 \<and>
   30000 < \<bar>int (unat (n_anchor_us (demo_link False 1 601000))) - 503000\<bar> \<and>
   unat (n_anchor_us (link_advance (nb (lg_sched_expedite 0 demo_urgent) 0))) = 801000"
proof -
  have n0: "nb demo_urgent 0 = demo_link True 1 601000" "c_now demo_urgent = 500000" "0 < length (c_neigh demo_urgent)"
    by (simp_all add: demo_urgent_def)
  have l: "n_state (demo_link b 1 601000) = LG_NS_LINKED" "n_initiator (demo_link True 1 601000)" "on_grid (demo_link b 1 601000) 3"
    "n_epoch_us (demo_link b 1 601000) = 1000" "n_interval_us (demo_link b 1 601000) = 200000" "n_anchor_us (demo_link b 1 601000) = 601000" for b
    by (simp_all add: demo_link_def on_grid_def)
  have "n_anchor_us (nb (lg_sched_expedite 0 demo_urgent) 0) = 503000 \<and>
    (\<forall>m d. on_grid m d \<and> n_epoch_us m = 1000 \<and> n_interval_us m = 200000 \<longrightarrow> int 30000 < \<bar>int (unat (n_anchor_us m)) - int (unat (503000 :: u64))\<bar>) \<and>
    unat (n_anchor_us (link_advance (nb (lg_sched_expedite 0 demo_urgent) 0))) = 801000"
    using expedited_event_unheard [where i = 0 and s = demo_urgent and c = 3 and w = 30000, OF n0(3)] unfolding n0 l by (simp add: l)
  then show ?thesis by (auto dest!: spec [of _ "demo_link False 1 601000"] simp: l)
qed

end
