(* ===== verification/LG_SimProv.thy ===== *)
theory LG_SimProv
  imports LG_Core
begin

text \<open>
  The issuing of development certificates (\<open>lg_provision_sim.c\<close>): a node makes a key pair, signs a
  certificate for itself with the compiled-in test authority and provisions itself with it. The identity
  lives in static buffers the node keeps pointers to, so their contents and whether the node uses them
  are state.
\<close>

section \<open>The buffers and the authority\<close>

record sim_bufs =
  sb_cert :: "u8 list"
  sb_priv :: "u8 list"
  sb_ca_pub :: "u8 list"
  sb_net_key :: "u8 list"
  sb_bound :: bool

text \<open>What PSA adds here: bringing it up, the public point of an imported scalar, the pairs it generates.\<close>

record sim_psa =
  sp_init :: bool
  sp_point :: "u8 list \<Rightarrow> u8 list option"
  sp_gen :: "nat \<Rightarrow> (u8 list \<times> u8 list) option"

abbreviation (input) LG_EC_POINT_LEN :: nat where "LG_EC_POINT_LEN \<equiv> 1 + LG_EC_PUB_LEN"
abbreviation (input) LG_CERT_OFF_FLAGS :: nat where "LG_CERT_OFF_FLAGS \<equiv> 3"
abbreviation (input) LG_CERT_OFF_NOTBEF :: nat where "LG_CERT_OFF_NOTBEF \<equiv> 4"
abbreviation (input) LG_CERT_OFF_NOTAFT :: nat where "LG_CERT_OFF_NOTAFT \<equiv> 8"

definition ca_priv :: "u8 list" where
  "ca_priv = [0x4C, 0x6F, 0x63, 0x6B, 0x47, 0x72, 0x69, 0x64, 0x54, 0x65, 0x73, 0x74,
     0x43, 0x41, 0x4B, 0x65, 0x79, 0x44, 0x6F, 0x4E, 0x6F, 0x74, 0x53, 0x68,
     0x69, 0x70, 0x54, 0x68, 0x69, 0x73, 0x30, 0x31]"

section \<open>Issuing\<close>

definition derive_ca_public :: "sim_psa \<Rightarrow> sim_bufs \<Rightarrow> (errno + unit) \<times> sim_bufs" where
  "derive_ca_public psa b =
    (case sp_point psa ca_priv of
       None \<Rightarrow> (Inl EIO, b)
     | Some point \<Rightarrow>
         if length point \<noteq> LG_EC_POINT_LEN then (Inl EIO, b)
         else (Inr (), b\<lparr>sb_ca_pub := take LG_EC_PUB_LEN (drop 1 point)\<rparr>))"

text \<open>The \<open>k\<close>-th pair; an export that does not fit the buffer fails, one that is too short is written all the same.\<close>

definition generate_node_key :: "sim_psa \<Rightarrow> nat \<Rightarrow> sim_bufs \<Rightarrow> (errno + u8 list) \<times> sim_bufs" where
  "generate_node_key psa k b =
    (case sp_gen psa k of
       None \<Rightarrow> (Inl EIO, b)
     | Some (point, priv) \<Rightarrow>
         if length point \<noteq> LG_EC_POINT_LEN then (Inl EIO, b)
         else if LG_EC_PRIV_LEN < length priv then (Inl EIO, b)
         else
           let b1 = b\<lparr>sb_priv := blit (sb_priv b) 0 priv\<rparr>
           in if length priv \<noteq> LG_EC_PRIV_LEN then (Inl EIO, b1)
              else (Inr (take LG_EC_PUB_LEN (drop 1 point)), b1))"

definition sign_cert :: "crypto \<Rightarrow> sim_bufs \<Rightarrow> (errno + unit) \<times> sim_bufs" where
  "sign_cert cr b =
    (case cr_hash cr (take LG_CERT_BODY_LEN (sb_cert b)) of
       None \<Rightarrow> (Inl EIO, b)
     | Some h \<Rightarrow>
         (case cr_sign cr ca_priv h of
            None \<Rightarrow> (Inl EIO, b)
          | Some sig \<Rightarrow>
              if LG_SIG_LEN < length sig then (Inl EIO, b)
              else
                let b1 = b\<lparr>sb_cert := blit (sb_cert b) LG_CERT_OFF_SIG sig\<rparr>
                in (if length sig \<noteq> LG_SIG_LEN then Inl EIO else Inr (), b1)))"

definition sim_salt :: "u8 list" where
  "sim_salt = map of_char ''LockGrid simulated grid key''"

definition derive_net_key :: "crypto \<Rightarrow> u32 \<Rightarrow> sim_bufs \<Rightarrow> (errno + unit) \<times> sim_bufs" where
  "derive_net_key cr network_id b =
    (case cr_hkdf cr (le32_bytes network_id) sim_salt ''netkey'' of
       None \<Rightarrow> (Inl EIO, b)
     | Some k \<Rightarrow> (Inr (), b\<lparr>sb_net_key := blit (sb_net_key b) 0 (take LG_KEY_LEN k)\<rparr>))"

definition sim_cert :: "u16 \<Rightarrow> u8 \<Rightarrow> u8 list \<Rightarrow> u8 list" where
  "sim_cert addr role pub =
    (let c0 = lg_put_le16 (replicate LG_CERT_LEN 0) LG_CERT_OFF_ADDR addr;
         c1 = (c0[LG_CERT_OFF_ROLE := role])[LG_CERT_OFF_FLAGS := 0];
         c2 = lg_put_le32 (lg_put_le32 c1 LG_CERT_OFF_NOTBEF 0) LG_CERT_OFF_NOTAFT 0xFFFFFFFF
     in blit c2 LG_CERT_OFF_PUB pub)"

text \<open>A node that was provisioned from the buffers sees what is written to them.\<close>

definition sim_sync :: "sim_bufs \<Rightarrow> ctx \<Rightarrow> ctx" where
  "sim_sync b s =
    (if sb_bound b then s\<lparr>c_cert := Some (sb_cert b), c_priv_key := Some (sb_priv b), c_ca_pub := Some (sb_ca_pub b)\<rparr> else s)"

definition sim_identity :: "u32 \<Rightarrow> sim_bufs \<Rightarrow> identity" where
  "sim_identity network_id b = \<lparr>id_network_id = network_id, id_cert = Some (sb_cert b), id_priv_key = Some (sb_priv b),
     id_ca_pub_key = Some (sb_ca_pub b), id_net_key = Some (sb_net_key b)\<rparr>"

definition lg_provision_sim :: "sim_psa \<Rightarrow> u32 \<Rightarrow> u16 \<Rightarrow> u8 \<Rightarrow> sim_bufs \<Rightarrow> ctx \<Rightarrow> (errno + unit) \<times> sim_bufs \<times> ctx" where
  "lg_provision_sim psa network_id addr max_role b s =
    (if \<not> sp_init psa then (Inl EIO, b, s)
     else case derive_ca_public psa b of
       (Inl e, b1) \<Rightarrow> (Inl e, b1, sim_sync b1 s)
     | (Inr _, b1) \<Rightarrow>
         (case generate_node_key psa (c_rng_n s) b1 of
            (Inl e, b2) \<Rightarrow> (Inl e, b2, sim_sync b2 s)
          | (Inr pub, b2) \<Rightarrow>
              let s1 = s\<lparr>c_rng_n := c_rng_n s + 1\<rparr>
              in case derive_net_key (c_cr s) network_id b2 of
                   (Inl e, b3) \<Rightarrow> (Inl e, b3, sim_sync b3 s1)
                 | (Inr _, b3) \<Rightarrow>
                     (case sign_cert (c_cr s) (b3\<lparr>sb_cert := sim_cert addr max_role pub\<rparr>) of
                        (Inl e, b4) \<Rightarrow> (Inl e, b4, sim_sync b4 s1)
                      | (Inr _, b4) \<Rightarrow>
                          (case lg_provision (sp_init psa) (Some (sim_identity network_id b4)) (sim_sync b4 s1) of
                             (r, s2) \<Rightarrow> (r, b4\<lparr>sb_bound := (sb_bound b4 \<or> \<not> c_started s)\<rparr>, s2)))))"

section \<open>What it relies on\<close>

text \<open>The documented behaviour of PSA: what it generates and derives has its length, and a signature made with
  a scalar verifies with its public point.\<close>

definition sim_psa_works :: "sim_psa \<Rightarrow> crypto \<Rightarrow> u8 list \<Rightarrow> bool" where
  "sim_psa_works psa cr ca \<longleftrightarrow> sp_init psa \<and> length ca = LG_EC_PUB_LEN \<and> sp_point psa ca_priv = Some (4 # ca) \<and>
     (\<forall>h. \<exists>sig. cr_sign cr ca_priv h = Some sig \<and> length sig = LG_SIG_LEN \<and> cr_verify cr ca h sig) \<and>
     (\<forall>k. \<exists>pub priv. sp_gen psa k = Some (4 # pub, priv) \<and> length pub = LG_EC_PUB_LEN \<and> length priv = LG_EC_PRIV_LEN \<and>
        (\<forall>h. \<exists>sig. cr_sign cr priv h = Some sig \<and> length sig = LG_SIG_LEN \<and> cr_verify cr pub h sig)) \<and>
     (\<forall>d. cr_hash cr d \<noteq> None) \<and> (\<forall>k. cr_import_ok cr k) \<and>
     (\<forall>secret salt info. \<exists>k. cr_hkdf cr secret salt info = Some k \<and> length k = LG_KEY_LEN)"

definition sim_bufs_ok :: "sim_bufs \<Rightarrow> bool" where
  "sim_bufs_ok b \<longleftrightarrow> length (sb_cert b) = LG_CERT_LEN \<and> length (sb_priv b) = LG_EC_PRIV_LEN \<and>
     length (sb_ca_pub b) = LG_EC_PUB_LEN \<and> length (sb_net_key b) = LG_KEY_LEN"

definition sim_bufs_zero :: sim_bufs where
  "sim_bufs_zero = \<lparr>sb_cert = replicate LG_CERT_LEN 0, sb_priv = replicate LG_EC_PRIV_LEN 0,
     sb_ca_pub = replicate LG_EC_PUB_LEN 0, sb_net_key = replicate LG_KEY_LEN 0, sb_bound = False\<rparr>"

lemma sim_cert_fields:
  fixes addr :: u16 and role :: u8
  assumes "length pub = LG_EC_PUB_LEN" "length sig = LG_SIG_LEN"
  defines "c \<equiv> sim_cert addr role pub"
  shows "length c = LG_CERT_LEN" "length (blit c LG_CERT_OFF_SIG sig) = LG_CERT_LEN"
    "take LG_CERT_BODY_LEN (blit c LG_CERT_OFF_SIG sig) = take LG_CERT_BODY_LEN c"
    "take LG_SIG_LEN (drop LG_CERT_OFF_SIG (blit c LG_CERT_OFF_SIG sig)) = sig"
    "lg_get_le16 (blit c LG_CERT_OFF_SIG sig) LG_CERT_OFF_ADDR = addr"
    "blit c LG_CERT_OFF_SIG sig ! LG_CERT_OFF_ROLE = role"
    "take LG_EC_PUB_LEN (drop LG_CERT_OFF_PUB (blit c LG_CERT_OFF_SIG sig)) = pub"
proof -
  show l: "length c = LG_CERT_LEN"
    using assms(1) by (simp add: c_def sim_cert_def lg_put_le16_def lg_put_le32_def le16_bytes_def le32_bytes_def Let_def)
  have c: "c = le16_bytes addr @ [role, 0] @ le32_bytes 0 @ le32_bytes 0xFFFFFFFF @ pub @ replicate LG_SIG_LEN 0"
    using assms(1)
    by (simp add: c_def sim_cert_def lg_put_le16_def lg_put_le32_def le16_bytes_def le32_bytes_def Let_def blit_def)
      (simp add: list_update_append numeral_eq_Suc)
  have b: "blit c LG_CERT_OFF_SIG sig = le16_bytes addr @ [role, 0] @ le32_bytes 0 @ le32_bytes 0xFFFFFFFF @ pub @ sig"
    using assms(1,2) by (simp add: c blit_def le16_bytes_def le32_bytes_def)
  show "length (blit c LG_CERT_OFF_SIG sig) = LG_CERT_LEN" using assms(1,2) by (simp add: b le16_bytes_def le32_bytes_def)
  show "take LG_CERT_BODY_LEN (blit c LG_CERT_OFF_SIG sig) = take LG_CERT_BODY_LEN c" by (simp add: l)
  show "take LG_SIG_LEN (drop LG_CERT_OFF_SIG (blit c LG_CERT_OFF_SIG sig)) = sig"
    "take LG_EC_PUB_LEN (drop LG_CERT_OFF_PUB (blit c LG_CERT_OFF_SIG sig)) = pub"
    "blit c LG_CERT_OFF_SIG sig ! LG_CERT_OFF_ROLE = role"
    using assms(1,2) by (simp_all add: b le16_bytes_def le32_bytes_def)
  show "lg_get_le16 (blit c LG_CERT_OFF_SIG sig) LG_CERT_OFF_ADDR = addr"
    by (simp add: b get_le16_head)
qed

section \<open>A node that issued its own certificate\<close>

text \<open>The node \<open>t\<close> holds an identity of the network \<open>nid\<close> under the authority \<open>ca\<close>.\<close>

definition sim_member :: "crypto \<Rightarrow> u8 list \<Rightarrow> u32 \<Rightarrow> u16 \<Rightarrow> u8 \<Rightarrow> ctx \<Rightarrow> bool" where
  "sim_member cr ca nid addr role t \<longleftrightarrow> c_cr t = cr \<and> c_addr t = addr \<and> c_network_id t = nid \<and> c_ca_pub t = Some ca \<and>
     Some (c_net_key t) = cr_hkdf cr (le32_bytes nid) sim_salt ''netkey'' \<and> length (own_cert t) = LG_CERT_LEN \<and>
     (\<exists>pub. lg_sec_cert_verify t (own_cert t) = Inr (addr, role, pub) \<and>
       (\<forall>h. \<exists>sig. lg_sec_sign t h = Inr sig \<and> length sig = LG_SIG_LEN \<and> cr_verify cr pub h sig))"

text \<open>Up to the call of \<open>lg_provision\<close>: the buffers hold a certificate the authority signed.\<close>

lemma sim_issue:
  assumes "sim_psa_works psa (c_cr s) ca" "sim_bufs_ok b"
    and "addr \<noteq> LG_ADDR_INVALID" "addr \<noteq> LG_ADDR_BROADCAST" "addr \<noteq> LG_ADDR_BACKHAUL"
  obtains b4 pub where
    "lg_provision_sim psa nid addr role b s =
      (case lg_provision True (Some (sim_identity nid b4)) (sim_sync b4 (s\<lparr>c_rng_n := c_rng_n s + 1\<rparr>)) of
         (r, t) \<Rightarrow> (r, b4\<lparr>sb_bound := (sb_bound b \<or> \<not> c_started s)\<rparr>, t))"
    "sim_bufs_ok b4" "sb_bound b4 = sb_bound b" "sb_ca_pub b4 = ca" "lg_get_le16 (sb_cert b4) LG_CERT_OFF_ADDR = addr"
    "Some (sb_net_key b4) = cr_hkdf (c_cr s) (le32_bytes nid) sim_salt ''netkey''"
    "\<forall>v. c_cr v = c_cr s \<longrightarrow> c_ca_pub v = Some ca \<longrightarrow> lg_sec_cert_verify v (sb_cert b4) = Inr (addr, role, pub)"
    "\<forall>h. \<exists>sig. cr_sign (c_cr s) (sb_priv b4) h = Some sig \<and> length sig = LG_SIG_LEN \<and> cr_verify (c_cr s) pub h sig"
proof -
  from assms(1) obtain pub priv where g: "sp_gen psa (c_rng_n s) = Some (4 # pub, priv)"
    "length pub = LG_EC_PUB_LEN" "length priv = LG_EC_PRIV_LEN"
    "\<And>h. \<exists>sig. cr_sign (c_cr s) priv h = Some sig \<and> length sig = LG_SIG_LEN \<and> cr_verify (c_cr s) pub h sig"
    unfolding sim_psa_works_def by meson
  from assms(1) obtain k where k: "cr_hkdf (c_cr s) (le32_bytes nid) sim_salt ''netkey'' = Some k" "length k = LG_KEY_LEN"
    unfolding sim_psa_works_def by meson
  define c where "c = sim_cert addr role pub"
  from assms(1) obtain h where h: "cr_hash (c_cr s) (take LG_CERT_BODY_LEN c) = Some h"
    unfolding sim_psa_works_def by (meson option.exhaust)
  from assms(1) obtain sig where sig: "cr_sign (c_cr s) ca_priv h = Some sig" "length sig = LG_SIG_LEN" "cr_verify (c_cr s) ca h sig"
    unfolding sim_psa_works_def by meson
  have ca: "sp_init psa" "length ca = LG_EC_PUB_LEN" "sp_point psa ca_priv = Some (4 # ca)"
    using assms(1) by (simp_all add: sim_psa_works_def)
  note cert = sim_cert_fields [OF g(2) sig(2), of addr role, folded c_def]
  define b4 where "b4 = b\<lparr>sb_ca_pub := ca, sb_priv := blit (sb_priv b) 0 priv, sb_net_key := blit (sb_net_key b) 0 k,
    sb_cert := blit c LG_CERT_OFF_SIG sig\<rparr>"
  have b4: "sb_priv b4 = priv" "sb_net_key b4 = k" "sb_cert b4 = blit c LG_CERT_OFF_SIG sig" "sb_ca_pub b4 = ca" "sb_bound b4 = sb_bound b"
    using assms(2) g(3) k(2) by (simp_all add: b4_def sim_bufs_ok_def blit_def)
  show thesis
  proof (rule that [of b4 pub])
    show "lg_provision_sim psa nid addr role b s =
      (case lg_provision True (Some (sim_identity nid b4)) (sim_sync b4 (s\<lparr>c_rng_n := c_rng_n s + 1\<rparr>)) of
         (r, t) \<Rightarrow> (r, b4\<lparr>sb_bound := (sb_bound b \<or> \<not> c_started s)\<rparr>, t))"
      using ca g(1-3) k h sig cert(1)
      by (simp add: lg_provision_sim_def derive_ca_public_def generate_node_key_def derive_net_key_def sign_cert_def Let_def
        c_def [symmetric] b4_def)
    show "\<forall>v. c_cr v = c_cr s \<longrightarrow> c_ca_pub v = Some ca \<longrightarrow> lg_sec_cert_verify v (sb_cert b4) = Inr (addr, role, pub)"
      using cert ca(2) h sig(2,3) assms(3-5) by (simp add: lg_sec_cert_verify_def lg_sec_hash_def lg_sec_verify_def b4 Let_def)
    show "sim_bufs_ok b4" using cert(2) g(3) ca(2) k(2) by (simp add: sim_bufs_ok_def b4)
  qed (use cert k g(4) in \<open>simp_all add: b4\<close>)
qed

lemma sim_provision_run:
  assumes "sim_psa_works psa (c_cr s) ca" "sim_bufs_ok b" "\<not> c_started s"
    and "addr \<noteq> LG_ADDR_INVALID" "addr \<noteq> LG_ADDR_BROADCAST" "addr \<noteq> LG_ADDR_BACKHAUL"
  shows "\<exists>b' t. lg_provision_sim psa nid addr role b s = (Inr (), b', t) \<and> sim_member (c_cr s) ca nid addr role t \<and>
    c_neigh t = c_neigh s \<and> c_hs t = c_hs s \<and> \<not> c_started t \<and> sb_bound b' \<and> c_backhaul_active t = c_backhaul_active s"
proof -
  obtain b4 pub where run: "lg_provision_sim psa nid addr role b s =
      (case lg_provision True (Some (sim_identity nid b4)) (sim_sync b4 (s\<lparr>c_rng_n := c_rng_n s + 1\<rparr>)) of
         (r, t) \<Rightarrow> (r, b4\<lparr>sb_bound := (sb_bound b \<or> \<not> c_started s)\<rparr>, t))"
    and b4: "sim_bufs_ok b4" "sb_bound b4 = sb_bound b" "sb_ca_pub b4 = ca" "lg_get_le16 (sb_cert b4) LG_CERT_OFF_ADDR = addr"
      "Some (sb_net_key b4) = cr_hkdf (c_cr s) (le32_bytes nid) sim_salt ''netkey''"
    and ver: "\<forall>v. c_cr v = c_cr s \<longrightarrow> c_ca_pub v = Some ca \<longrightarrow> lg_sec_cert_verify v (sb_cert b4) = Inr (addr, role, pub)"
    and sg: "\<forall>h. \<exists>sig. cr_sign (c_cr s) (sb_priv b4) h = Some sig \<and> length sig = LG_SIG_LEN \<and> cr_verify (c_cr s) pub h sig"
    by (rule sim_issue [OF assms(1,2,4-6), of nid role])
  define u where "u = sim_sync b4 (s\<lparr>c_rng_n := c_rng_n s + 1\<rparr>)"
  have u: "c_cr u = c_cr s" "c_started u = c_started s" "c_neigh u = c_neigh s" "c_hs u = c_hs s"
    "c_backhaul_active u = c_backhaul_active s"
    by (simp_all add: u_def sim_sync_def)
  define t where "t = u\<lparr>c_network_id := nid, c_netid16 := ucast nid, c_cert := Some (sb_cert b4), c_priv_key := Some (sb_priv b4),
    c_ca_pub := Some ca, c_net_key := sb_net_key b4, c_net_key_id := Some (sb_net_key b4), c_addr := addr\<rparr>"
  have "identity_ok (sim_identity nid b4)"
    using b4(1) by (simp add: identity_ok_def has_len_def sim_identity_def sim_bufs_ok_def)
  moreover have "\<And>k. cr_import_ok (c_cr s) k" using assms(1) by (simp add: sim_psa_works_def)
  ultimately have prov: "lg_provision True (Some (sim_identity nid b4)) u = (Inr (), t)"
    using assms(3) ver
    by (simp add: lg_provision_def sim_identity_def lg_sec_init_def import_aes_key_def own_cert_def u b4(3) t_def Let_def)
  have "\<exists>sig. lg_sec_sign t h = Inr sig \<and> length sig = LG_SIG_LEN \<and> cr_verify (c_cr s) pub h sig" for h
  proof -
    obtain sig where "cr_sign (c_cr s) (sb_priv b4) h = Some sig" "length sig = LG_SIG_LEN" "cr_verify (c_cr s) pub h sig" using sg by blast
    then show ?thesis using b4(1) by (simp add: t_def u lg_sec_sign_def sim_bufs_ok_def)
  qed
  moreover have "lg_sec_cert_verify t (own_cert t) = Inr (addr, role, pub)" "length (own_cert t) = LG_CERT_LEN"
    using ver [rule_format, of t] b4(1) b4(3) by (simp_all add: t_def u own_cert_def sim_bufs_ok_def)
  ultimately have "sim_member (c_cr s) ca nid addr role t"
    using b4(5) by (simp add: sim_member_def t_def u)
  moreover have "c_neigh t = c_neigh s" "c_hs t = c_hs s" "\<not> c_started t" "c_backhaul_active t = c_backhaul_active s"
    using assms(3) by (simp_all add: t_def u)
  ultimately show ?thesis unfolding run u_def [symmetric] prov prod.case using assms(3) by fastforce
qed

text \<open>Called on a running node it refuses - after it has put a new certificate and a new key in the place of
  those the node is using, so that the node goes on under an address its certificate does not name.\<close>

lemma busy_sim_provision_overwrites:
  assumes "sim_psa_works psa (c_cr s) ca" "sim_bufs_ok b" "sb_bound b" "c_started s"
    and "addr \<noteq> LG_ADDR_INVALID" "addr \<noteq> LG_ADDR_BROADCAST" "addr \<noteq> LG_ADDR_BACKHAUL" "addr \<noteq> c_addr s"
  shows "\<exists>b' t. lg_provision_sim psa nid addr role b s = (Inl EBUSY, b', t) \<and> c_started t \<and> lg_local_addr t = c_addr s \<and>
    lg_get_le16 (own_cert t) LG_CERT_OFF_ADDR \<noteq> lg_local_addr t \<and> c_priv_key t = Some (sb_priv b')"
proof -
  obtain b4 where run: "lg_provision_sim psa nid addr role b s =
      (case lg_provision True (Some (sim_identity nid b4)) (sim_sync b4 (s\<lparr>c_rng_n := c_rng_n s + 1\<rparr>)) of
         (r, t) \<Rightarrow> (r, b4\<lparr>sb_bound := (sb_bound b \<or> \<not> c_started s)\<rparr>, t))"
    and b4: "sim_bufs_ok b4" "sb_bound b4" "lg_get_le16 (sb_cert b4) LG_CERT_OFF_ADDR = addr"
    using sim_issue [OF assms(1,2,5-7)] assms(3) by metis
  have "identity_ok (sim_identity nid b4)"
    using b4(1) by (simp add: identity_ok_def has_len_def sim_identity_def sim_bufs_ok_def)
  then show ?thesis using assms(4,8) b4(2,3) unfolding run
    by (simp add: lg_provision_def sim_sync_def lg_local_addr_def own_cert_def)
qed

lemma sim_certified:
  assumes "sim_member cr ca nid x r s" "sim_member cr ca nid y q t"
  shows "certified s t"
proof -
  have "lg_sec_verify s = lg_sec_verify t" using assms by (intro ext) (simp add: lg_sec_verify_def sim_member_def)
  moreover have "lg_sec_hash s = lg_sec_hash t" using assms by (intro ext) (simp add: lg_sec_hash_def sim_member_def)
  ultimately have "lg_sec_cert_verify s = lg_sec_cert_verify t"
    using assms by (intro ext) (simp only: lg_sec_cert_verify_def sim_member_def)
  moreover from assms(2) obtain pub where "lg_sec_cert_verify t (own_cert t) = Inr (y, q, pub)"
    "\<And>h. \<exists>sig. lg_sec_sign t h = Inr sig \<and> length sig = LG_SIG_LEN \<and> cr_verify cr pub h sig"
    unfolding sim_member_def by blast
  moreover have "lg_sec_verify s pub h sig = Inr ()" if "cr_verify cr pub h sig" for h sig
    using assms(1) that by (simp add: lg_sec_verify_def sim_member_def)
  ultimately show ?thesis unfolding certified_def using assms(2) by (fastforce simp: sim_member_def)
qed

text \<open>C5: nodes provisioned for the simulator find each other. Give any two nodes their addresses and the same
  network, and each issues itself a certificate it can start with; the two hold the same grid key, so they
  can open each other's beacons, and the handshake between them goes through: each accepts the other's
  certificate and both end with the same session key.\<close>

theorem sim_nodes_join:
  fixes a b :: ctx and i j :: nat and nid :: u32 and x y :: u16 and rx ry :: u8 and p q :: sim_bufs
  assumes works: "sim_psa_works psa (c_cr a) ca" "crypto_works (c_cr a)" "c_cr b = c_cr a"
    and bufs: "sim_bufs_ok p" "sim_bufs_ok q" and "\<not> c_started a" "\<not> c_started b"
    and addr: "{x, y} \<inter> {LG_ADDR_INVALID, LG_ADDR_BROADCAST, LG_ADDR_BACKHAUL} = {}"
    and entries: "i < length (c_neigh a)" "n_addr (nb a i) = y" "j < length (c_neigh b)" "n_addr (nb b j) = x"
    and room: "length (hs_tx (c_hs a)) = LG_XFER_MAX" "length (hs_tx (c_hs b)) = LG_XFER_MAX"
  defines "a0 \<equiv> snd (snd (lg_provision_sim psa nid x rx p a))" and "b0 \<equiv> snd (snd (lg_provision_sim psa nid y ry q b))"
  defines "a1 \<equiv> snd (build_join_req i a0)"
  defines "b1 \<equiv> snd (handle_join_req j (staged a1) b0)"
  defines "a2 \<equiv> snd (handle_join_rsp i (staged b1) a1)"
  defines "b2 \<equiv> snd (handle_join_cfm j (staged a2) b1)"
  shows "fst (lg_provision_sim psa nid x rx p a) = Inr () \<and> fst (lg_provision_sim psa nid y ry q b) = Inr () \<and>
    lg_local_addr a0 = x \<and> lg_local_addr b0 = y \<and> c_net_key a0 = c_net_key b0 \<and>
    fst (lg_start None True True a0) = Inr () \<and> fst (lg_start None True True b0) = Inr () \<and>
    fst (handle_join_req j (staged a1) b0) = Inr () \<and> fst (handle_join_rsp i (staged b1) a1) = Inr () \<and>
    fst (handle_join_cfm j (staged a2) b1) = Inr () \<and> n_has_key (nb a2 i) \<and> n_has_key (nb b2 j) \<and>
    n_link_key (nb a2 i) = n_link_key (nb b2 j)"
proof -
  have w: "sim_psa_works psa (c_cr b) ca" using works by simp
  obtain p' where pa: "lg_provision_sim psa nid x rx p a = (Inr (), p', a0)" "sim_member (c_cr a) ca nid x rx a0"
    "c_neigh a0 = c_neigh a" "c_hs a0 = c_hs a" "\<not> c_started a0"
    using sim_provision_run [OF works(1) bufs(1) \<open>\<not> c_started a\<close>, of x nid rx] addr by (auto simp: a0_def)
  obtain q' where pb: "lg_provision_sim psa nid y ry q b = (Inr (), q', b0)" "sim_member (c_cr a) ca nid y ry b0"
    "c_neigh b0 = c_neigh b" "c_hs b0 = c_hs b" "\<not> c_started b0"
    using sim_provision_run [OF w bufs(2) \<open>\<not> c_started b\<close>, of y nid ry] addr works(3) by (auto simp: b0_def)
  have start: "fst (lg_start None True True t) = Inr ()" if "sim_member (c_cr a) ca nid z r t" "\<not> c_started t" "z \<noteq> LG_ADDR_INVALID" for z r t
    using that by (auto simp: sim_member_def lg_start_def lg_sched_init_def lg_ts_init_def Let_def)
  have join: "can_join i a0" "can_join j b0" using pa pb entries room works by (auto simp: can_join_def sim_member_def)
  have same: "c_cr b0 = c_cr a0" "c_network_id b0 = c_network_id a0" "n_addr (nb a0 i) = c_addr b0" "n_addr (nb b0 j) = c_addr a0"
    using pa pb entries by (simp_all add: sim_member_def)
  note run = handshake_run [OF join same sim_certified [OF pa(2) pb(2)] sim_certified [OF pb(2) pa(2)],
    folded a1_def, folded b1_def, folded a2_def, folded b2_def]
  have "Some (c_net_key a0) = Some (c_net_key b0)" using pa(2) pb(2) unfolding sim_member_def by argo
  then have "c_net_key a0 = c_net_key b0" by simp
  moreover have "x \<noteq> LG_ADDR_INVALID" "y \<noteq> LG_ADDR_INVALID" using addr by auto
  ultimately show ?thesis using run start [OF pa(2,5)] start [OF pb(2,5)] pa(1,2) pb(1,2)
    by (simp add: lg_local_addr_def sim_member_def)
qed

text \<open>Two toy nodes with the addresses 5 and 9.\<close>

definition demo_psa :: sim_psa where
  "demo_psa = \<lparr>sp_init = True, sp_point = (\<lambda>priv. Some (4 # replicate 64 (priv ! 0))),
     sp_gen = (\<lambda>k. Some (4 # replicate 64 (of_nat k), replicate 32 (of_nat k)))\<rparr>"

definition demo_side :: "u16 \<Rightarrow> ctx" where
  "demo_side peer = demo_node\<lparr>c_neigh := neigh_fresh peer # replicate 7 neigh_zero\<rparr>"

lemma demo_psa_works: "sim_psa_works demo_psa demo_crypto (replicate 64 0x4C)"
  by (simp add: sim_psa_works_def demo_psa_def demo_crypto_def ca_priv_def)

theorem sim_nodes_join_witness:
  "lg_local_addr (snd (snd (lg_provision_sim demo_psa 1 5 1 sim_bufs_zero (demo_side 9)))) = 5 \<and>
   fst (lg_start None True True (snd (snd (lg_provision_sim demo_psa 1 5 1 sim_bufs_zero (demo_side 9))))) = Inr () \<and>
   c_net_key (snd (snd (lg_provision_sim demo_psa 1 5 1 sim_bufs_zero (demo_side 9)))) =
   c_net_key (snd (snd (lg_provision_sim demo_psa 1 9 2 sim_bufs_zero (demo_side 5))))"
proof -
  have n: "c_cr (demo_side a) = demo_crypto" "\<not> c_started (demo_side a)" "0 < length (c_neigh (demo_side a))"
    "n_addr (nb (demo_side a) 0) = a" "length (hs_tx (c_hs (demo_side a))) = LG_XFER_MAX" for a
    by (simp_all add: demo_side_def demo_node_def node_zero_def neigh_fresh_def hs_zero_def)
  have w: "sim_psa_works demo_psa (c_cr (demo_side 9)) (replicate 64 0x4C)" "crypto_works (c_cr (demo_side 9))"
    "c_cr (demo_side 5) = c_cr (demo_side 9)" by (simp_all add: n demo_psa_works demo_crypto_works)
  have b: "sim_bufs_ok sim_bufs_zero" by (simp add: sim_bufs_ok_def sim_bufs_zero_def)
  have a: "{5, 9} \<inter> {LG_ADDR_INVALID, LG_ADDR_BROADCAST, LG_ADDR_BACKHAUL} = {}" by (simp add: addr_defs)
  show ?thesis
    using sim_nodes_join [OF w b b n(2) n(2) a n(3) n(4) n(3) n(4) n(5) n(5), of 1 1 2] by blast
qed

end
