(* ===== verification/LG_Sample.thy ===== *)
theory LG_Sample
  imports LG_SimProv
begin

text \<open>
  The sample node (\<open>samples/lockgrid_node/src/main.c\<close>): its arguments, how it brings a node up through the
  interface, its periodic work and the messages it sends and receives. What it logs is not modelled.
\<close>

abbreviation (input) LG_ARG_UNSET :: u32 where "LG_ARG_UNSET \<equiv> 0xFFFFFFFF"
abbreviation (input) LOCKGRID_NETWORK_ID :: u32 where "LOCKGRID_NETWORK_ID \<equiv> 0x10CC6217"
abbreviation (input) TELEMETRY_PORT :: u8 where "TELEMETRY_PORT \<equiv> 7"
abbreviation (input) LG_TX_RELIABLE :: u8 where "LG_TX_RELIABLE \<equiv> 1"

section \<open>The interface it reads\<close>

definition lg_role :: "ctx \<Rightarrow> role" where "lg_role s = c_role s"

definition lg_rank :: "ctx \<Rightarrow> u16" where "lg_rank s = c_rank s"

definition lg_channel_map :: "ctx \<Rightarrow> u16" where "lg_channel_map s = c_chan_map s"

definition lg_stats_get :: "ctx \<Rightarrow> stats" where "lg_stats_get s = c_stats s"

section \<open>The application\<close>

text \<open>A delayed work item is the delay it was last scheduled with, or nothing.\<close>

record app =
  ap_addr :: u32
  ap_role :: u32
  ap_period_ms :: u32
  ap_report_ms :: u32
  ap_stop_ms :: u32
  ap_snap_ms :: u32
  ap_rx_count :: u32
  ap_seq :: u32
  ap_telemetry :: "u32 option"
  ap_report :: "u32 option"
  ap_stop :: "u32 option"
  ap_snap :: "u32 option"

definition app_zero :: app where
  "app_zero = \<lparr>ap_addr = 0, ap_role = 1, ap_period_ms = 5000, ap_report_ms = 30000, ap_stop_ms = 0, ap_snap_ms = 0,
     ap_rx_count = 0, ap_seq = 0, ap_telemetry = None, ap_report = None, ap_stop = None, ap_snap = None\<rparr>"

definition arg_or :: "u32 \<Rightarrow> u32 \<Rightarrow> u32" where
  "arg_or v fallback = (if v = LG_ARG_UNSET then fallback else v)"

text \<open>The sequence number a message is logged with.\<close>

definition rx_seq :: "u8 list \<Rightarrow> nat \<Rightarrow> u32" where
  "rx_seq data len = (if 4 \<le> len then lg_get_le32 data 0 else 0)"

definition on_rx :: "app \<Rightarrow> app" where
  "on_rx a = a\<lparr>ap_rx_count := ap_rx_count a + 1\<rparr>"

definition telemetry_payload :: "u32 \<Rightarrow> u32 \<Rightarrow> ctx \<Rightarrow> u8 list" where
  "telemetry_payload seq uptime_ms s =
    le32_bytes seq @ le32_bytes (ucast (lg_rank s)) @ le32_bytes uptime_ms @ le32_bytes (ucast (lg_local_addr s))"

definition telemetry_fn :: "u32 \<Rightarrow> app \<Rightarrow> ctx \<Rightarrow> app \<times> ctx" where
  "telemetry_fn uptime_ms a s =
    (let seq = ap_seq a + 1
     in case lg_send LG_ADDR_BACKHAUL TELEMETRY_PORT (telemetry_payload seq uptime_ms s) 16 LG_TX_RELIABLE s of
          (r, t) \<Rightarrow> (a\<lparr>ap_seq := (case r of Inl _ \<Rightarrow> seq - 1 | Inr _ \<Rightarrow> seq), ap_telemetry := Some (ap_period_ms a)\<rparr>, t))"

definition report_fn :: "app \<Rightarrow> app" where
  "report_fn a = a\<lparr>ap_report := Some (ap_report_ms a)\<rparr>"

definition snap_fn :: "app \<Rightarrow> app" where
  "snap_fn a = a\<lparr>ap_snap := Some (ap_snap_ms a)\<rparr>"

definition stop_fn :: "app \<Rightarrow> ctx \<Rightarrow> app \<times> ctx" where
  "stop_fn a s = (a\<lparr>ap_telemetry := None\<rparr>, snd (lg_stop s))"

section \<open>Bringing the node up\<close>

text \<open>In the simulator (\<open>Some\<close> device number) an option that was not given reads as all ones.\<close>

definition main_args :: "u32 option \<Rightarrow> app \<Rightarrow> app" where
  "main_args bsim a =
    (let a1 = (case bsim of None \<Rightarrow> a
               | Some device \<Rightarrow>
                   let b = a\<lparr>ap_addr := arg_or (ap_addr a) 0, ap_role := arg_or (ap_role a) 1,
                     ap_period_ms := arg_or (ap_period_ms a) 5000, ap_report_ms := arg_or (ap_report_ms a) 30000,
                     ap_stop_ms := arg_or (ap_stop_ms a) 0, ap_snap_ms := arg_or (ap_snap_ms a) 0\<rparr>
                   in if ap_addr b = 0 then b\<lparr>ap_addr := device + 1\<rparr> else b)
     in if ap_addr a1 = 0 then a1\<lparr>ap_addr := 1\<rparr> else a1)"

definition when_set :: "u32 \<Rightarrow> u32 option \<Rightarrow> u32 option" where
  "when_set ms w = (if ms \<noteq> 0 then Some ms else w)"

definition main_work :: "ctx \<Rightarrow> app \<Rightarrow> app" where
  "main_work s a =
    (let a1 = (if ap_period_ms a \<noteq> 0 \<and> lg_role s \<noteq> LG_ROLE_BACKHAUL then a\<lparr>ap_telemetry := Some (ap_period_ms a)\<rparr> else a)
     in a1\<lparr>ap_report := when_set (ap_report_ms a) (ap_report a), ap_stop := when_set (ap_stop_ms a) (ap_stop a),
           ap_snap := when_set (ap_snap_ms a) (ap_snap a)\<rparr>)"

definition app_main ::
    "u32 option \<Rightarrow> sim_psa \<Rightarrow> errno option \<Rightarrow> bool \<Rightarrow> bool \<Rightarrow> app \<Rightarrow> sim_bufs \<Rightarrow> ctx \<Rightarrow> (errno + unit) \<times> app \<times> sim_bufs \<times> ctx" where
  "app_main bsim psa phy grant_chan fine_chan a0 b s =
    (let a = main_args bsim a0
     in case lg_provision_sim psa LOCKGRID_NETWORK_ID (ucast (ap_addr a)) (ucast (ap_role a)) b s of
          (Inl e, b1, s1) \<Rightarrow> (Inl e, a, b1, s1)
        | (Inr _, b1, s1) \<Rightarrow>
            let s2 = lg_callbacks_register (Some (True, True)) s1;
                s3 = (if 2 \<le> ap_role a then lg_backhaul_set True s2 else s2)
            in case lg_start phy grant_chan fine_chan s3 of
                 (Inl e, s4) \<Rightarrow> (Inl e, a, b1, s4)
               | (Inr _, s4) \<Rightarrow> (Inr (), main_work s4 a, b1, s4))"

section \<open>Telemetry\<close>

text \<open>The messages in slots of the queue that were free before.\<close>

definition new_messages :: "ctx \<Rightarrow> ctx \<Rightarrow> txmsg list" where
  "new_messages s t = map ((!) (c_txq t)) (filter (\<lambda>k. \<not> m_used (c_txq s ! k) \<and> m_used (c_txq t ! k)) [0..<length (c_txq t)])"

text \<open>The work item runs again and again, each time on the node as it then is.\<close>

fun telemetry_runs :: "app \<Rightarrow> (u32 \<times> ctx) list \<Rightarrow> txmsg list \<times> app" where
  "telemetry_runs a [] = ([], a)"
| "telemetry_runs a ((uptime_ms, s) # later) =
    (case telemetry_fn uptime_ms a s of (a1, t) \<Rightarrow>
       case telemetry_runs a1 later of (ms, a2) \<Rightarrow> (new_messages s t @ ms, a2))"

definition queue_ok :: "ctx \<Rightarrow> bool" where
  "queue_ok s \<longleftrightarrow> (\<forall>m \<in> set (c_txq s). length (m_payload m) = LG_PAYLOAD_MAX)"

definition telemetry_message :: "u16 \<Rightarrow> txmsg \<Rightarrow> bool" where
  "telemetry_message own m \<longleftrightarrow> m_origin m = own \<and> m_final m = LG_ADDR_BACKHAUL \<and> m_port m = TELEMETRY_PORT \<and>
     has_flag (m_flags m) LG_DATA_F_UPWARD \<and> m_hops m = 0 \<and> m_len m = 16 \<and> length (m_payload m) = LG_PAYLOAD_MAX"

lemma new_messages_none: "c_txq t = c_txq s \<Longrightarrow> new_messages s t = []"
  by (simp add: new_messages_def)

lemma filter_is: "k < n \<Longrightarrow> filter (\<lambda>j. j = k) [0..<n] = [k]"
proof (induction n)
  case (Suc n)
  then show ?case by (cases "k = n") (simp_all add: filter_empty_conv)
qed simp

lemma new_messages_put:
  assumes "c_txq t = (c_txq s)[k := m]" "k < length (c_txq s)" "\<not> m_used (c_txq s ! k)" "m_used m"
  shows "new_messages s t = [m]"
proof -
  have "filter (\<lambda>j. \<not> m_used (c_txq s ! j) \<and> m_used (c_txq t ! j)) [0..<length (c_txq t)] = filter (\<lambda>j. j = k) [0..<length (c_txq s)]"
    using assms by (intro filter_cong) (auto simp: nth_list_update)
  also have "\<dots> = [k]"
    by (rule filter_is) (rule assms(2))
  finally show ?thesis using assms(1,2) by (simp add: new_messages_def)
qed

lemma telemetry_step:
  assumes "queue_ok s" and run: "telemetry_fn up a s = (a1, t)"
  shows "(\<exists>m. new_messages s t = [m] \<and> telemetry_message (c_addr s) m \<and>
      rx_seq (m_payload m) (m_len m) = ap_seq a + 1 \<and> ap_seq a1 = ap_seq a + 1) \<or>
    new_messages s t = [] \<and> ap_seq a1 = ap_seq a"
proof -
  let ?p = "telemetry_payload (ap_seq a + 1) up s"
  obtain r t' where snd: "lg_send LG_ADDR_BACKHAUL TELEMETRY_PORT ?p 16 LG_TX_RELIABLE s = (r, t')"
    by (cases "lg_send LG_ADDR_BACKHAUL TELEMETRY_PORT ?p 16 LG_TX_RELIABLE s")
  have up: "has_flag LG_DATA_F_UPWARD LG_DATA_F_UPWARD" "\<not> has_flag LG_DATA_F_UPWARD LG_DATA_F_BROADCAST"
    "\<not> has_flag LG_TX_RELIABLE LG_TX_URGENT" by code_simp+
  let ?s = "s\<lparr>c_msg_id_next := c_msg_id_next s + 1\<rparr>"
  show ?thesis
  proof (cases r)
    case (Inl e)
    with snd up have "c_txq t' = c_txq s"
      by (auto simp: lg_send_def lg_send_forward_def lg_route_next_hop_def Let_def split: if_splits option.splits sum.splits prod.splits)
    with snd Inl run show ?thesis by (auto simp: telemetry_fn_def new_messages_none Let_def)
  next
    case (Inr u)
    with snd up obtain k where k: "txq_alloc ?s = Some k"
      and t': "t' = lg_sched_kick (txq_fill k (c_addr s) LG_ADDR_BACKHAUL TELEMETRY_PORT ?p 16 LG_DATA_F_UPWARD 0 (c_msg_id_next s) ?s)"
      by (auto simp: lg_send_def lg_send_forward_def lg_route_next_hop_def Let_def split: if_splits option.splits sum.splits prod.splits)
    from k have free: "k < length (c_txq s)" "\<not> m_used (c_txq s ! k)"
      by (auto simp: txq_alloc_def dest: find_idx_Some_bound find_idx_Some_holds)
    define m where "m = c_txq t' ! k"
    have q: "c_txq t' = (c_txq s)[k := m]" using free by (simp add: t' m_def txq_fill_def)
    have len: "length ?p = 16" "length (m_payload (c_txq s ! k)) = LG_PAYLOAD_MAX"
      using assms(1) free by (auto simp: telemetry_payload_def queue_ok_def)
    have m: "telemetry_message (c_addr s) m" "m_used m" "m_payload m = blit (m_payload (c_txq s ! k)) 0 ?p" "m_len m = 16"
      using free len up by (simp_all add: m_def t' txq_fill_def telemetry_message_def)
    have "rx_seq (m_payload m) (m_len m) = ap_seq a + 1"
      using len by (simp add: m rx_seq_def telemetry_payload_def blit_def get_le32_head)
    moreover have "new_messages s t' = [m]" by (rule new_messages_put [OF q free m(2)])
    ultimately show ?thesis using snd Inr run m(1) by (auto simp: telemetry_fn_def Let_def)
  qed
qed

text \<open>The sample's telemetry is numbered without gaps by what was accepted for sending. Whatever happens to the
  node between two runs of its work item, each run either queues exactly one message - its own address, for the
  backhaul, on port 7 - or none, and the messages queued carry the numbers after the current one in turn. So a
  number that never arrives was lost in the network: a message refused for want of a route or of a slot leaves
  no gap.\<close>

theorem telemetry_without_gaps:
  assumes "\<forall>(up, s) \<in> set runs. queue_ok s" and "telemetry_runs a runs = (ms, b)"
  shows "map (\<lambda>m. rx_seq (m_payload m) (m_len m)) ms = map (\<lambda>k. ap_seq a + 1 + of_nat k) [0..<length ms] \<and>
    ap_seq b = ap_seq a + of_nat (length ms) \<and> length ms \<le> length runs \<and>
    (\<forall>m \<in> set ms. \<exists>s \<in> snd ` set runs. telemetry_message (c_addr s) m)"
  using assms
proof (induction runs arbitrary: a ms)
  case (Cons r runs)
  obtain up s where r: "r = (up, s)" by (cases r)
  obtain a1 t where st: "telemetry_fn up a s = (a1, t)" by (cases "telemetry_fn up a s")
  obtain ms1 where rest: "telemetry_runs a1 runs = (ms1, b)" "ms = new_messages s t @ ms1"
    using Cons.prems(2) r st by (auto split: prod.splits)
  have IH: "map (\<lambda>m. rx_seq (m_payload m) (m_len m)) ms1 = map (\<lambda>k. ap_seq a1 + 1 + of_nat k) [0..<length ms1]"
    "ap_seq b = ap_seq a1 + of_nat (length ms1)" "length ms1 \<le> length runs"
    "\<forall>m \<in> set ms1. \<exists>s \<in> snd ` set runs. telemetry_message (c_addr s) m"
    using Cons.IH [OF _ rest(1)] Cons.prems(1) by simp_all
  have ok: "queue_ok s" using Cons.prems(1) r by simp
  from telemetry_step [OF ok st] show ?case
  proof (elim disjE exE conjE)
    fix m assume m: "new_messages s t = [m]" "telemetry_message (c_addr s) m"
      "rx_seq (m_payload m) (m_len m) = ap_seq a + 1" "ap_seq a1 = ap_seq a + 1"
    have "map (\<lambda>m. rx_seq (m_payload m) (m_len m)) ms =
        map (\<lambda>k. ap_seq a + 1 + of_nat k) (0 # map Suc [0..<length ms1])"
      using IH(1) m by (simp add: rest(2) algebra_simps)
    also have "0 # map Suc [0..<length ms1] = [0..<length ms]"
      using m(1) by (simp add: rest(2) map_Suc_upt upt_conv_Cons del: upt_Suc)
    finally show ?thesis using IH m by (auto simp: rest(2) r algebra_simps)
  next
    assume "new_messages s t = []" "ap_seq a1 = ap_seq a"
    then show ?thesis using IH by (auto simp: rest(2) r)
  qed
qed simp

text \<open>No route at first, then a parent that is linked.\<close>

definition demo_lonely :: ctx where "demo_lonely = demo_node\<lparr>c_started := True, c_addr := 5\<rparr>"

definition demo_attached :: ctx where
  "demo_attached = demo_lonely\<lparr>c_neigh := (neigh_fresh 9)\<lparr>n_state := LG_NS_LINKED, n_is_parent := True\<rparr> # replicate 7 neigh_zero\<rparr>"

definition demo_runs :: "(u32 \<times> ctx) list" where
  "demo_runs = [(5000, demo_lonely), (10000, demo_attached), (15000, demo_lonely), (20000, demo_attached)]"

theorem telemetry_without_gaps_witness:
  "map (\<lambda>m. rx_seq (m_payload m) (m_len m)) (fst (telemetry_runs app_zero demo_runs)) = [1, 2] \<and>
   ap_seq (snd (telemetry_runs app_zero demo_runs)) = 2"
proof -
  have "\<forall>(up, s) \<in> set demo_runs. queue_ok s"
    by (simp add: demo_runs_def queue_ok_def demo_attached_def demo_lonely_def demo_node_def node_zero_def txmsg_zero_def)
  note all = telemetry_without_gaps [OF this prod.collapse [symmetric], of app_zero]
  have "length (fst (telemetry_runs app_zero demo_runs)) = 2" by code_simp
  moreover have "ap_seq app_zero = 0" by (simp add: app_zero_def)
  ultimately show ?thesis using all by (simp add: upt_rec)
qed

section \<open>The node it starts\<close>

lemma jitter_views: "jitter n s = (j, t) \<Longrightarrow> role_view t = role_view s"
  using jitter_view [of n s] by simp

lemma role_view_updates [simp]:
  "role_view (s\<lparr>c_next_scan_us := v1\<rparr>) = role_view s" "role_view (s\<lparr>c_next_beacon_us := v2\<rparr>) = role_view s"
  "role_view (s\<lparr>c_beacon_planned_us := v3\<rparr>) = role_view s" "role_view (s\<lparr>c_beacons_heard := v4\<rparr>) = role_view s"
  "role_view (s\<lparr>c_beacon_copy := v5\<rparr>) = role_view s" "role_view (s\<lparr>c_beacon_epoch := v6\<rparr>) = role_view s"
  "role_view (s\<lparr>c_beacon_offers_join := v7\<rparr>) = role_view s" "role_view (s\<lparr>c_scan_chan_idx := v8\<rparr>) = role_view s"
  "role_view (s\<lparr>c_join_win_us := v9\<rparr>) = role_view s" "role_view (s\<lparr>c_last_join_window_us := v10\<rparr>) = role_view s"
  "role_view (s\<lparr>c_link_change_us := v11\<rparr>) = role_view s" "role_view (s\<lparr>c_beacon_copy_idx := v12\<rparr>) = role_view s"
  by (simp_all add: role_view_def)

lemma disc_init_view [simp]: "role_view (lg_disc_init s) = role_view s"
  by (auto simp: lg_disc_init_def Let_def split: prod.splits dest!: jitter_views)

lemma stage_copy_view [simp]: "role_view (beacon_stage_copy b s i) = role_view s"
  by (simp add: beacon_stage_copy_def Let_def split: prod.splits sum.splits)

lemma stage_copies_view [simp]: "role_view (foldl (beacon_stage_copy b) s ks) = role_view s"
  by (induction ks arbitrary: s) simp_all

lemma beacon_finish_view [simp]: "role_view (lg_disc_beacon_finish s) = role_view s"
  by (auto simp: lg_disc_beacon_finish_def beacon_stage_def Let_def split: prod.splits dest!: jitter_views)

lemma cert_verify_cong:
  assumes "c_cr t = c_cr s" "c_ca_pub t = c_ca_pub s"
  shows "lg_sec_cert_verify t = lg_sec_cert_verify s"
proof -
  have "lg_sec_verify t = lg_sec_verify s" using assms by (intro ext) (simp add: lg_sec_verify_def)
  moreover have "lg_sec_hash t = lg_sec_hash s" using assms by (intro ext) (simp add: lg_sec_hash_def)
  ultimately show ?thesis using assms by (intro ext) (simp only: lg_sec_cert_verify_def)
qed

lemma sim_member_cong:
  assumes "sim_member cr ca nid addr role s" "c_cr t = c_cr s" "c_ca_pub t = c_ca_pub s" "c_cert t = c_cert s"
    "c_priv_key t = c_priv_key s" "c_addr t = c_addr s" "c_network_id t = c_network_id s" "c_net_key t = c_net_key s"
  shows "sim_member cr ca nid addr role t"
proof -
  have "lg_sec_sign t = lg_sec_sign s" using assms by (intro ext) (simp only: lg_sec_sign_def)
  moreover have "own_cert t = own_cert s" using assms by (simp only: own_cert_def)
  ultimately show ?thesis using assms cert_verify_cong [OF assms(2,3)] unfolding sim_member_def by simp
qed

lemma jitter_addr: "jitter n s = (j, t) \<Longrightarrow> c_addr t = c_addr s"
  by (auto simp: jitter_def sys_rand32_get_def Let_def split: if_splits)

lemma small_addr [simp]:
  "c_addr (lg_notify e p s) = c_addr s" "c_addr (lg_sched_kick s) = c_addr s" "c_addr (upd_stats f s) = c_addr s"
  by (simp_all add: lg_notify_def lg_sched_kick_def upd_stats_def)

lemma disc_addr [simp]:
  "c_addr (lg_disc_init s) = c_addr s" "c_addr (lg_disc_retune s) = c_addr s" "c_addr (beacon_stage_copy b s i) = c_addr s"
  by (auto simp: lg_disc_init_def lg_disc_retune_def beacon_stage_copy_def Let_def split: prod.splits sum.splits dest!: jitter_addr)

lemma stage_copies_addr [simp]: "c_addr (foldl (beacon_stage_copy b) s ks) = c_addr s"
  by (induction ks arbitrary: s) simp_all

lemma beacon_finish_addr [simp]: "c_addr (lg_disc_beacon_finish s) = c_addr s"
  by (auto simp: lg_disc_beacon_finish_def beacon_stage_def Let_def split: prod.splits dest!: jitter_addr)

lemma marks_addr [simp]: "c_addr (foldl mark_parent s es) = c_addr s"
  by (induction es arbitrary: s) (auto simp: mark_parent_def upd_neigh_def split: option.splits prod.splits)

lemma recompute_addr [simp]: "c_addr (snd (lg_route_recompute s)) = c_addr s"
  using marks_addr [of "clear_parents s" "best_hysteresis s (lg_parent s) (best_loop s)"]
  by (simp add: lg_route_recompute_def Let_def clear_parents_def)

lemma evaluate_addr [simp]: "c_addr (lg_role_evaluate s) = c_addr s"
  by (rule evaluate_rule [where P = "\<lambda>t. c_addr t = c_addr s"]) (simp_all add: role_apply_def Let_def)

lemma start_role:
  assumes "fst (lg_start phy gc fc s) = Inr ()"
  shows "c_started (snd (lg_start phy gc fc s)) \<and>
    (c_role (snd (lg_start phy gc fc s)) = LG_ROLE_BACKHAUL \<longleftrightarrow> c_backhaul_active s) \<and> c_addr (snd (lg_start phy gc fc s)) = c_addr s"
proof -
  let ?s1 = "lg_join_init (lg_route_init (lg_role_init (lg_chan_init (lg_power_init (lg_tuning_init (start_tables s))))))"
  have role: "c_backhaul_active (lg_role_init u) = c_backhaul_active u \<and> c_addr (lg_role_init u) = c_addr u" for u
    by (simp add: lg_role_init_def Let_def)
  have b: "c_backhaul_active ?s1 = c_backhaul_active s \<and> c_addr ?s1 = c_addr s"
    by (simp add: lg_join_init_def lg_route_init_def role lg_chan_init_def lg_power_init_def upd_pw_def
      lg_tuning_init_def start_tables_def Let_def)
  obtain r s2 where init: "lg_sched_init phy gc fc ?s1 = (r, s2)" by (cases "lg_sched_init phy gc fc ?s1")
  then have s2: "c_backhaul_active s2 = c_backhaul_active s" "c_addr s2 = c_addr s"
    using b by (auto simp: lg_sched_init_def lg_ts_init_def upd_ts_def set_ev_none_def split: option.splits if_splits prod.splits sum.splits)
  define e where "e = lg_role_evaluate (lg_disc_init (s2\<lparr>c_started := True\<rparr>))"
  have view: "role_view (lg_disc_init (s2\<lparr>c_started := True\<rparr>)) = role_view (s2\<lparr>c_started := True\<rparr>)" by simp
  then have "c_started (lg_disc_init (s2\<lparr>c_started := True\<rparr>))"
    "c_backhaul_active (lg_disc_init (s2\<lparr>c_started := True\<rparr>)) = c_backhaul_active s"
    using s2 unfolding role_view_def by simp_all
  from evaluate_view(1,2) [OF this(1)] this view have e: "c_started e" "c_role e = LG_ROLE_BACKHAUL \<longleftrightarrow> c_backhaul_active s"
    by (auto simp: e_def role_view_def)
  have "snd (lg_start phy gc fc s) = lg_sched_kick (lg_disc_beacon_finish e)"
    using assms init by (auto simp: lg_start_def e_def Let_def split: if_splits sum.splits)
  moreover have "role_view (lg_sched_kick (lg_disc_beacon_finish e)) = role_view e" by simp
  moreover have "c_addr e = c_addr s" by (simp add: e_def s2)
  ultimately show ?thesis using e by (simp add: role_view_def)
qed

text \<open>C38: the sample brings its node up as its arguments say. With an address that is not reserved, on a node not yet
  started, it returns success; the node runs under that address, is the backhaul exactly when the role asks for
  it, and sends telemetry unless it is the backhaul or the period is zero. An address given as zero, or not given
  to the simulator, is replaced, so only what the low sixteen bits make of it can be refused.\<close>

theorem sample_starts_node:
  fixes a0 :: app and bsim :: "u32 option"
  defines "a \<equiv> main_args bsim a0"
  assumes "sim_psa_works psa (c_cr s) ca" "sim_bufs_ok b" "\<not> c_started s" "\<not> c_backhaul_active s"
    and addr: "ucast (ap_addr a) \<notin> {LG_ADDR_INVALID, LG_ADDR_BROADCAST, LG_ADDR_BACKHAUL}"
  shows "\<exists>a' b' t. app_main bsim psa None True True a0 b s = (Inr (), a', b', t) \<and> c_started t \<and>
    (lg_role t = LG_ROLE_BACKHAUL \<longleftrightarrow> 2 \<le> ap_role a) \<and>
    (ap_telemetry a' = Some (ap_period_ms a) \<longleftrightarrow> ap_telemetry a = Some (ap_period_ms a) \<or> ap_period_ms a \<noteq> 0 \<and> ap_role a < 2) \<and>
    lg_local_addr t = ucast (ap_addr a) \<and> ap_addr a \<noteq> 0"
proof -
  obtain b1 s1 where prov: "lg_provision_sim psa LOCKGRID_NETWORK_ID (ucast (ap_addr a)) (ucast (ap_role a)) b s = (Inr (), b1, s1)"
    and mem: "sim_member (c_cr s) ca LOCKGRID_NETWORK_ID (ucast (ap_addr a)) (ucast (ap_role a)) s1"
    and s1: "\<not> c_started s1" "\<not> c_backhaul_active s1"
    using sim_provision_run [OF assms(2-4), of "ucast (ap_addr a)" LOCKGRID_NETWORK_ID "ucast (ap_role a)"] addr assms(5) by auto
  define s3 where "s3 = (let s2 = lg_callbacks_register (Some (True, True)) s1 in if 2 \<le> ap_role a then lg_backhaul_set True s2 else s2)"
  have s3: "c_backhaul_active s3 \<longleftrightarrow> 2 \<le> ap_role a" "\<not> c_started s3" "c_addr s3 = ucast (ap_addr a)"
    using s1 mem by (auto simp: s3_def Let_def lg_callbacks_register_def lg_backhaul_set_def sim_member_def)
  have "sim_member (c_cr s) ca LOCKGRID_NETWORK_ID (ucast (ap_addr a)) (ucast (ap_role a)) s3"
    by (rule sim_member_cong [OF mem]) (use s1 in \<open>simp_all add: s3_def Let_def lg_callbacks_register_def lg_backhaul_set_def\<close>)
  then have ok: "fst (lg_start None True True s3) = Inr ()" using s3 addr
    by (auto simp: sim_member_def lg_start_def lg_sched_init_def lg_ts_init_def Let_def)
  define t where "t = snd (lg_start None True True s3)"
  have t: "c_started t" "c_role t = LG_ROLE_BACKHAUL \<longleftrightarrow> 2 \<le> ap_role a" "c_addr t = ucast (ap_addr a)"
    using start_role [OF ok] s3 by (simp_all add: t_def)
  have run: "lg_start None True True s3 = (Inr (), t)" using ok by (simp add: t_def prod_eq_iff)
  have "app_main bsim psa None True True a0 b s = (Inr (), main_work t a, b1, t)"
    using prov run by (simp add: app_main_def a_def [symmetric] Let_def s3_def)
  moreover have "ap_addr a \<noteq> 0" by (simp add: a_def main_args_def Let_def split: option.split)
  ultimately show ?thesis using t
    by (auto simp: main_work_def lg_role_def lg_local_addr_def Let_def)
qed

text \<open>Device 4 of a simulation, no address given, asked to be the backhaul.\<close>

definition demo_args :: app where
  "demo_args = app_zero\<lparr>ap_addr := LG_ARG_UNSET, ap_role := 2, ap_period_ms := LG_ARG_UNSET\<rparr>"

theorem sample_starts_node_witness:
  "\<exists>a' b' t. app_main (Some 4) demo_psa None True True demo_args sim_bufs_zero demo_node = (Inr (), a', b', t) \<and>
    c_started t \<and> lg_role t = LG_ROLE_BACKHAUL \<and> lg_local_addr t = 5 \<and> ap_telemetry a' \<noteq> Some 5000"
proof -
  have args: "ap_addr (main_args (Some 4) demo_args) = 5" "ap_role (main_args (Some 4) demo_args) = 2"
    "ap_period_ms (main_args (Some 4) demo_args) = 5000" "ap_telemetry (main_args (Some 4) demo_args) = None" by code_simp+
  have "sim_psa_works demo_psa (c_cr demo_node) (replicate 64 0x4C)" "sim_bufs_ok sim_bufs_zero"
    "\<not> c_started demo_node" "\<not> c_backhaul_active demo_node"
    using demo_psa_works by (simp_all add: sim_bufs_ok_def sim_bufs_zero_def demo_node_def node_zero_def)
  moreover have "ucast (5::u32) \<notin> {LG_ADDR_INVALID, LG_ADDR_BROADCAST, LG_ADDR_BACKHAUL}" "ucast (5::u32) = (5::u16)"
    by (simp_all add: addr_defs)
  ultimately show ?thesis using sample_starts_node [of demo_psa demo_node "replicate 64 0x4C" sim_bufs_zero "Some 4" demo_args]
    unfolding args by fastforce
qed

end
