(* ===== verification/LG_Deliver.thy ===== *)
theory LG_Deliver
  imports LG_Core
begin

text \<open>
  A message on its way over one link, both ends together: the queue, the staging and the protection of the
  frame at the sender; the ring, the dispatch, the opening and the duplicate test at the receiver.
\<close>

section \<open>Choosing a message leaves the rest of the node alone\<close>

lemma find_idx_cong:
  assumes "length xs = length ys" "\<And>k. k < length xs \<Longrightarrow> P (xs ! k) = P (ys ! k)"
  shows "find_idx P xs = find_idx P ys"
proof (cases "find_idx P xs")
  case None
  with assms show ?thesis by (metis find_idx_None_iff in_set_conv_nth)
next
  case (Some k)
  then have "find_idx P ys = Some k" using assms by (auto simp: find_idx_eq_Some_iff)
  with Some show ?thesis by simp
qed

text \<open>A change of an entry that routing does not see.\<close>

definition unrouted :: "(neigh \<Rightarrow> neigh) \<Rightarrow> bool" where
  "unrouted f \<longleftrightarrow> (\<forall>n. n_state (f n) = n_state n \<and> n_addr (f n) = n_addr n \<and> n_is_parent (f n) = n_is_parent n)"

lemma unrouted_nb:
  assumes "unrouted f"
  shows "n_state (nb (upd_neigh i f s) j) = n_state (nb s j)" "n_addr (nb (upd_neigh i f s) j) = n_addr (nb s j)"
    "n_is_parent (nb (upd_neigh i f s) j) = n_is_parent (nb s j)"
  using assms by (simp_all add: unrouted_def nb_upd_any)

lemma unrouted_reads:
  assumes "unrouted f"
  shows "lg_parent (upd_neigh i f s) = lg_parent s" "linked_addr a (upd_neigh i f s) = linked_addr a s"
proof -
  note v = unrouted_nb [OF assms, of i s]
  have "find_idx P (c_neigh (upd_neigh i f s)) = find_idx P (c_neigh s)"
    if "\<And>k. P (nb (upd_neigh i f s) k) = P (nb s k)" for P
    by (rule find_idx_cong) (simp_all add: that)
  note find = this
  have "find_idx (\<lambda>n. n_is_parent n \<and> n_state n = LG_NS_LINKED) (c_neigh (upd_neigh i f s)) =
      find_idx (\<lambda>n. n_is_parent n \<and> n_state n = LG_NS_LINKED) (c_neigh s)" by (rule find) (simp add: v)
  then show "lg_parent (upd_neigh i f s) = lg_parent s" by (simp add: lg_parent_def v split: option.split)
  have "find_idx (\<lambda>n. n_state n \<noteq> LG_NS_FREE \<and> n_addr n = a) (c_neigh (upd_neigh i f s)) =
      find_idx (\<lambda>n. n_state n \<noteq> LG_NS_FREE \<and> n_addr n = a) (c_neigh s)" by (rule find) (simp add: v)
  then show "linked_addr a (upd_neigh i f s) = linked_addr a s"
    by (simp add: linked_addr_def lg_neigh_find_def v split: option.split)
qed

lemma upd_neigh_routes: "upd_neigh i f (s\<lparr>c_routes := rs\<rparr>) = (upd_neigh i f s)\<lparr>c_routes := rs\<rparr>"
  by (simp add: upd_neigh_def)

lemma unrouted_hop:
  assumes "unrouted f"
  shows "msg_next_hop m (upd_neigh i f s) = apsnd (upd_neigh i f) (msg_next_hop m s)"
proof -
  have same: "route_find d (upd_neigh i f s) = route_find d s" "c_routes (upd_neigh i f s) = c_routes s"
    "c_now (upd_neigh i f s) = c_now s" for d
    by (simp_all add: route_find_def upd_neigh_def)
  show ?thesis
    by (simp add: msg_next_hop_def lg_route_next_hop_def unrouted_reads [OF assms] same Let_def upd_neigh_routes split: option.split)
qed

lemma unrouted_peek_step:
  assumes "unrouted f"
  shows "peek_step p (r, upd_neigh i f s) k = apsnd (upd_neigh i f) (peek_step p (r, s) k)"
proof -
  have q: "c_txq (upd_neigh i f s) = c_txq s" by simp
  obtain h u where "msg_next_hop (c_txq s ! k) s = (h, u)" by fastforce
  moreover from this have "c_txq u = c_txq s" using msg_hop_queue [of "c_txq s ! k" s] by simp
  ultimately show ?thesis
    by (simp add: peek_step_def Let_def unrouted_hop [OF assms] q split: option.split)
qed

lemma unrouted_peek:
  assumes "unrouted f"
  shows "lg_txq_peek p (upd_neigh i f s) = apsnd (upd_neigh i f) (lg_txq_peek p s)"
proof -
  have "foldl (peek_step p) (apsnd (upd_neigh i f) acc) ks = apsnd (upd_neigh i f) (foldl (peek_step p) acc ks)" for acc ks
  proof (induction ks arbitrary: acc)
    case (Cons k ks)
    obtain r u where acc: "acc = (r, u)" by (cases acc)
    show ?case using Cons.IH [of "peek_step p acc k"] by (simp add: acc unrouted_peek_step [OF assms])
  qed simp
  from this [of "(None, s)"] show ?thesis by (simp add: lg_txq_peek_def)
qed

text \<open>Choosing only touches the route table.\<close>

definition routes_only :: "ctx \<Rightarrow> ctx \<Rightarrow> bool" where
  "routes_only s t \<longleftrightarrow> (\<exists>rs. t = s\<lparr>c_routes := rs\<rparr>)"

lemma routes_only_refl [simp]: "routes_only s s"
  unfolding routes_only_def by (rule exI [of _ "c_routes s"]) simp

lemma routes_only_hop: "routes_only s t \<Longrightarrow> routes_only s (snd (msg_next_hop m t))"
  by (auto simp: routes_only_def msg_next_hop_def lg_route_next_hop_def Let_def split: option.split)

lemma routes_only_peek: "routes_only s (snd (lg_txq_peek p s))"
proof -
  have "routes_only s (snd acc) \<Longrightarrow> routes_only s (snd (foldl (peek_step p) acc ks))" for acc ks
  proof (induction ks arbitrary: acc)
    case (Cons k ks)
    obtain r u where acc: "acc = (r, u)" by (cases acc)
    obtain h v where hv: "msg_next_hop (c_txq u ! k) u = (h, v)" by fastforce
    then have "routes_only s v" using routes_only_hop [of s u "c_txq u ! k"] Cons.prems acc by simp
    then have "routes_only s (snd (peek_step p acc k))" using Cons.prems hv by (simp add: acc peek_step_def Let_def)
    from Cons.IH [OF this] show ?case by simp
  qed simp
  then show ?thesis by (simp add: lg_txq_peek_def)
qed

lemma routes_only_same:
  assumes "routes_only s t"
  shows "c_neigh t = c_neigh s" "c_txq t = c_txq s" "c_addr t = c_addr s" "c_netid16 t = c_netid16 s"
    "c_cr t = c_cr s" "c_cfg t = c_cfg s"
  using assms by (auto simp: routes_only_def)

section \<open>The frame that is staged\<close>

text \<open>What a frame for neighbour \<open>y\<close> carries before it is protected.\<close>

definition carries :: "u8 list \<Rightarrow> u16 \<Rightarrow> u16 \<Rightarrow> u16 \<Rightarrow> txmsg \<Rightarrow> bool" where
  "carries pdu netid y x m \<longleftrightarrow> length pdu = LG_PDU_MAX \<and>
     (\<exists>fcf sq. take LG_HDR_LEN pdu = hdr_bytes netid fcf sq y x \<and> fcf \<in> {LG_FCF_SEC OR LG_FT_DATA, LG_FCF_SEC OR LG_FT_DATA OR LG_FCF_MD}) \<and>
     take (LG_DATA_HDR_SIZE + m_len m) (drop LG_HDR_LEN_SEC pdu) = data_hdr_bytes (msg_data_hdr m) @ take (m_len m) (m_payload m)"

lemma carries_put:
  assumes "length buf = LG_PDU_MAX" "m_len m \<le> LG_PAYLOAD_MAX" "length (m_payload m) = LG_PAYLOAD_MAX"
    and "lg_frame_hdr_put buf netid (LG_FCF_SEC OR LG_FT_DATA) sq y x = (pdu, h)"
    and "body = data_hdr_bytes (msg_data_hdr m) @ take (m_len m) (m_payload m)"
  shows "h = LG_HDR_LEN_SEC" "h + length body = LG_HDR_LEN_SEC + LG_DATA_HDR_SIZE + m_len m"
    "carries (blit pdu h body) netid y x m"
    "carries ((blit pdu h body)[LG_OFF_FCF := (blit pdu h body ! LG_OFF_FCF) OR LG_FCF_MD]) netid y x m"
proof -
  let ?fcf = "LG_FCF_SEC OR LG_FT_DATA"
  have sec: "has_flag ?fcf LG_FCF_SEC" by (simp add: fcf_defs ft_defs)
  then show h: "h = LG_HDR_LEN_SEC" using assms(4) hdr_put_len [of buf netid ?fcf sq y x] by simp
  have body: "length body = LG_DATA_HDR_SIZE + m_len m" using assms(2,3,5) by simp
  then show "h + length body = LG_HDR_LEN_SEC + LG_DATA_HDR_SIZE + m_len m" using h by simp
  have pdu: "pdu = hdr_bytes netid ?fcf sq y x @ drop LG_HDR_LEN buf"
    using hdr_put_eq [of buf netid ?fcf sq y x] assms(1,4) by simp
  have len: "length pdu = LG_PDU_MAX" using assms(1) by (simp add: pdu)
  have b: "length (blit pdu h body) = LG_PDU_MAX" "take LG_HDR_LEN (blit pdu h body) = hdr_bytes netid ?fcf sq y x"
    "take (LG_DATA_HDR_SIZE + m_len m) (drop LG_HDR_LEN_SEC (blit pdu h body)) = body"
    using len body h assms(2) slice_blit [of h pdu body] by (simp_all add: pdu)
  then show "carries (blit pdu h body) netid y x m" using assms(5) by (auto simp: carries_def)
  have fcf: "blit pdu h body ! LG_OFF_FCF = ?fcf"
    using len h by (simp add: nth_blit_before pdu hdr_fields(2) [OF refl])
  have "take LG_HDR_LEN ((blit pdu h body)[LG_OFF_FCF := ?fcf OR LG_FCF_MD]) = hdr_bytes netid (?fcf OR LG_FCF_MD) sq y x"
    by (simp add: take_update_swap b(2)) (simp add: hdr_bytes_def le16_bytes_def)
  then show "carries ((blit pdu h body)[LG_OFF_FCF := (blit pdu h body ! LG_OFF_FCF) OR LG_FCF_MD]) netid y x m"
    using b assms(5) unfolding carries_def fcf by (auto simp: or.assoc)
qed

lemma stage_put_carries:
  assumes "i < length (c_neigh s)" "length (n_txbuf (nb s i)) = LG_PDU_MAX"
    and "m_len m \<le> LG_PAYLOAD_MAX" "length (m_payload m) = LG_PAYLOAD_MAX"
    and "stage_put i LG_FT_DATA (data_hdr_bytes (msg_data_hdr m) @ take (m_len m) (m_payload m)) s = (len, u)"
  shows "len = LG_HDR_LEN_SEC + LG_DATA_HDR_SIZE + m_len m \<and> (\<exists>b sq. u = upd_neigh i (\<lambda>n. n\<lparr>n_txbuf := b, n_tx_seq := sq\<rparr>) s \<and>
    carries b (c_netid16 s) (n_addr (nb s i)) (c_addr s) m \<and>
    carries (b[LG_OFF_FCF := (b ! LG_OFF_FCF) OR LG_FCF_MD]) (c_netid16 s) (n_addr (nb s i)) (c_addr s) m)"
proof -
  obtain pdu h where put: "lg_frame_hdr_put (n_txbuf (nb s i)) (c_netid16 s) (LG_FCF_SEC OR LG_FT_DATA) (n_tx_seq (nb s i))
      (n_addr (nb s i)) (c_addr s) = (pdu, h)" by (rule prod.exhaust)
  note c = carries_put [OF assms(2-4) put refl]
  have "u = upd_neigh i (\<lambda>n. n\<lparr>n_txbuf := blit pdu h (data_hdr_bytes (msg_data_hdr m) @ take (m_len m) (m_payload m)),
      n_tx_seq := n_tx_seq (nb s i) + 1\<rparr>) s" "len = h + length (data_hdr_bytes (msg_data_hdr m) @ take (m_len m) (m_payload m))"
    using assms(1,5) put by (auto simp: stage_put_def upd_neigh_def Let_def)
  with c show ?thesis by blast
qed

lemma stage_message:
  assumes i: "i < length (c_neigh s)" "length (n_txbuf (nb s i)) = LG_PDU_MAX"
    and idle: "ctrl_body (nb s i) = []" "\<not> adv_due i s"
    and queued: "fst (lg_txq_peek (n_addr (nb s i)) s) = Some k" "m = c_txq s ! k"
      "m_len m \<le> LG_PAYLOAD_MAX" "length (m_payload m) = LG_PAYLOAD_MAX"
    and stage: "lg_link_stage_tx i s = (True, t)"
  obtains pdu u w where
    "lg_sec_encrypt i pdu LG_HDR_LEN_SEC (LG_HDR_LEN_SEC + LG_DATA_HDR_SIZE + m_len m) u = (Inr (n_txlen (nb t i)), n_txbuf (nb t i), w)"
    "carries pdu (c_netid16 s) (n_addr (nb s i)) (c_addr s) m"
    "c_cr u = c_cr s" "c_cfg u = c_cfg s" "c_addr u = c_addr s"
    "n_tx_ctr (nb u i) = n_tx_ctr (nb s i)" "n_key_id (nb u i) = n_key_id (nb s i)"
proof -
  let ?f = "\<lambda>n. n\<lparr>n_tx_was_ctrl := False\<rparr>" and ?y = "n_addr (nb s i)"
  let ?body = "data_hdr_bytes (msg_data_hdr m) @ take (m_len m) (m_payload m)"
  define s0 where "s0 = upd_neigh i ?f s"
  have s0: "c_txq s0 = c_txq s" "nb s0 i = ?f (nb s i)" "length (c_neigh s0) = length (c_neigh s)"
    using i by (simp_all add: s0_def nb_upd_same)
  have now: "c_now s0 = c_now s" "c_adv_urgent s0 = c_adv_urgent s" by (simp_all add: s0_def upd_neigh_def)
  have "unrouted ?f" by (simp add: unrouted_def)
  then obtain s1 where peek: "lg_txq_peek ?y s0 = (Some k, s1)"
    using queued(1) unrouted_peek [of ?f ?y i s] by (cases "lg_txq_peek ?y s") (simp add: s0_def)
  have ro1: "routes_only s0 s1" using routes_only_peek [of s0 ?y] peek by simp
  note s1 = routes_only_same [OF ro1]
  obtain len u1 where put: "stage_put i LG_FT_DATA ?body s1 = (len, u1)" by (rule prod.exhaust)
  have "i < length (c_neigh s1)" "length (n_txbuf (nb s1 i)) = LG_PDU_MAX" using i s0 s1 by simp_all
  from stage_put_carries [OF this queued(3,4) put] obtain b sq where len: "len = LG_HDR_LEN_SEC + LG_DATA_HDR_SIZE + m_len m"
    and u1: "u1 = upd_neigh i (\<lambda>n. n\<lparr>n_txbuf := b, n_tx_seq := sq\<rparr>) s1"
    and b: "carries b (c_netid16 s) ?y (c_addr s) m" "carries (b[LG_OFF_FCF := (b ! LG_OFF_FCF) OR LG_FCF_MD]) (c_netid16 s) ?y (c_addr s) m"
    using s0 s1 by (auto simp: s0_def upd_neigh_def)
  define u2 where "u2 = upd_neigh i (\<lambda>n. n\<lparr>n_tx_needs_ack := True\<rparr>) u1"
  obtain md u3 where pend: "lg_txq_pending (n_addr (nb u2 i)) u2 = (md, u3)" by (rule prod.exhaust)
  have ro3: "routes_only u2 u3" using pend routes_only_peek [of u2 "n_addr (nb u2 i)"]
    by (auto simp: lg_txq_pending_def split: prod.splits)
  note u3 = routes_only_same [OF ro3]
  have "\<not> adv_due i s0" using idle(2) s0 now by (simp add: adv_due_def)
  moreover have "stage_data i s0 = (len, md, u3)"
    using peek put pend queued(2) s0 s1 by (simp add: stage_data_def u2_def Let_def)
  ultimately have frame: "stage_frame i s = (len, md, u3)"
    using idle(1) by (simp add: stage_frame_def s0_def [symmetric])
  define u where "u = (if md then upd_neigh i (\<lambda>n. n\<lparr>n_txbuf := (n_txbuf n)[LG_OFF_FCF := (n_txbuf n ! LG_OFF_FCF) OR LG_FCF_MD]\<rparr>) u3 else u3)"
  have in3: "i < length (c_neigh u3)" "nb u3 i = (nb s i)\<lparr>n_tx_was_ctrl := False, n_txbuf := b, n_tx_seq := sq, n_tx_needs_ack := True\<rparr>"
    using i s0 s1 u3 by (simp_all add: u2_def u1 nb_upd_same)
  have env: "c_cr u = c_cr s" "c_cfg u = c_cfg s" "c_addr u = c_addr s" "n_tx_ctr (nb u i) = n_tx_ctr (nb s i)"
    "n_key_id (nb u i) = n_key_id (nb s i)" "i < length (c_neigh u)" "carries (n_txbuf (nb u i)) (c_netid16 s) ?y (c_addr s) m"
    using s1 u3 in3 b by (simp_all add: u_def u2_def u1 s0_def upd_neigh_def)
  obtain r p w where enc: "lg_sec_encrypt i (n_txbuf (nb u i)) LG_HDR_LEN_SEC len u = (r, p, w)" by (metis prod.exhaust)
  have w: "length (c_neigh w) = length (c_neigh u)" by (rule encrypt_effect(2) [OF enc env(6)])
  have "r = Inr (n_txlen (nb t i)) \<and> p = n_txbuf (nb t i)"
    using stage frame enc env(6) w
    by (cases r) (auto simp: lg_link_stage_tx_def u_def [symmetric] Let_def nb_upd_same split: if_splits)
  then show thesis using that enc env len by blast
qed

section \<open>The frame that arrives\<close>

definition over_air :: "nat \<Rightarrow> ctx \<Rightarrow> u8 list" where
  "over_air i t = take (n_txlen (nb t i)) (n_txbuf (nb t i))"

text \<open>The radio interrupt posts the frame, the work queue takes it out.\<close>

definition receive :: "u8 list \<Rightarrow> int \<Rightarrow> u8 \<Rightarrow> u64 \<Rightarrow> ctx \<Rightarrow> ctx option" where
  "receive frame rssi chan air r = rx_handler (lg_rx_post frame (length frame) rssi chan air r)"

lemma same_prefix_get:
  assumes "take n p = take n q" "off + 2 \<le> n" "n \<le> length p" "length q = length p"
  shows "lg_get_le16 p off = lg_get_le16 q off" "off + 4 \<le> n \<Longrightarrow> lg_get_le32 p off = lg_get_le32 q off"
proof -
  have nth: "p ! k = q ! k" if "k < n" for k using assms(1) that by (metis nth_take)
  then show "lg_get_le16 p off = lg_get_le16 q off" "off + 4 \<le> n \<Longrightarrow> lg_get_le32 p off = lg_get_le32 q off"
    using assms(2) by (simp_all add: lg_get_le16_def lg_get_le32_def)
qed

lemma decrypt_prefix:
  assumes "lg_sec_decrypt j p len r = (Inr n, p', r1)" "take len p = take len q" "LG_HDR_LEN_SEC \<le> len" "len \<le> length p" "length q = length p"
  shows "\<exists>q'. lg_sec_decrypt j q len r = (Inr n, q', r1) \<and> take n q' = take n p' \<and> LG_HDR_LEN_SEC \<le> n"
proof -
  have hdr: "take LG_HDR_LEN_SEC q = take LG_HDR_LEN_SEC p" using assms(2,3) by (metis min.absorb1 take_take)
  have body: "take (len - LG_HDR_LEN_SEC) (drop LG_HDR_LEN_SEC q) = take (len - LG_HDR_LEN_SEC) (drop LG_HDR_LEN_SEC p)"
    using assms(2) by (simp add: take_drop assms(3))
  have get: "lg_get_le32 q LG_OFF_FCTR = lg_get_le32 p LG_OFF_FCTR" "lg_get_le16 q LG_OFF_SRC = lg_get_le16 p LG_OFF_SRC"
    using same_prefix_get [OF assms(2), of LG_OFF_FCTR] same_prefix_get [OF assms(2), of LG_OFF_SRC] assms(3-5) by simp_all
  show ?thesis using assms(1,3-5) hdr unfolding lg_sec_decrypt_def get body
    by (auto simp: Let_def take_end_blit body split: if_splits option.splits prod.splits bool.splits)
qed

lemma decrypt_keeps:
  assumes "lg_sec_decrypt j p len r = (Inr n, p', r1)"
  shows "r1 = r\<lparr>c_neigh := c_neigh r1\<rparr>" "n_addr (nb r1 k) = n_addr (nb r k)"
proof -
  from assms obtain ctr where ok: "replay_check j ctr r = (True, r1)"
    by (auto simp: lg_sec_decrypt_def Let_def split: if_splits option.splits prod.splits bool.splits)
  from ok show "r1 = r\<lparr>c_neigh := c_neigh r1\<rparr>"
    by (auto simp: replay_check_def Let_def upd_neigh_def split: if_splits)
  from ok show "n_addr (nb r1 k) = n_addr (nb r k)"
    by (auto simp: replay_check_def Let_def nb_upd_any split: if_splits)
qed

text \<open>Header and body of a protected frame, before and after it is opened.\<close>

lemma encrypt_header:
  assumes "lg_sec_encrypt i pdu LG_HDR_LEN_SEC len s = (Inr clen, pdu', s')" "length pdu = LG_PDU_MAX"
  shows "take LG_HDR_LEN pdu' = take LG_HDR_LEN pdu" "LG_HDR_LEN_SEC \<le> clen"
  using assms by (auto simp: lg_sec_encrypt_def Let_def lg_put_le32_def split: if_splits option.splits)

lemma expedite_app [simp]: "c_app (lg_sched_expedite i s) = c_app s" "c_dup_cache (lg_sched_expedite i s) = c_dup_cache s"
  by (simp_all add: lg_sched_expedite_def Let_def lg_sched_kick_def upd_neigh_def)

text \<open>Whether a message ends its way at this node.\<close>

definition ends_at :: "ctx \<Rightarrow> txmsg \<Rightarrow> bool" where
  "ends_at r m \<longleftrightarrow> m_final m = c_addr r \<or> has_flag (m_flags m) LG_DATA_F_UPWARD \<and> c_role r = LG_ROLE_BACKHAUL \<and> \<not> has_flag (m_flags m) LG_DATA_F_BROADCAST"

definition delivered :: "ctx \<Rightarrow> u16 \<Rightarrow> int \<Rightarrow> txmsg \<Rightarrow> app_call list" where
  "delivered r hop rssi m =
    (if (m_origin m, m_msg_id m) \<in> set (c_dup_cache r) \<or> \<not> c_cb_rx r then []
     else [AppRx \<lparr>ri_src = m_origin m, ri_prev_hop = hop, ri_port = m_port m, ri_rssi = rssi, ri_hops = m_hops m\<rparr>
             (take (m_len m) (m_payload m))])"

lemma data_delivered:
  fixes rssi :: int and j :: nat
  assumes "take (LG_DATA_HDR_SIZE + m_len m) body = data_hdr_bytes (msg_data_hdr m) @ take (m_len m) (m_payload m)"
    and "m_len m \<le> LG_PAYLOAD_MAX" "ends_at r m" "c_dup_next r < length (c_dup_cache r)"
  defines "t \<equiv> handle_data j body (LG_DATA_HDR_SIZE + m_len m) rssi r"
  shows "c_app t = c_app r @ delivered r (n_addr (nb r j)) rssi m" "(m_origin m, m_msg_id m) \<in> set (c_dup_cache t)" "c_txq t = c_txq r"
proof -
  have body: "body = data_hdr_bytes (msg_data_hdr m) @ take (m_len m) (m_payload m) @ drop (LG_DATA_HDR_SIZE + m_len m) body"
    using assms(1) by (metis append.assoc append_take_drop_id)
  have dh: "data_hdr_of_bytes body = msg_data_hdr m" by (subst body) (rule data_hdr_roundtrip)
  have pay: "take (m_len m) (drop LG_DATA_HDR_SIZE body) = take (m_len m) (m_payload m)"
    using arg_cong [OF assms(1), of "drop LG_DATA_HDR_SIZE"] by (simp add: drop_take)
  have "data_for_us r (msg_data_hdr m) \<and> (\<not> has_flag (m_flags m) LG_DATA_F_BROADCAST \<or> m_final m = c_addr r)"
    using assms(3) by (auto simp: data_for_us_def ends_at_def msg_data_hdr_def)
  then show "c_app t = c_app r @ delivered r (n_addr (nb r j)) rssi m" "(m_origin m, m_msg_id m) \<in> set (c_dup_cache t)" "c_txq t = c_txq r"
    using assms(2,4) unfolding t_def
    by (auto simp: handle_data_def dh pay Let_def delivered_def lg_route_is_duplicate_def msg_data_hdr_def data_for_us_def
      intro!: set_update_memI)
qed

lemma frame_dispatched:
  assumes q: "take LG_HDR_LEN (rx_pdu rec) = hdr_bytes (c_netid16 r) fcf sq (c_addr r) src"
    and fcf: "fcf \<in> {LG_FCF_SEC OR LG_FT_DATA, LG_FCF_SEC OR LG_FT_DATA OR LG_FCF_MD}"
    and link: "src \<noteq> c_addr r" "lg_neigh_find src r = Some j" "n_state (nb r j) = LG_NS_LINKED"
    and opened: "lg_sec_decrypt j (rx_pdu rec) (rx_len rec) r = (Inr (LG_HDR_LEN_SEC + LG_DATA_HDR_SIZE + m_len m), p, r1)"
    and body: "take (LG_DATA_HDR_SIZE + m_len m) (drop LG_HDR_LEN_SEC p) = data_hdr_bytes (msg_data_hdr m) @ take (m_len m) (m_payload m)"
    and m: "m_len m \<le> LG_PAYLOAD_MAX" "ends_at r m" "c_dup_next r < length (c_dup_cache r)"
  shows "\<exists>t. dispatch rec r = Some t \<and> c_app t = c_app r @ delivered r src (rx_rssi rec) m \<and> (m_origin m, m_msg_id m) \<in> set (c_dup_cache t) \<and> c_txq t = c_txq r"
proof -
  have "rx_pdu rec = hdr_bytes (c_netid16 r) fcf sq (c_addr r) src @ drop LG_HDR_LEN (rx_pdu rec)" using q by (metis append_take_drop_id)
  note h = hdr_fields [OF this]
  have ty: "fcf AND LG_FCF_TYPE_MASK = LG_FT_DATA" "has_flag fcf LG_FCF_SEC" "LG_FT_DATA \<noteq> LG_FT_BEACON" "\<not> is_join_type LG_FT_DATA"
    using fcf by (auto simp: fcf_defs ft_defs is_join_type_def)
  have "LG_HDR_LEN_SEC + cfg_mic_len (c_cfg r) \<le> rx_len rec"
    using opened by (auto simp: lg_sec_decrypt_def Let_def split: if_splits)
  then have hdr: "lg_frame_hdr_get (cfg_mic_len (c_cfg r)) (rx_pdu rec) (rx_len rec) (c_netid16 r) = Some (fcf, sq, c_addr r, src)"
    using ty(2) by (simp add: lg_frame_hdr_get_def h Let_def)
  define u where "u = handle_data j (drop LG_HDR_LEN_SEC p) (LG_DATA_HDR_SIZE + m_len m) (rx_rssi rec) r1"
  define t where "t = (if has_flag fcf LG_FCF_MD then lg_sched_expedite j u else u)"
  have "dispatch rec r = Some t"
    using hdr ty link opened
    by (simp add: dispatch_def dispatch_secured_def lg_link_rx_frame_def Let_def u_def t_def)
  moreover have r1: "r1 = r\<lparr>c_neigh := c_neigh r1\<rparr>" "n_addr (nb r1 j) = src"
    using decrypt_keeps [OF opened] neigh_find_SomeD [OF link(2)] by simp_all
  have keep: "c_app r1 = c_app r" "c_txq r1 = c_txq r" "delivered r1 = delivered r" "ends_at r1 m" "c_dup_next r1 < length (c_dup_cache r1)"
    using m(2,3) by (subst r1(1), simp add: delivered_def ends_at_def fun_eq_iff)+
  have "c_app u = c_app r @ delivered r src (rx_rssi rec) m" "(m_origin m, m_msg_id m) \<in> set (c_dup_cache u)" "c_txq u = c_txq r"
    using data_delivered [OF body m(1) keep(4,5), of j "rx_rssi rec"] r1(2) keep unfolding u_def by simp_all
  ultimately show ?thesis by (auto simp: t_def)
qed

text \<open>One frame in an empty ring is handled, and the ring is empty again.\<close>

lemma receive_one:
  assumes "rx_ring_ok r" "rg_tail (c_rx_ring r) = rg_head (c_rx_ring r)" "length frame \<le> LG_PDU_MAX"
  obtains rec ring where "length (rx_pdu rec) = LG_PDU_MAX" "take (length frame) (rx_pdu rec) = frame"
    "rx_len rec = length frame" "rx_rssi rec = rssi"
    "receive frame rssi chan air r = map_option (\<lambda>t. t\<lparr>c_rx_ring := ring_drop (c_rx_ring t)\<rparr>) 
       (dispatch rec (r\<lparr>c_rx_ring := ring, c_work_rx := False\<rparr>))"
proof -
  let ?g = "\<lambda>rec. rec\<lparr>rx_pdu := blit (rx_pdu rec) 0 frame, rx_len := length frame, rx_rssi := rssi, rx_chan := chan, rx_air_start_us := air\<rparr>"
  let ?k = "ring_slot (rg_head (c_rx_ring r))"
  define rec0 where "rec0 = rg_buf (c_rx_ring r) ! ?k"
  define ring where "ring = ring_put ?g (c_rx_ring r)"
  have room: "\<not> ring_full (c_rx_ring r)" "ring_used (c_rx_ring r) = 0" using assms(2) by (simp_all add: ring_full_def ring_used_def)
  have k: "?k < length (rg_buf (c_rx_ring r))" using assms(1) by (simp add: rx_ring_ok_def ring_ok_def)
  then have len: "length (rx_pdu rec0) = LG_PDU_MAX" using assms(1) by (simp add: rx_ring_ok_def rec0_def)
  have post: "lg_rx_post frame (length frame) rssi chan air r = r\<lparr>c_rx_ring := ring, c_work_rx := True\<rparr>"
    using room(1) assms(3) by (simp add: lg_rx_post_def ring_def)
  have used: "ring_used ring = 1" "rg_tail ring \<noteq> rg_head ring" "ring_peek ring = ?g rec0"
    using room(2) k assms(2) by (simp_all add: ring_used_def ring_def ring_put_def Let_def ring_peek_def rec0_def)
  define r0 where "r0 = r\<lparr>c_rx_ring := ring, c_work_rx := False\<rparr>"
  have "receive frame rssi chan air r = map_option (\<lambda>t. t\<lparr>c_rx_ring := ring_drop (c_rx_ring t)\<rparr>) (dispatch (?g rec0) r0)"
    using used by (simp add: receive_def post rx_handler_def r0_def numeral_eq_Suc split: option.split)
  then show thesis using len assms(3) by (intro that [of "?g rec0" ring]) (simp_all add: r0_def blit_def)
qed

section \<open>One hop\<close>

text \<open>C4: a message crosses a link exactly once. The sender stages the message that has waited longest for the
  neighbour; the frame, as it goes over the air, is posted by the receiver's radio and taken from the ring. The
  message ends at the receiver. Then the application is handed its origin, port, hops and payload as they were
  queued, under the address of the neighbour it came from - unless a message of the same origin and number was
  received before: a copy that is sent again because its acknowledgement was lost passes the replay window, being
  protected anew, and is dropped here. Either way it is remembered and nothing is queued.\<close>

theorem message_crosses_link:
  fixes s t r :: ctx and m :: txmsg and i j k :: nat
  assumes sender: "i < length (c_neigh s)" "length (n_txbuf (nb s i)) = LG_PDU_MAX" "ctrl_body (nb s i) = []" "\<not> adv_due i s"
    and queued: "fst (lg_txq_peek (n_addr (nb s i)) s) = Some k" "m = c_txq s ! k"
      "m_len m \<le> LG_PAYLOAD_MAX" "length (m_payload m) = LG_PAYLOAD_MAX"
    and stage: "lg_link_stage_tx i s = (True, t)"
    and link: "c_addr r = n_addr (nb s i)" "c_addr s \<noteq> c_addr r" "c_netid16 r = c_netid16 s"
      "lg_neigh_find (c_addr s) r = Some j" "n_state (nb r j) = LG_NS_LINKED"
    and key: "aead_ok (c_cr s)" "c_cr r = c_cr s" "cfg_mic_len (c_cfg r) = cfg_mic_len (c_cfg s)"
      "n_key_id (nb r j) = n_key_id (nb s i)" "n_has_key (nb r j)"
      "replay_rep j r S" "n_rx_ctr (nb r j) < n_tx_ctr (nb s i) + 1"
    and receiver: "rx_ring_ok r" "rg_tail (c_rx_ring r) = rg_head (c_rx_ring r)" "c_dup_next r < length (c_dup_cache r)" "ends_at r m"
  shows "\<exists>r'. receive (over_air i t) rssi chan air r = Some r' \<and>
    c_app r' = c_app r @ (if (m_origin m, m_msg_id m) \<in> set (c_dup_cache r) \<or> \<not> c_cb_rx r then []
      else [AppRx \<lparr>ri_src = m_origin m, ri_prev_hop = c_addr s, ri_port = m_port m, ri_rssi = rssi, ri_hops = m_hops m\<rparr>
              (take (m_len m) (m_payload m))]) \<and>
    (m_origin m, m_msg_id m) \<in> set (c_dup_cache r') \<and> c_txq r' = c_txq r"
proof -
  obtain pdu u w where enc: "lg_sec_encrypt i pdu LG_HDR_LEN_SEC (LG_HDR_LEN_SEC + LG_DATA_HDR_SIZE + m_len m) u =
      (Inr (n_txlen (nb t i)), n_txbuf (nb t i), w)"
    and pdu: "carries pdu (c_netid16 s) (n_addr (nb s i)) (c_addr s) m"
    and u: "c_cr u = c_cr s" "c_cfg u = c_cfg s" "c_addr u = c_addr s" "n_tx_ctr (nb u i) = n_tx_ctr (nb s i)" "n_key_id (nb u i) = n_key_id (nb s i)"
    by (rule stage_message [OF sender queued stage])
  let ?len = "LG_HDR_LEN_SEC + LG_DATA_HDR_SIZE + m_len m" and ?n = "n_txlen (nb t i)" and ?p = "n_txbuf (nb t i)"
  obtain fcf sq where h: "length pdu = LG_PDU_MAX" "take LG_HDR_LEN pdu = hdr_bytes (c_netid16 r) fcf sq (c_addr r) (c_addr s)"
      "fcf \<in> {LG_FCF_SEC OR LG_FT_DATA, LG_FCF_SEC OR LG_FT_DATA OR LG_FCF_MD}"
    and body: "take (LG_DATA_HDR_SIZE + m_len m) (drop LG_HDR_LEN_SEC pdu) = data_hdr_bytes (msg_data_hdr m) @ take (m_len m) (m_payload m)"
    using pdu link by (auto simp: carries_def)
  have "pdu = hdr_bytes (c_netid16 r) fcf sq (c_addr r) (c_addr s) @ drop LG_HDR_LEN pdu" using h(2) by (metis append_take_drop_id)
  from hdr_fields(5) [OF this] have src: "lg_get_le16 pdu LG_OFF_SRC = c_addr u" using u(3) by simp
  note e = encrypt_header [OF enc h(1)]
  have law: "aead_ok (c_cr u)" "c_cr r = c_cr u" "cfg_mic_len (c_cfg r) = cfg_mic_len (c_cfg u)" "n_key_id (nb r j) = n_key_id (nb u i)"
    "n_rx_ctr (nb r j) < n_tx_ctr (nb u i) + 1" "?len \<le> LG_PDU_MAX" "j < length (c_neigh r)"
    using key u queued(3) neigh_find_SomeD [OF link(4)] by simp_all
  note opens = sealed_opens [OF law(1) _ _ _ _ _ _ _ h(1) src law(6) enc]
  have fits: "?n \<le> LG_PDU_MAX" "length ?p = LG_PDU_MAX"
    using opens [OF law(2-4) key(5) law(7) key(6) law(5)] by blast+
  have air: "length (over_air i t) = ?n" using fits by (simp add: over_air_def)
  then have short: "length (over_air i t) \<le> LG_PDU_MAX" using fits(1) by simp
  obtain rec ring where rec: "length (rx_pdu rec) = LG_PDU_MAX" "take (length (over_air i t)) (rx_pdu rec) = over_air i t"
    "rx_len rec = length (over_air i t)" "rx_rssi rec = rssi"
    and run: "receive (over_air i t) rssi chan air r = map_option (\<lambda>t. t\<lparr>c_rx_ring := ring_drop (c_rx_ring t)\<rparr>) 
        (dispatch rec (r\<lparr>c_rx_ring := ring, c_work_rx := False\<rparr>))"
    by (rule receive_one [OF receiver(1,2) short, of rssi chan air])
  define r0 where "r0 = r\<lparr>c_rx_ring := ring, c_work_rx := False\<rparr>"
  have env: "c_neigh r0 = c_neigh r" "c_cr r0 = c_cr r" "c_cfg r0 = c_cfg r" "c_addr r0 = c_addr r" "c_netid16 r0 = c_netid16 r"
    "c_app r0 = c_app r" "c_txq r0 = c_txq r" "c_dup_cache r0 = c_dup_cache r" "c_dup_next r0 = c_dup_next r"
    "c_cb_rx r0 = c_cb_rx r" "c_role r0 = c_role r"
    by (simp_all add: r0_def)
  have law0: "c_cr r0 = c_cr u" "cfg_mic_len (c_cfg r0) = cfg_mic_len (c_cfg u)" "n_key_id (nb r0 j) = n_key_id (nb u i)"
    "n_has_key (nb r0 j)" "j < length (c_neigh r0)" "replay_rep j r0 S" "n_rx_ctr (nb r0 j) < n_tx_ctr (nb u i) + 1"
    using law key(5,6) by (simp_all add: env replay_rep_def)
  obtain p r1 where opened: "lg_sec_decrypt j ?p ?n r0 = (Inr ?len, p, r1)"
    and plain: "take ?len p = take LG_OFF_FCTR pdu @ le32_bytes (n_tx_ctr (nb u i) + 1) @ take (?len - LG_HDR_LEN_SEC) (drop LG_HDR_LEN_SEC pdu)"
    using opens [OF law0] by blast
  have same: "take ?n ?p = take ?n (rx_pdu rec)" using rec(2) unfolding air by (simp add: over_air_def)
  have bounds: "LG_HDR_LEN_SEC \<le> ?n" "?n \<le> length ?p" "length (rx_pdu rec) = length ?p" using e(2) fits rec(1) by simp_all
  obtain q where q: "lg_sec_decrypt j (rx_pdu rec) (rx_len rec) r0 = (Inr ?len, q, r1)" "take ?len q = take ?len p"
    using decrypt_prefix [OF opened same bounds] rec(3) unfolding air by metis
  have head: "take LG_HDR_LEN (rx_pdu rec) = hdr_bytes (c_netid16 r0) fcf sq (c_addr r0) (c_addr s)"
  proof -
    have "take LG_HDR_LEN (rx_pdu rec) = take LG_HDR_LEN (take ?n (rx_pdu rec))" using bounds(1) by (simp add: min_def)
    also have "\<dots> = take LG_HDR_LEN ?p" using bounds(1) unfolding same [symmetric] by (simp add: min_def)
    finally show ?thesis using e(1) h(2) by (simp add: env)
  qed
  have "take (?len - LG_HDR_LEN_SEC) (drop LG_HDR_LEN_SEC q) = drop LG_HDR_LEN_SEC (take ?len p)"
    using arg_cong [OF q(2), of "drop LG_HDR_LEN_SEC"] by (simp add: drop_take)
  then have plain_q: "take (LG_DATA_HDR_SIZE + m_len m) (drop LG_HDR_LEN_SEC q) = data_hdr_bytes (msg_data_hdr m) @ take (m_len m) (m_payload m)"
    using h(1) body unfolding plain by simp
  have "lg_neigh_find (c_addr s) r0 = lg_neigh_find (c_addr s) r" by (simp add: lg_neigh_find_def env)
  then have near: "c_addr s \<noteq> c_addr r0" "lg_neigh_find (c_addr s) r0 = Some j" "n_state (nb r0 j) = LG_NS_LINKED"
    "ends_at r0 m" "c_dup_next r0 < length (c_dup_cache r0)" "delivered r0 = delivered r"
    using link receiver(3,4) by (simp_all add: env ends_at_def delivered_def fun_eq_iff)
  from frame_dispatched [OF head h(3) near(1-3) q(1) plain_q queued(3) near(4,5)]
  obtain v where "dispatch rec r0 = Some v" "c_app v = c_app r @ delivered r (c_addr s) rssi m"
    "(m_origin m, m_msg_id m) \<in> set (c_dup_cache v)" "c_txq v = c_txq r"
    using near(6) rec(4) env by auto
  then show ?thesis unfolding run r0_def by (simp add: delivered_def)
qed

text \<open>Node 5 sends three bytes to node 9, its neighbour.\<close>

definition demo_sender :: ctx where
  "demo_sender = (demo_keyed 5 9)\<lparr>c_txq := c_txq (snd (lg_send 9 3 [1, 2, 3] 3 0 ((demo_keyed 5 9)\<lparr>c_started := True\<rparr>)))\<rparr>"

theorem message_crosses_link_witness:
  "\<exists>r'. receive (over_air 0 (snd (lg_link_stage_tx 0 demo_sender))) (-60) 11 700 (demo_keyed 9 5) = Some r' \<and>
    c_app r' = [AppRx \<lparr>ri_src = 5, ri_prev_hop = 5, ri_port = 3, ri_rssi = -60, ri_hops = 0\<rparr> [1, 2, 3]]"
proof -
  let ?s = demo_sender and ?r = "demo_keyed 9 5" and ?m = "c_txq demo_sender ! 0"
  have s: "0 < length (c_neigh ?s)" "length (n_txbuf (nb ?s 0)) = LG_PDU_MAX" "ctrl_body (nb ?s 0) = []" "\<not> adv_due 0 ?s"
    and q: "fst (lg_txq_peek (n_addr (nb ?s 0)) ?s) = Some 0" "m_len ?m \<le> LG_PAYLOAD_MAX" "length (m_payload ?m) = LG_PAYLOAD_MAX"
    and st: "fst (lg_link_stage_tx 0 ?s)"
    and k: "cfg_mic_len (c_cfg ?r) = cfg_mic_len (c_cfg ?s)" "n_key_id (nb ?r 0) = n_key_id (nb ?s 0)" "n_has_key (nb ?r 0)"
    and z: "0 < length (c_neigh ?r)" "n_rx_ctr (nb ?r 0) = 0" "n_replay_mask (nb ?r 0) = 0" "n_rx_ctr (nb ?r 0) < n_tx_ctr (nb ?s 0) + 1"
    and m: "(m_origin ?m, m_final ?m, m_port ?m, m_hops ?m, m_msg_id ?m) = (5, 9, 3, 0, 0)" "take (m_len ?m) (m_payload ?m) = [1, 2, 3]"
    by code_simp+
  have l: "c_addr ?r = n_addr (nb ?s 0)" "c_addr ?s \<noteq> c_addr ?r" "c_netid16 ?r = c_netid16 ?s" "lg_neigh_find (c_addr ?s) ?r = Some 0"
      "n_state (nb ?r 0) = LG_NS_LINKED" and a: "c_addr ?s = 5" "c_addr ?r = 9"
    and d: "c_dup_next ?r < length (c_dup_cache ?r)" "rg_tail (c_rx_ring ?r) = rg_head (c_rx_ring ?r)" "(5, 0) \<notin> set (c_dup_cache ?r)"
      "c_cb_rx ?r" "c_app ?r = []"
    by code_simp+
  have cr: "c_cr (demo_keyed a b) = demo_crypto" "rx_ring_ok (demo_keyed a b)" for a b
    by (simp_all add: demo_keyed_def lg_sec_install_key_def Let_def upd_neigh_def demo_node_def node_zero_def import_aes_key_def
      demo_crypto_def rx_ring_ok_def ring_ok_def ring_used_def rx_rec_zero_def)
  have law: "aead_ok (c_cr ?s)" "c_cr ?r = c_cr ?s" by (simp_all add: demo_sender_def cr aead_ok_demo)
  have e: "ends_at ?r ?m" using m(1) a by (simp add: ends_at_def)
  have stage: "lg_link_stage_tx 0 ?s = (True, snd (lg_link_stage_tx 0 ?s))" using st by (simp add: prod_eq_iff)
  from message_crosses_link [OF s q(1) refl q(2,3) stage l law k replay_rep_fresh [OF z(1-3)] z(4) cr(2) d(2,1) e, of "-60" 11 700]
  show ?thesis using m a d(3-5) by auto
qed

end
