(* ===== verification/LG_Loop.thy ===== *)
theory LG_Loop
  imports LG_Core
begin

text \<open>
  What two routers make of each other's advertisements once neither has another link: each takes the other
  for its way up, and their ranks count up until the ceiling ends it.
\<close>

section \<open>A node with a single link\<close>

definition lone :: "ctx \<Rightarrow> nat \<Rightarrow> u16 \<Rightarrow> u16 \<Rightarrow> bool" where
  "lone s i peer cost \<longleftrightarrow> i < length (c_neigh s) \<and> n_state (nb s i) = LG_NS_LINKED \<and> n_addr (nb s i) = peer \<and>
     n_link_cost (nb s i) = cost \<and> (\<forall>k<length (c_neigh s). k \<noteq> i \<longrightarrow> n_state (nb s k) \<noteq> LG_NS_LINKED) \<and>
     c_role s \<noteq> LG_ROLE_BACKHAUL \<and> 1 \<le> cfg_max_parents (c_cfg s)"

text \<open>The rank it takes from a neighbour of rank \<open>r\<close>.\<close>

definition rank_via :: "config \<Rightarrow> u16 \<Rightarrow> u16 \<Rightarrow> u16" where
  "rank_via cfg r cost =
    (if r = LG_RANK_INFINITE \<or> unat (cfg_max_rank cfg) \<le> unat r + unat cost then LG_RANK_INFINITE else r + cost)"

lemma lone_eligible:
  assumes "lone s i peer cost" "cost \<noteq> 0" "cfg_ok (c_cfg s)"
  shows "eligible s q \<longleftrightarrow> q = i \<and> rank_via (c_cfg s) (n_peer_rank (nb s i)) cost \<noteq> LG_RANK_INFINITE"
    and "rank_via (c_cfg s) (n_peer_rank (nb s i)) cost \<noteq> LG_RANK_INFINITE \<Longrightarrow>
      path_cost s i = ucast (rank_via (c_cfg s) (n_peer_rank (nb s i)) cost) \<and> path_cost s i < RANK_INF32"
proof -
  let ?r = "n_peer_rank (nb s i)" and ?M = "cfg_max_rank (c_cfg s)"
  have M: "unat ?M \<le> 32768" using assms(3) by (simp add: cfg_ok_def word_le_nat_alt)
  have pos: "0 < unat cost" using assms(2) by (simp add: unat_gt_0)
  have small: "unat ?r < 2 ^ 16" "unat cost < 2 ^ 16"
    using unsigned_less [of ?r] unsigned_less [of cost] by simp_all
  then have sum: "unat ((ucast ?r :: u32) + ucast cost) = unat ?r + unat cost"
    by (simp add: unat_word_ariths unat_ucast_up)
  have short: "unat (?r + cost) = unat ?r + unat cost" if "unat ?r + unat cost < unat ?M"
    using that M by (simp add: unat_word_ariths)
  have infinite: "unat LG_RANK_INFINITE = 65535" "unat RANK_INF32 = 65535" by (simp_all add: LG_RANK_INFINITE_def RANK_INF32_def)
  have finite: "rank_via (c_cfg s) ?r cost \<noteq> LG_RANK_INFINITE \<longleftrightarrow> ?r \<noteq> LG_RANK_INFINITE \<and> unat ?r + unat cost < unat ?M"
    using short M infinite by (auto simp: rank_via_def)
  have cost_i: "path_cost s i = (if ?r = LG_RANK_INFINITE \<or> unat ?M \<le> unat ?r + unat cost then RANK_INF32 else ucast ?r + ucast cost)"
    using assms(1) sum by (simp add: path_cost_def rank_through_def lone_def word_le_nat_alt Let_def)
  have i: "i < length (c_neigh s)" using assms(1) by (simp add: lone_def)
  show "eligible s q \<longleftrightarrow> q = i \<and> rank_via (c_cfg s) ?r cost \<noteq> LG_RANK_INFINITE"
  proof (cases "q = i")
    case True
    then show ?thesis using i cost_i sum M pos infinite unfolding finite
      by (simp add: eligible_def word_less_nat_alt unat_ucast_up)
  next
    case False
    then have "q < length (c_neigh s) \<Longrightarrow> path_cost s q = RANK_INF32"
      using assms(1) by (simp add: path_cost_def rank_through_def lone_def)
    then show ?thesis using False by (auto simp: eligible_def)
  qed
  assume "rank_via (c_cfg s) ?r cost \<noteq> LG_RANK_INFINITE"
  then have f: "?r \<noteq> LG_RANK_INFINITE" "unat ?r + unat cost < unat ?M" unfolding finite by simp_all
  have "unat (path_cost s i) = unat (ucast (?r + cost) :: u32)"
    using cost_i f sum short [OF f(2)] by (simp add: unat_ucast_up)
  then show "path_cost s i = ucast (rank_via (c_cfg s) ?r cost) \<and> path_cost s i < RANK_INF32"
    using f M infinite short [OF f(2)] by (simp add: rank_via_def word_less_nat_alt word_unat_eq_iff unat_ucast_up)
qed

lemma lone_recompute:
  assumes "lone s i peer cost" "cost \<noteq> 0" "cfg_ok (c_cfg s)" "lg_route_recompute s = (ch, t)"
  defines "r \<equiv> rank_via (c_cfg s) (n_peer_rank (nb s i)) cost"
  shows "lone t i peer cost" "c_cfg t = c_cfg s" "c_rank t = r" "lg_parent t = (if r = LG_RANK_INFINITE then LG_ADDR_INVALID else peer)"
proof -
  have s: "c_role s \<noteq> LG_ROLE_BACKHAUL" "1 \<le> cfg_max_parents (c_cfg s)" "i < length (c_neigh s)" using assms(1) by (simp_all add: lone_def)
  define B where "B = best_hysteresis s (lg_parent s) (best_loop s)"
  note res = recompute_result [OF s(1,2) assms(4), folded B_def]
  note loop = best_loop_props [OF s(2)] and hyst = best_hysteresis_props [OF s(2), of "lg_parent s", folded B_def]
  note el = lone_eligible [OF assms(1-3), folded r_def]
  have entry: "e = (RANK_INF32, None) \<or> r \<noteq> LG_RANK_INFINITE \<and> e = (path_cost s i, Some i)" if "e \<in> set B" for e
    using loop(2) [of e] that hyst(1) by (auto simp: el(1))
  have first: "snd (B ! 0) = None \<longleftrightarrow> r = LG_RANK_INFINITE"
  proof
    assume "snd (B ! 0) = None"
    then have "snd (best_loop s ! 0) = None" using hyst(2) by auto
    then show "r = LG_RANK_INFINITE" using loop(3) el(1) by blast
  qed (use entry [OF hyst(3)] in auto)
  then have B0: "B ! 0 = (if r = LG_RANK_INFINITE then (RANK_INF32, None) else (path_cost s i, Some i))"
    using entry [OF hyst(3)] by auto
  show "c_cfg t = c_cfg s" by (rule res(5))
  show "c_rank t = r"
  proof (cases "r = LG_RANK_INFINITE")
    case True
    then show ?thesis using res(1) B0 by (simp add: best_rank_def)
  next
    case False
    note c = el(2) [OF False]
    have "ucast (best_rank (path_cost s i, Some i)) = path_cost s i" by (rule rank_word(2) [OF c [THEN conjunct2]])
    moreover have "c_rank t = best_rank (path_cost s i, Some i)" using res(1) B0 False by simp
    ultimately have "(ucast (c_rank t) :: u32) = ucast r" using c by argo
    then have "unat (ucast (c_rank t) :: u32) = unat (ucast r :: u32)" by simp
    then have "unat (c_rank t) = unat r" by (simp add: unat_ucast_up)
    then show ?thesis by (simp add: word_unat_eq_iff)
  qed
  show lone: "lone t i peer cost"
    using assms(1) res(2) res(4) res(5,6) by (auto simp: lone_def)
  have marks: "n_is_parent (nb t k) \<and> n_state (nb t k) = LG_NS_LINKED \<longleftrightarrow> k = i \<and> r \<noteq> LG_RANK_INFINITE" if "k < length (c_neigh t)" for k
  proof -
    have "Some i \<in> snd ` set B \<longleftrightarrow> r \<noteq> LG_RANK_INFINITE" using entry hyst(3) B0 by force
    then show ?thesis using res(3) [of k] res(2) that lone by (auto simp: lone_def)
  qed
  show "lg_parent t = (if r = LG_RANK_INFINITE then LG_ADDR_INVALID else peer)"
  proof (cases "find_idx (\<lambda>n. n_is_parent n \<and> n_state n = LG_NS_LINKED) (c_neigh t)")
    case None
    then have "r = LG_RANK_INFINITE" using marks [of i] lone by (force simp: find_idx_None_iff lone_def)
    with None show ?thesis by (simp add: lg_parent_def)
  next
    case (Some k)
    then have "k = i \<and> r \<noteq> LG_RANK_INFINITE" using marks [of k] find_idx_SomeD [OF Some] by blast
    with Some lone show ?thesis by (simp add: lg_parent_def lone_def)
  qed
qed

section \<open>Hearing an advertisement\<close>

text \<open>Node \<open>x\<close> advertises, and its neighbour \<open>y\<close>, where it is entry \<open>j\<close>, hears it.\<close>

definition advertise :: "ctx \<Rightarrow> nat \<Rightarrow> ctx \<Rightarrow> ctx" where
  "advertise x j y = (case lg_route_build_adv (replicate 28 0) 28 x of (adv, len) \<Rightarrow> lg_route_handle_adv j (take len adv) len y)"

lemma routing_frame:
  "c_neigh (gossip_record a r s) = c_neigh s" "c_cfg (gossip_record a r s) = c_cfg s" "c_role (gossip_record a r s) = c_role s"
  "c_neigh (lg_route_add d v h s) = c_neigh s" "c_cfg (lg_route_add d v h s) = c_cfg s" "c_role (lg_route_add d v h s) = c_role s"
  by (simp_all add: gossip_record_def lg_route_add_def Let_def split: option.split)

lemma entries_frame:
  "c_neigh (fold (adv_entry_step i r) es s) = c_neigh s \<and> c_cfg (fold (adv_entry_step i r) es s) = c_cfg s \<and>
   c_role (fold (adv_entry_step i r) es s) = c_role s"
  by (induction es arbitrary: s) (simp_all add: adv_entry_step_def Let_def routing_frame split: prod.splits)

lemma seeking_frame:
  assumes "\<And>u x. f (u\<lparr>c_rng_n := x\<rparr>) = f u" "\<And>u x. f (u\<lparr>c_next_scan_us := x\<rparr>) = f u" "\<And>u x. f (u\<lparr>c_next_beacon_us := x\<rparr>) = f u"
    "\<And>u x. f (u\<lparr>c_want_addr := x\<rparr>) = f u" "\<And>u x. f (u\<lparr>c_want_until_us := x\<rparr>) = f u"
  shows "f (gossip_consider_seeking s) = f s"
  by (simp add: gossip_consider_seeking_def retune_field [of f] assms split: option.split)

lemma lone_hears:
  fixes x :: ctx
  assumes "lone y j peer cost" "cost \<noteq> 0" "cfg_ok (c_cfg y)"
  defines "t \<equiv> advertise x j y" and "r \<equiv> rank_via (c_cfg y) (c_rank x) cost"
  shows "lone t j peer cost" "c_cfg t = c_cfg y" "c_rank t = r" "lg_parent t = (if r = LG_RANK_INFINITE then LG_ADDR_INVALID else peer)"
proof -
  obtain adv len where adv: "lg_route_build_adv (replicate 28 0) 28 x = (adv, len)" by (rule prod.exhaust)
  have ad: "5 \<le> len" "len \<le> 28" "length adv = 28" "lg_get_le16 adv 1 = c_rank x"
    using advertisement_roundtrip [OF _ _ adv] by simp_all
  then have rank: "lg_get_le16 (take len adv) 1 = c_rank x" by (simp add: lg_get_le16_def)
  define u where "u = fold (adv_entry_step j (c_rank x)) (adv_entries (unat (take len adv ! 4)) (take len adv) 5 len)
    (upd_neigh j (\<lambda>n. n\<lparr>n_role := take len adv ! 3, n_peer_rank := c_rank x, n_route_adv_us := c_now y\<rparr>) y)"
  have j: "j < length (c_neigh y)" using assms(1) by (simp add: lone_def)
  have u: "c_neigh u = c_neigh (upd_neigh j (\<lambda>n. n\<lparr>n_role := take len adv ! 3, n_peer_rank := c_rank x, n_route_adv_us := c_now y\<rparr>) y)"
    "c_cfg u = c_cfg y" "c_role u = c_role y"
    using entries_frame by (simp_all add: u_def upd_neigh_def)
  have lu: "lone u j peer cost" using assms(1) j u by (auto simp: lone_def upd_neigh_def nth_list_update)
  have pr: "n_peer_rank (nb u j) = c_rank x" using u j by (simp add: upd_neigh_def)
  obtain ch v where v: "lg_route_recompute u = (ch, v)" by (rule prod.exhaust)
  have ok: "cfg_ok (c_cfg u)" using assms(3) u by simp
  note rc = lone_recompute [OF lu assms(2) ok v, unfolded pr u(2), folded r_def]
  define w where "w = (if ch then lg_notify LG_EVT_PARENT_CHANGED (lg_parent v) v else v)"
  have t: "t = gossip_consider_seeking w"
    using ad adv rank v by (simp add: t_def advertise_def lg_route_handle_adv_def u_def w_def Let_def)
  have view: "(c_neigh t, c_cfg t, c_rank t, c_role t) = (c_neigh v, c_cfg v, c_rank v, c_role v)"
  proof -
    have "(c_neigh t, c_cfg t, c_rank t, c_role t) = (c_neigh w, c_cfg w, c_rank w, c_role w)"
      unfolding t by (rule seeking_frame [of "\<lambda>s. (c_neigh s, c_cfg s, c_rank s, c_role s)"]) simp_all
    then show ?thesis by (simp add: w_def)
  qed
  moreover from view have "lg_parent t = lg_parent v" by (simp only: lg_parent_def prod.inject)
  ultimately show "lone t j peer cost" "c_cfg t = c_cfg y" "c_rank t = r" "lg_parent t = (if r = LG_RANK_INFINITE then LG_ADDR_INVALID else peer)"
    using rc u by (simp_all add: lone_def)
qed

section \<open>Counting up\<close>

text \<open>First \<open>a\<close> advertises to \<open>b\<close>, then \<open>b\<close> to \<open>a\<close>.\<close>

definition adv_round :: "nat \<Rightarrow> nat \<Rightarrow> ctx \<times> ctx \<Rightarrow> ctx \<times> ctx" where
  "adv_round i j = (\<lambda>(a, b). let b' = advertise a j b in (advertise b' i a, b'))"

lemma unat_rank_via:
  assumes "cfg_ok cfg" "unat r < unat (cfg_max_rank cfg) \<or> r = LG_RANK_INFINITE"
  shows "unat (rank_via cfg r c) = (if unat r + unat c < unat (cfg_max_rank cfg) then unat r + unat c else 65535)"
    "rank_via cfg r c = LG_RANK_INFINITE \<longleftrightarrow> unat (cfg_max_rank cfg) \<le> unat r + unat c"
proof -
  have M: "unat (cfg_max_rank cfg) \<le> 32768" using assms(1) by (simp add: cfg_ok_def word_le_nat_alt)
  have inf: "unat LG_RANK_INFINITE = 65535" by (simp add: LG_RANK_INFINITE_def)
  have sum: "unat (r + c) = unat r + unat c" if "unat r + unat c < unat (cfg_max_rank cfg)"
    using that M by (simp add: unat_word_ariths)
  show "unat (rank_via cfg r c) = (if unat r + unat c < unat (cfg_max_rank cfg) then unat r + unat c else 65535)"
    using sum inf M by (auto simp: rank_via_def)
  show "rank_via cfg r c = LG_RANK_INFINITE \<longleftrightarrow> unat (cfg_max_rank cfg) \<le> unat r + unat c"
    using sum inf M by (auto simp: rank_via_def)
qed

lemma round_ranks:
  assumes "lone a i pb ca" "lone b j pa cb" "ca \<noteq> 0" "cb \<noteq> 0" "cfg_ok (c_cfg a)" "c_cfg b = c_cfg a"
    and "adv_round i j (a, b) = (x, y)" and "unat (c_rank a) < unat (cfg_max_rank (c_cfg a)) \<or> c_rank a = LG_RANK_INFINITE"
  defines "M \<equiv> unat (cfg_max_rank (c_cfg a))" and "up \<equiv> unat (c_rank a) + unat cb"
  shows "lone x i pb ca" "lone y j pa cb" "c_cfg x = c_cfg a" "c_cfg y = c_cfg a"
    "unat (c_rank x) = (if up + unat ca < M then up + unat ca else 65535)" "c_rank x = LG_RANK_INFINITE \<longleftrightarrow> M \<le> up + unat ca"
    "c_rank y = LG_RANK_INFINITE \<longleftrightarrow> M \<le> up"
    "lg_parent x = (if up + unat ca < M then pb else LG_ADDR_INVALID)" "lg_parent y = (if up < M then pa else LG_ADDR_INVALID)"
proof -
  have xy: "y = advertise a j b" "x = advertise y i a" using assms(7) by (auto simp: adv_round_def Let_def)
  have okb: "cfg_ok (c_cfg b)" using assms(5,6) by simp
  note y = lone_hears [OF assms(2,4) okb, of a, folded xy(1), unfolded assms(6)]
  note x = lone_hears [OF assms(1,3,5), of y, folded xy(2), unfolded y(3)]
  note ry = unat_rank_via [OF assms(5,8), of cb, folded M_def up_def]
  let ?v = "rank_via (c_cfg a) (c_rank a) cb"
  have inf: "unat LG_RANK_INFINITE = 65535" by (simp add: LG_RANK_INFINITE_def)
  have M: "M \<le> 32768" using assms(5) by (simp add: M_def cfg_ok_def word_le_nat_alt)
  have "unat ?v < unat (cfg_max_rank (c_cfg a)) \<or> ?v = LG_RANK_INFINITE" using ry by (auto simp: M_def)
  note rx = unat_rank_via [OF assms(5) this, of ca, folded M_def]
  have grow: "unat ?v + unat ca < M \<longleftrightarrow> up + unat ca < M" "M \<le> unat ?v + unat ca \<longleftrightarrow> M \<le> up + unat ca"
    "up + unat ca < M \<Longrightarrow> unat ?v = up"
    using ry(1) M by (auto split: if_splits)
  show "lone x i pb ca" "lone y j pa cb" "c_cfg x = c_cfg a" "c_cfg y = c_cfg a" by (rule x y)+
  show "c_rank y = LG_RANK_INFINITE \<longleftrightarrow> M \<le> up" "lg_parent y = (if up < M then pa else LG_ADDR_INVALID)"
    using y(3,4) ry(2) by (simp_all add: not_le)
  show "unat (c_rank x) = (if up + unat ca < M then up + unat ca else 65535)" using x(3) rx(1) grow by simp
  show "c_rank x = LG_RANK_INFINITE \<longleftrightarrow> M \<le> up + unat ca" "lg_parent x = (if up + unat ca < M then pb else LG_ADDR_INVALID)"
    using x(3,4) rx(2) grow by (auto simp: not_le)
qed

lemma rounds_ranks:
  assumes "lone a i pb ca" "lone b j pa cb" "ca \<noteq> 0" "cb \<noteq> 0" "cfg_ok (c_cfg a)" "c_cfg b = c_cfg a"
    and "unat (c_rank a) < unat (cfg_max_rank (c_cfg a))" "(adv_round i j ^^ n) (a, b) = (x, y)"
  defines "M \<equiv> unat (cfg_max_rank (c_cfg a))" and "up \<equiv> unat (c_rank a) + n * (unat ca + unat cb)"
  shows "lone x i pb ca \<and> lone y j pa cb \<and> c_cfg x = c_cfg a \<and> c_cfg y = c_cfg a \<and>
    unat (c_rank x) = (if up < M then up else 65535) \<and> (c_rank x = LG_RANK_INFINITE \<longleftrightarrow> M \<le> up)"
  using assms(8) unfolding up_def
proof (induction n arbitrary: x y)
  case 0
  have "unat LG_RANK_INFINITE = 65535" by (simp add: LG_RANK_INFINITE_def)
  moreover have "M \<le> 32768" using assms(5) by (simp add: M_def cfg_ok_def word_le_nat_alt)
  moreover have "x = a" "y = b" using 0 by simp_all
  ultimately show ?case using assms(1,2,6,7) by (auto simp: M_def)
next
  case (Suc n)
  obtain v w where vw: "(adv_round i j ^^ n) (a, b) = (v, w)" by (rule prod.exhaust)
  have IH: "lone v i pb ca" "lone w j pa cb" "c_cfg v = c_cfg a" "c_cfg w = c_cfg a"
    "unat (c_rank v) = (if unat (c_rank a) + n * (unat ca + unat cb) < M then unat (c_rank a) + n * (unat ca + unat cb) else 65535)"
    "c_rank v = LG_RANK_INFINITE \<longleftrightarrow> M \<le> unat (c_rank a) + n * (unat ca + unat cb)"
    using Suc.IH [OF vw] by blast+
  have step: "adv_round i j (v, w) = (x, y)" using Suc.prems vw by simp
  have ok: "cfg_ok (c_cfg v)" "c_cfg w = c_cfg v" using IH(3,4) assms(5) by simp_all
  have M: "M \<le> 32768" using assms(5) by (simp add: M_def cfg_ok_def word_le_nat_alt)
  have small: "unat (c_rank v) < unat (cfg_max_rank (c_cfg v)) \<or> c_rank v = LG_RANK_INFINITE"
    using IH(3,5,6) M by (auto simp: M_def)
  note r = round_ranks [OF IH(1,2) assms(3,4) ok step small, unfolded IH(3), folded M_def]
  have "unat (c_rank x) = (if unat (c_rank a) + Suc n * (unat ca + unat cb) < M then unat (c_rank a) + Suc n * (unat ca + unat cb) else 65535)"
    "c_rank x = LG_RANK_INFINITE \<longleftrightarrow> M \<le> unat (c_rank a) + Suc n * (unat ca + unat cb)"
    using r(5,6) IH(5) M by (auto split: if_splits)
  with r show ?case by blast
qed

text \<open>C17: two routers left with nothing but each other keep believing in a way up until the rank ceiling is reached,
  and then stop. Whatever rank the first holds, after \<open>n\<close> exchanges of advertisements it has grown by \<open>n\<close> times
  the costs of the link in both directions; as long as that is under the ceiling each is the other's parent -
  so a message for the backhaul goes back where it came from - although neither has a way there, and the test
  meant to stop two nodes adopting each other never does. Once it is not, the node has no parent and an infinite
  rank; and after as many rounds as the ceiling is high, both are detached.\<close>

theorem orphans_count_up:
  fixes a b x y :: ctx and n :: nat
  assumes "lone a i (c_addr b) ca" "lone b j (c_addr a) cb" "ca \<noteq> 0" "cb \<noteq> 0" "cfg_ok (c_cfg a)" "c_cfg b = c_cfg a"
    and "unat (c_rank a) < unat (cfg_max_rank (c_cfg a))" "0 < n" and rounds: "(adv_round i j ^^ n) (a, b) = (x, y)"
  defines "M \<equiv> unat (cfg_max_rank (c_cfg a))" and "up \<equiv> unat (c_rank a) + n * (unat ca + unat cb)"
  shows "(if up < M then unat (c_rank x) = up \<and> lg_parent x = c_addr b \<and> lg_parent y = c_addr a
      else c_rank x = LG_RANK_INFINITE \<and> lg_parent x = LG_ADDR_INVALID) \<and>
    (M \<le> n \<longrightarrow> c_rank y = LG_RANK_INFINITE \<and> lg_parent y = LG_ADDR_INVALID \<and> c_rank x = LG_RANK_INFINITE)"
proof -
  obtain k where k: "n = Suc k" using assms(8) by (cases n) auto
  obtain v w where vw: "(adv_round i j ^^ k) (a, b) = (v, w)" by (rule prod.exhaust)
  have step: "adv_round i j (v, w) = (x, y)" using rounds vw k by simp
  let ?k = "unat (c_rank a) + k * (unat ca + unat cb)"
  have at: "lone v i (c_addr b) ca" "lone w j (c_addr a) cb" "c_cfg v = c_cfg a" "c_cfg w = c_cfg a"
    "unat (c_rank v) = (if ?k < M then ?k else 65535)" "c_rank v = LG_RANK_INFINITE \<longleftrightarrow> M \<le> ?k"
    using rounds_ranks [OF assms(1-7) vw, folded M_def] by blast+
  have ok: "cfg_ok (c_cfg v)" "c_cfg w = c_cfg v" using at(3,4) assms(5) by simp_all
  have M: "M \<le> 32768" using assms(5) by (simp add: M_def cfg_ok_def word_le_nat_alt)
  have small: "unat (c_rank v) < unat (cfg_max_rank (c_cfg v)) \<or> c_rank v = LG_RANK_INFINITE"
    using at(3,5,6) M by (auto simp: M_def)
  note r = round_ranks [OF at(1,2) assms(3,4) ok step small, unfolded at(3), folded M_def]
  have up: "up = ?k + unat cb + unat ca" by (simp add: up_def k)
  have "1 \<le> unat ca" "1 \<le> unat cb" using assms(3,4) by (simp_all add: Suc_le_eq unat_gt_0)
  then have "k * 2 \<le> k * (unat ca + unat cb)" by (intro mult_le_mono) simp_all
  then have late: "M \<le> ?k + unat cb" if "M \<le> n" using that \<open>1 \<le> unat cb\<close> k by linarith
  show ?thesis
  proof (cases "?k < M")
    case True
    then have kk: "unat (c_rank v) = ?k" using at(5) by simp
    show ?thesis using r(5-9) late unfolding kk up by auto
  next
    case False
    then have kk: "unat (c_rank v) = 65535" using at(5) by simp
    show ?thesis using r(5-9) late False M unfolding kk up by auto
  qed
qed

text \<open>Nodes 5 and 6, with a link of cost 16; the ceiling is 512.\<close>

definition demo_pair :: "u16 \<Rightarrow> u16 \<Rightarrow> u16 \<Rightarrow> ctx" where
  "demo_pair own peer rank = demo_node\<lparr>c_addr := own, c_role := LG_ROLE_ROUTER, c_rank := rank,
     c_neigh := demo_linked peer 32 16 # replicate 7 neigh_zero\<rparr>"

theorem orphans_count_up_witness:
  "unat (c_rank (fst ((adv_round 0 0 ^^ 3) (demo_pair 5 6 16, demo_pair 6 5 32)))) = 112 \<and>
   lg_parent (fst ((adv_round 0 0 ^^ 3) (demo_pair 5 6 16, demo_pair 6 5 32))) = 6 \<and>
   lg_parent (snd ((adv_round 0 0 ^^ 3) (demo_pair 5 6 16, demo_pair 6 5 32))) = 5 \<and>
   c_rank (snd ((adv_round 0 0 ^^ 512) (demo_pair 5 6 16, demo_pair 6 5 32))) = LG_RANK_INFINITE"
proof -
  let ?a = "demo_pair 5 6 16" and ?b = "demo_pair 6 5 32"
  have pair: "lone (demo_pair own peer r) 0 peer 16" for own peer r
    by (auto simp: lone_def demo_pair_def demo_linked_def neigh_zero_def neigh_fresh_def demo_node_def node_zero_def default_cfg_def
      nth_Cons split: nat.split)
  have env: "c_addr ?a = 5" "c_addr ?b = 6" "c_cfg ?b = c_cfg ?a" "cfg_ok (c_cfg ?a)" "unat (cfg_max_rank (c_cfg ?a)) = 512" "unat (c_rank ?a) = 16"
    using cfg_ok_default by (simp_all add: demo_pair_def demo_node_def node_zero_def) (simp add: default_cfg_def)
  have lone: "lone ?a 0 (c_addr ?b) 16" "lone ?b 0 (c_addr ?a) 16" using pair unfolding env by blast+
  note run = orphans_count_up [OF lone _ _ env(4) env(3) _ _ prod.collapse [symmetric], unfolded env]
  from run [of 3] run [of 512] show ?thesis by simp
qed

end
