(* ===== verification/Spec2Isabelle.thy ===== *)
theory Spec2Isabelle
  imports LG_Agree LG_Frag LG_Node LG_Mpsl LG_Meet LG_Sample LG_Deliver LG_Loop
begin

text \<open>
  LockGrid: a mesh of battery-powered nodes that share synchronised links (\<open>subsys/lockgrid\<close>).

  A node keeps a table of neighbours. It hears their beacons (\<open>lg_disc.c\<close>), authenticates with some
  of them (\<open>lg_join.c\<close>) and then meets each at agreed instants on agreed channels (\<open>lg_link.c\<close>,
  \<open>lg_chan.c\<close>). Frames are protected per link (\<open>lg_sec.c\<close>); parents and routes follow the rank of the
  neighbours (\<open>lg_route.c\<close>, \<open>lg_neigh.c\<close>), and every node chooses its own role (\<open>lg_role.c\<close>). One radio
  event runs at a time (\<open>lg_sched.c\<close>), granted by an arbiter (\<open>lg_ts_direct.c\<close>); interrupt handlers hand
  frames and notifications to the work queue through rings (\<open>lg_core.c\<close>).

  The model keeps the whole state of a node in one record \<open>ctx\<close>: \<open>struct lg_ctx\<close>, the module statics and
  the environment the code reads (clock, random numbers, PSA crypto, whether the radio driver accepts
  a command). Each C function is one definition of the same name that takes and returns that record;
  errors are \<open>Inl\<close> of an \<open>errno\<close>. Machine integers keep their width; lengths are natural numbers; a pointer
  to a neighbour is its index. A handler runs at one instant, so the clock is constant in it. Loops
  over a table fold over its indices. The catch-up loop of a link may not end and is a
  partial function into \<open>option\<close>.

  \<^item> \<open>LG_Prelude\<close>: words, searching and picking in lists, buffers, tables keyed by an address (a locale).
  \<^item> \<open>LG_Frame\<close>: headers and packed structures, with their round trips.
  \<^item> \<open>LG_State\<close>, \<open>LG_Ctx\<close>: the records.
  \<^item> \<open>LG_Chan\<close>: hopping, remapping, channel statistics.
  \<^item> \<open>LG_Sec\<close>: frame protection, the replay window (a locale and its interpretation), beacons, certificates.
  \<^item> \<open>LG_Neigh\<close>: the neighbour table and the link metrics.
  \<^item> \<open>LG_Ring\<close>: the two rings, as refinements of a bounded queue (a locale).
  \<^item> \<open>LG_Env\<close>: power accounting, the direct arbiter, the end of an event.
  \<^item> \<open>LG_Route\<close>: parent selection, routes, advertisements, gossip, duplicates.
  \<^item> \<open>LG_Disc\<close>: beacons, scanning, tracking. \<open>LG_Role\<close>: the role a node takes, with the states it can reach.
  \<^item> \<open>LG_Tuning\<close>, \<open>LG_Queue\<close>: run-time tuning and the transmit queue of \<open>lg_core.c\<close>.
  \<^item> \<open>LG_Anchor\<close>: window, event counter, catching up and agreed changes of a link.
  \<^item> \<open>LG_Link\<close>: establishment, teardown, staging, event handlers and received frames.
  \<^item> \<open>LG_Join\<close>: the join handshake of \<open>lg_join.c\<close> - keys, fragments, messages, slots, handlers - and the
    reception of beacons, which starts it. \<open>LG_Agree\<close>: two nodes run it against each other and end with
    the same keys. \<open>LG_Frag\<close>: what is cut into fragments is put together again.
  \<^item> \<open>LG_Sched\<close>: the scheduler of \<open>lg_sched.c\<close> - candidates, choice, plan, request, reports of the arbiter and
    the radio, settling.
  \<^item> \<open>LG_Core\<close>: the rest of \<open>lg_core.c\<close> - dispatching received frames, provisioning, starting, stopping.
  \<^item> \<open>LG_Quiet\<close>: what almost every operation leaves alone - event, arbiter, radio, table sizes - as a relation
    with one rule per operation. \<open>LG_Node\<close>: the node as one transition system of work items, reports, the
    passing of time and calls of the application, with the invariants of every state it can reach.
  \<^item> \<open>LG_Phy\<close>: the radio driver of \<open>lg_phy_nrf.c\<close> - its state machine, timers and interrupts - and the
    proof that it implements the radio the other theories are modelled with.
  \<^item> \<open>LG_Mpsl\<close>: the arbiter of \<open>lg_ts_mpsl.c\<close>, with the contract both arbiters keep (a locale).
  \<^item> \<open>LG_Meet\<close>: the two ends of a link, side by side - where and when each is at every event, from the handshake
    on. \<open>LG_SimProv\<close>: the certificates a simulated node issues to itself (\<open>lg_provision_sim.c\<close>).
  \<^item> \<open>LG_Sample\<close>: the sample node - its arguments, how it brings a node up, its telemetry.
  \<^item> \<open>LG_Deliver\<close>: a message on its way over one link, from the queue of one node to the application of the other.
    \<open>LG_Loop\<close>: two routers that have only each other left, and their advertisements.

  The layers call each other as the code does: \<open>sched_pick\<close> asks the links, the handshake and discovery for
  their next event and plans one; the arbiter's grant runs \<open>ev_start\<close>, the radio's reports run \<open>phy_tx_done\<close>
  and \<open>phy_rx_done\<close>, which post frames to the ring and end the event; \<open>sched_finish\<close> settles it on the work
  queue and picks again, while \<open>rx_handler\<close> hands the posted frames to \<open>dispatch\<close>. The receive loop runs for
  as many records as the ring held when it started, since nothing posts to it while the work queue runs.

  The theorems show what each component promises: frames are not accepted twice and open to what was
  sealed, channels stay in the map, parents are the cheapest and hold no dead links, rings keep their
  order, roles do not flap, the handshake agrees on keys and ends, the scheduler picks the best claim and
  never stalls, past the handshake only authentic frames act, and a message sent over a link is handed to
  the application of the other end once. Of the node as a whole: its data stay
  well formed, it is never stuck with an event that nobody ends (as long as the work items return, which
  the catch-up loop may fail to do), and its radio works only inside a slot it was granted. Several state where the code falls
  short: a catch-up loop that hangs after the counter wraps, messages freed unsent, unprotected handshake
  frames that are believed, a resumption that cannot complete, an expedited event the other end does not
  attend, two orphaned routers that stay each other's parent until their rank reaches the ceiling.

  Not modelled: the hardware itself - what is written to the radio is a list of commands, what it
  reports is an input - and the closed MPSL library behind the second arbiter; tracing and
  printing; the simulation tests; the set-up of the Zephyr work queue
  (\<open>lg_core_init\<close>).
\<close>

end
